(* ===== verification/Prelude.thy ===== *)
theory Prelude
  imports Main "HOL-Library.Signed_Division" "HOL-Library.Char_ord" "HOL-Library.List_Lexorder"
begin

text \<open>
  What every component shares: the C++ exceptions as values, the parts of
  \<open>std::string\<close> and of the number parsers (\<open>std::stoi\<close>, \<open>std::stol\<close>) that the
  sources call, and the collections of hints the component proofs use.
  A position \<open>std::string::npos\<close> is \<open>None\<close>; a thrown exception is \<open>Inl\<close>.
\<close>

named_theorems str_simps \<open>facts about the std::string searches\<close>

section \<open>Exceptions as values\<close>

datatype cpp_error =
    LogicError
  | InvalidArgument
  | OutOfRange
  | RuntimeError
  | BadCast
  | ParseException
  | UndefinedBehaviour

text \<open>The handlers \<open>catch (const std::exception &)\<close> catch every thrown exception of the
  library; undefined behaviour is no exception and is caught by nothing.\<close>

definition caught :: "cpp_error \<Rightarrow> bool" where
  "caught e \<longleftrightarrow> e \<noteq> UndefinedBehaviour"

text \<open>Why there is no result: an exception, or a loop that has used up its fuel.  A failed \<open>assert\<close>
  and the use of a null pointer are undefined behaviour, which no handler catches.\<close>

datatype stop = Thrown cpp_error | Endless

fun catches :: "stop \<Rightarrow> bool" where
  "catches (Thrown e) = caught e"
| "catches Endless = False"

type_synonym 'x res = "stop + 'x"

definition thrown :: "cpp_error + 'x \<Rightarrow> 'x res" where
  "thrown r = (case r of Inl e \<Rightarrow> Inl (Thrown e) | Inr x \<Rightarrow> Inr x)"

lemma thrown_simps [simp]: "thrown (Inl e) = Inl (Thrown e)" "thrown (Inr x) = Inr x"
  by (simp_all add: thrown_def)

text \<open>\<open>catch (const std::logic_error &)\<close>: \<open>std::invalid_argument\<close> and
  \<open>std::out_of_range\<close> derive from \<open>std::logic_error\<close>, and so does the library's own
  \<open>ParseException\<close> (\<open>deserializers.hh\<close>).\<close>

fun is_logic_error :: "cpp_error \<Rightarrow> bool" where
  "is_logic_error LogicError = True"
| "is_logic_error InvalidArgument = True"
| "is_logic_error OutOfRange = True"
| "is_logic_error ParseException = True"
| "is_logic_error _ = False"

section \<open>Searching strings\<close>

fun find_first :: "('a \<Rightarrow> bool) \<Rightarrow> 'a list \<Rightarrow> nat option" where
  "find_first P [] = None"
| "find_first P (x # xs) = (if P x then Some 0 else map_option Suc (find_first P xs))"

definition find_last :: "('a \<Rightarrow> bool) \<Rightarrow> 'a list \<Rightarrow> nat option" where
  "find_last P xs = map_option (\<lambda>i. length xs - Suc i) (find_first P (rev xs))"

text \<open>\<open>s.substr(pos)\<close> throws \<open>std::out_of_range\<close> when \<open>pos > s.size()\<close>.\<close>

definition substr_from :: "nat \<Rightarrow> string \<Rightarrow> cpp_error + string" where
  "substr_from pos s = (if pos \<le> length s then Inr (drop pos s) else Inl OutOfRange)"

lemma find_first_None [str_simps]: "find_first P xs = None \<longleftrightarrow> (\<forall>x \<in> set xs. \<not> P x)"
  by (induction xs) auto

lemma find_first_SomeD:
  "find_first P xs = Some i \<Longrightarrow> i < length xs \<and> P (xs ! i) \<and> (\<forall>x \<in> set (take i xs). \<not> P x)"
proof (induction xs arbitrary: i)
  case Nil
  then show ?case by simp
next
  case (Cons x xs)
  show ?case
  proof (cases "P x")
    case True
    with Cons.prems show ?thesis by auto
  next
    case False
    with Cons.prems obtain j where "find_first P xs = Some j" "i = Suc j" by auto
    with Cons.IH [of j] False show ?thesis by auto
  qed
qed

lemma find_first_append_if:
  "find_first P (xs @ ys) =
     (case find_first P xs of Some i \<Rightarrow> Some i
      | None \<Rightarrow> map_option (\<lambda>i. length xs + i) (find_first P ys))"
proof (induction xs)
  case Nil
  show ?case by (cases "find_first P ys") simp_all
next
  case (Cons x xs)
  then show ?case by (cases "find_first P ys") (auto split: option.splits)
qed

lemma find_first_hit: "\<forall>x \<in> set xs. \<not> P x \<Longrightarrow> P y \<Longrightarrow> find_first P (xs @ y # ys) = Some (length xs)"
  by (simp add: find_first_append_if find_first_None [THEN iffD2])

lemma find_last_None [str_simps]: "find_last P xs = None \<longleftrightarrow> (\<forall>x \<in> set xs. \<not> P x)"
  by (simp add: find_last_def find_first_None)

lemma find_last_hit: "P y \<Longrightarrow> \<forall>x \<in> set ys. \<not> P x \<Longrightarrow> find_last P (xs @ y # ys) = Some (length xs)"
  using find_first_hit [of "rev ys" P y "rev xs"] by (simp add: find_last_def)

lemma split_at_last:
  assumes "find_last P xs = Some i"
  obtains ys y zs where "xs = ys @ y # zs" "P y" "\<forall>z \<in> set zs. \<not> P z" "i = length ys"
proof -
  have "\<exists>x \<in> set xs. P x"
    using assms find_last_None [of P xs] by force
  from split_list_last_prop [OF this] obtain ys y zs where
    *: "xs = ys @ y # zs" "P y" "\<forall>z \<in> set zs. \<not> P z" by blast
  then have "i = length ys"
    using assms find_last_hit [of P y zs ys] by simp
  with * that show ?thesis by blast
qed

lemma split_at_first:
  assumes "find_first P xs = Some i"
  obtains ys y zs where "xs = ys @ y # zs" "P y" "\<forall>z \<in> set ys. \<not> P z" "i = length ys"
proof -
  from find_first_SomeD [OF assms] have "i < length xs" "P (xs ! i)" "\<forall>x \<in> set (take i xs). \<not> P x"
    by auto
  then show ?thesis
    by (intro that [of "take i xs" "xs ! i" "drop (Suc i) xs"]) (auto simp: id_take_nth_drop)
qed

lemma takeWhile_none: "d \<notin> set xs \<Longrightarrow> takeWhile (\<lambda>c. c \<noteq> d) xs = xs"
  by (auto simp: takeWhile_eq_all_conv)

lemma dropWhile_none: "d \<notin> set xs \<Longrightarrow> dropWhile (\<lambda>c. c \<noteq> d) xs = []"
  by (auto simp: dropWhile_eq_Nil_conv)

text \<open>\<open>c_str()\<close>, read up to its first NUL.\<close>

definition c_str :: "string \<Rightarrow> string" where
  "c_str s = takeWhile (\<lambda>c. c \<noteq> CHR 0x00) s"

lemma c_str_id: "CHR 0x00 \<notin> set s \<Longrightarrow> c_str s = s"
  unfolding c_str_def by (rule takeWhile_none)

section \<open>Parsing numbers\<close>

text \<open>The characters of \<open>isspace\<close> in the C locale: space and 0x09 to 0x0D.\<close>

definition is_space :: "char \<Rightarrow> bool" where
  "is_space c \<longleftrightarrow> c = CHR '' '' \<or> (9 \<le> (of_char c :: nat) \<and> (of_char c :: nat) \<le> 13)"

definition is_digit :: "char \<Rightarrow> bool" where
  "is_digit c \<longleftrightarrow> 48 \<le> (of_char c :: nat) \<and> (of_char c :: nat) \<le> 57"

definition digit_val :: "char \<Rightarrow> int" where
  "digit_val c = int (of_char c) - 48"

definition digits_val :: "string \<Rightarrow> int" where
  "digits_val ds = foldl (\<lambda>n c. 10 * n + digit_val c) 0 ds"

text \<open>\<open>strtol(s, \<dots>, 10)\<close>: leading white space, one optional sign, the longest run of
  digits; \<open>None\<close> when there is no digit.  What follows the digits is ignored.\<close>

definition strtol10 :: "string \<Rightarrow> int option" where
  "strtol10 s =
     (let t = dropWhile is_space s;
          neg = (case t of c # _ \<Rightarrow> c = CHR ''-'' | [] \<Rightarrow> False);
          u = (case t of c # r \<Rightarrow> if c = CHR ''-'' \<or> c = CHR ''+'' then r else t | [] \<Rightarrow> []);
          ds = takeWhile is_digit u
      in if ds = [] then None else Some (if neg then - digits_val ds else digits_val ds))"

definition INT_MIN :: int where "INT_MIN = - 2147483648"
definition INT_MAX :: int where "INT_MAX = 2147483647"
definition LONG_MIN :: int where "LONG_MIN = - 9223372036854775808"
definition LONG_MAX :: int where "LONG_MAX = 9223372036854775807"

definition std_stoi :: "string \<Rightarrow> cpp_error + int" where
  "std_stoi s = (case strtol10 s of
      None \<Rightarrow> Inl InvalidArgument
    | Some v \<Rightarrow> if INT_MIN \<le> v \<and> v \<le> INT_MAX then Inr v else Inl OutOfRange)"

definition std_stol :: "string \<Rightarrow> cpp_error + int" where
  "std_stol s = (case strtol10 s of
      None \<Rightarrow> Inl InvalidArgument
    | Some v \<Rightarrow> if LONG_MIN \<le> v \<and> v \<le> LONG_MAX then Inr v else Inl OutOfRange)"

lemma std_stoi_range: "std_stoi s = Inr v \<Longrightarrow> INT_MIN \<le> v \<and> v \<le> INT_MAX"
  by (auto simp: std_stoi_def split: option.splits if_splits)

lemma std_stoi_error: "std_stoi s = Inl e \<Longrightarrow> is_logic_error e"
  by (auto simp: std_stoi_def split: option.splits if_splits)

lemma std_stol_range: "std_stol s = Inr v \<Longrightarrow> LONG_MIN \<le> v \<and> v \<le> LONG_MAX"
  by (auto simp: std_stol_def split: option.splits if_splits)

lemma std_stol_error: "std_stol s = Inl e \<Longrightarrow> is_logic_error e"
  by (auto simp: std_stol_def split: option.splits if_splits)

section \<open>Printing numbers\<close>

text \<open>\<open>std::to_string\<close> and \<open>%d\<close> of a non-negative number.\<close>

fun show_nat :: "nat \<Rightarrow> string" where
  "show_nat n = (if n < 10 then [char_of (48 + n)] else show_nat (n div 10) @ [char_of (48 + n mod 10)])"

declare show_nat.simps [simp del]

definition show_int :: "int \<Rightarrow> string" where
  "show_int i = (if i < 0 then CHR ''-'' # show_nat (nat (- i)) else show_nat (nat i))"

lemma digit_char:
  assumes "d < 10"
  shows "is_digit (char_of (48 + d))" and "digit_val (char_of (48 + d)) = int d"
  using assms by (simp_all add: is_digit_def digit_val_def)

lemma digits_val_snoc: "digits_val (ds @ [c]) = 10 * digits_val ds + digit_val c"
  by (simp add: digits_val_def)

lemma show_nat_digits: "\<forall>c \<in> set (show_nat n). is_digit c"
proof (induction n rule: show_nat.induct)
  case (1 n)
  then show ?case
    by (cases "n < 10") (auto simp: show_nat.simps [of n] intro: digit_char)
qed

lemma show_nat_val: "digits_val (show_nat n) = int n"
proof (induction n rule: show_nat.induct)
  case (1 n)
  show ?case
  proof (cases "n < 10")
    case True
    then show ?thesis
      by (simp add: show_nat.simps [of n] digits_val_def digit_char)
  next
    case False
    have "10 * int (n div 10) + int (n mod 10) = int n"
      by (simp add: zdiv_int zmod_int)
    with 1 False show ?thesis
      by (simp add: show_nat.simps [of n] digits_val_snoc digit_char)
  qed
qed

lemma show_nat_neq_Nil: "show_nat n \<noteq> []"
  by (cases "n < 10") (simp_all add: show_nat.simps [of n])

lemma digit_not_special:
  assumes "is_digit c"
  shows "\<not> is_space c" and "c \<noteq> CHR ''-''" and "c \<noteq> CHR ''+''"
  using assms by (auto simp: is_digit_def is_space_def)

lemma takeWhile_show_nat: "takeWhile is_digit (show_nat n) = show_nat n"
  using show_nat_digits by (simp add: takeWhile_eq_all_conv)

lemma strtol10_show_int: "strtol10 (show_int i) = Some i"
proof (cases "i < 0")
  case True
  have "\<not> is_space (CHR ''-'')" by (simp add: is_space_def)
  with True show ?thesis
    by (simp add: strtol10_def show_int_def show_nat_neq_Nil show_nat_val takeWhile_show_nat)
next
  case False
  obtain c r where cr: "show_nat (nat i) = c # r"
    using show_nat_neq_Nil [of "nat i"] by (cases "show_nat (nat i)") auto
  have "is_digit c" using show_nat_digits [of "nat i"] cr by simp
  note c = digit_not_special [OF this]
  have tw: "takeWhile is_digit r = r"
    using takeWhile_show_nat [of "nat i"] cr by (metis list.inject takeWhile.simps(2) list.distinct(1))
  have "digits_val (c # r) = i"
    using False show_nat_val [of "nat i"] cr by simp
  then show ?thesis
    using False c \<open>is_digit c\<close> by (simp add: strtol10_def show_int_def cr tw)
qed

lemma std_stoi_show_int: "INT_MIN \<le> i \<Longrightarrow> i \<le> INT_MAX \<Longrightarrow> std_stoi (show_int i) = Inr i"
  by (simp add: std_stoi_def strtol10_show_int)

lemma std_stol_show_int: "LONG_MIN \<le> i \<Longrightarrow> i \<le> LONG_MAX \<Longrightarrow> std_stol (show_int i) = Inr i"
  by (simp add: std_stol_def strtol10_show_int)

section \<open>Arithmetic in int\<close>

text \<open>C++ evaluates a chain of \<open>+\<close> and \<open>-\<close> from the left; each result is an \<open>int\<close>, and the behaviour
  is undefined when it does not fit.\<close>

definition checked_int :: "int \<Rightarrow> cpp_error + int" where
  "checked_int v = (if INT_MIN \<le> v \<and> v \<le> INT_MAX then Inr v else Inl UndefinedBehaviour)"

fun int_sum :: "int \<Rightarrow> int list \<Rightarrow> cpp_error + int" where
  "int_sum acc [] = Inr acc"
| "int_sum acc (x # xs) = (case checked_int (acc + x) of Inl e \<Rightarrow> Inl e | Inr acc1 \<Rightarrow> int_sum acc1 xs)"

lemma checked_int_fits [simp]: "INT_MIN \<le> v \<Longrightarrow> v \<le> INT_MAX \<Longrightarrow> checked_int v = Inr v"
  by (simp add: checked_int_def)

lemma int_sum_fits: "\<bar>acc\<bar> + sum_list (map abs xs) \<le> INT_MAX \<Longrightarrow> int_sum acc xs = Inr (acc + sum_list xs)"
proof (induction xs arbitrary: acc)
  case Nil
  then show ?case by simp
next
  case (Cons x xs)
  have "0 \<le> sum_list (map abs xs)" by (rule sum_list_nonneg) auto
  moreover from Cons.prems have le: "\<bar>acc + x\<bar> + sum_list (map abs xs) \<le> INT_MAX" by simp
  ultimately have "INT_MIN \<le> acc + x" "acc + x \<le> INT_MAX" by (simp_all add: INT_MIN_def INT_MAX_def abs_le_iff)
  with Cons.IH [OF le] show ?case by simp
qed

end
