(* ===== verification/Timeutils.thy ===== *)
theory Timeutils
  imports Prelude "HOL-Library.Word"
begin

text \<open>
  The calendar arithmetic of \<open>components/stdutils/src/timeutils.cc\<close>: leap years by bit
  masks, month lengths, the day of the week and \<open>make_time\<close>.  C's \<open>/\<close> and \<open>%\<close> truncate
  towards zero (\<open>sdiv\<close>, \<open>smod\<close>), \<open>&\<close> on an \<open>int\<close> is \<open>AND\<close>.  The sums and products of \<open>int\<close>s
  are checked: a result that does not fit is undefined behaviour (the one exception is
  \<open>month - 1\<close> in \<open>zero_based_month\<close>, which fits for every \<open>int\<close> but the least).  What
  \<open>make_time\<close> adds up is a \<open>time_t\<close> of 64 bits, which has room for the days of every \<open>int\<close> year.
  The abstract calendar the code is proved against is the successor function \<open>next_day\<close> on dates.
\<close>

unbundle bit_operations_syntax

section \<open>Operations\<close>

definition month_days :: "int list" where
  "month_days = [31, 28, 31, 30, 31, 30, 31, 31, 30, 31, 30, 31]"

definition zero_based_month :: "int \<Rightarrow> int" where
  "zero_based_month month =
     (let result = (month - 1) smod 12 in if result < 0 then result + 12 else result)"

definition is_leap_year :: "int \<Rightarrow> bool" where
  "is_leap_year year \<longleftrightarrow> year AND 3 = 0 \<and> (year AND 15 = 0 \<or> year smod 25 \<noteq> 0)"

definition days_per_month :: "int \<Rightarrow> int \<Rightarrow> int" where
  "days_per_month month year =
     (let m = zero_based_month month
      in month_days ! nat m + of_bool (1 = m \<and> is_leap_year year))"

definition week_day_shift :: "int list" where
  "week_day_shift = [0, 3, 2, 5, 0, 3, 5, 1, 4, 6, 2, 4]"

definition week_day :: "int \<Rightarrow> int \<Rightarrow> int \<Rightarrow> cpp_error + int" where
  "week_day day month year =
     (let m = zero_based_month month
      in case checked_int (year - of_bool (m < 2)) of
           Inl e \<Rightarrow> Inl e
         | Inr y \<Rightarrow> map_sum id (\<lambda>s. s smod 7)
             (int_sum y [y sdiv 4, - (y sdiv 100), y sdiv 400, week_day_shift ! nat m, day]))"

text \<open>\<open>hour * hour_seconds + minute * minute_seconds + second\<close>.\<close>

definition day_seconds :: "int \<Rightarrow> int \<Rightarrow> int \<Rightarrow> cpp_error + int" where
  "day_seconds hour minute second =
     (case checked_int (hour * 3600) of
        Inl e \<Rightarrow> Inl e
      | Inr h \<Rightarrow> (case checked_int (minute * 60) of Inl e \<Rightarrow> Inl e | Inr mi \<Rightarrow> int_sum h [mi, second]))"

definition make_time :: "int \<Rightarrow> int \<Rightarrow> int \<Rightarrow> int \<Rightarrow> int \<Rightarrow> int \<Rightarrow> cpp_error + int" where
  "make_time year month day hour minute second =
     (let m = zero_based_month month
      in case checked_int (day - 1) of
           Inl e \<Rightarrow> Inl e
         | Inr r0 \<Rightarrow>
             (let r1 = foldl (\<lambda>r y. r + (if is_leap_year y then 366 else 365)) r0 [1970..year - 1];
                  r2 = foldl (\<lambda>r k. r + (month_days ! nat k + of_bool (1 = k \<and> is_leap_year year))) r1
                         [0..m - 1]
              in map_sum id (\<lambda>s. r2 * 86400 + s) (day_seconds hour minute second)))"

text \<open>\<open>get_monotonic_ns\<close>, from the seconds and nanoseconds of the clock, in 64 bits; the conversions from and
  to a text, with \<open>strptime\<close> (what it does to the zeroed \<open>tm\<close>), \<open>mktime\<close> and the text \<open>strftime\<close> makes
  of the local time as arguments.  What \<open>strptime\<close> returns is not looked at; \<open>strftime\<close> has room for 25
  characters and leaves the buffer undefined (\<open>None\<close>) when they are not enough.\<close>

definition get_monotonic_ns :: "int \<Rightarrow> int \<Rightarrow> 64 word" where
  "get_monotonic_ns tv_sec tv_nsec = word_of_int tv_sec * 1000000000 + word_of_int tv_nsec"

definition time_format :: string where "time_format = ''%FT%T%z''"

definition string_to_timestamp :: "(string \<Rightarrow> string \<Rightarrow> 'tm) \<Rightarrow> ('tm \<Rightarrow> int) \<Rightarrow> string \<Rightarrow> int" where
  "string_to_timestamp strptime mktime str = mktime (strptime (c_str str) time_format)"

definition timestamp_to_string :: "(string \<Rightarrow> int \<Rightarrow> string) \<Rightarrow> int \<Rightarrow> string option" where
  "timestamp_to_string strftime_local time =
     (let text = strftime_local time_format time in if length text < 26 then Some text else None)"

lemma get_monotonic_ns_exact:
  assumes "0 \<le> sec" "sec < 18446744073" "0 \<le> nsec" "nsec < 1000000000"
  shows "uint (get_monotonic_ns sec nsec) = sec * 1000000000 + nsec"
proof -
  have "get_monotonic_ns sec nsec = word_of_int (sec * 1000000000 + nsec)" by (simp add: get_monotonic_ns_def wi_hom_syms)
  then have "uint (get_monotonic_ns sec nsec) = (sec * 1000000000 + nsec) mod 2 ^ 64" by (simp only: uint_word_of_int) simp
  also have "\<dots> = sec * 1000000000 + nsec" by (rule mod_pos_pos_trivial) (use assms in simp_all)
  finally show ?thesis .
qed

text \<open>The offset of the text does not count: \<open>mktime\<close> takes the fields for local time (documented), so
  two texts that differ in what \<open>strptime\<close> puts elsewhere give one time.\<close>

lemma offset_ignored:
  assumes "\<And>t u. fields t = fields u \<Longrightarrow> mktime t = mktime u"
    and "fields (strptime (c_str a) time_format) = fields (strptime (c_str b) time_format)"
  shows "string_to_timestamp strptime mktime a = string_to_timestamp strptime mktime b"
  unfolding string_to_timestamp_def by (rule assms(1) [OF assms(2)])

section \<open>The calendar\<close>

text \<open>The Gregorian rule.\<close>

definition gregorian_leap :: "int \<Rightarrow> bool" where
  "gregorian_leap y \<longleftrightarrow> 4 dvd y \<and> (100 dvd y \<longrightarrow> 400 dvd y)"

lemma smod_eq_0_iff: "(a :: int) smod b = 0 \<longleftrightarrow> b dvd a"
  by (simp add: smod_int_alt_def mod_eq_0_iff_dvd sgn_if)

lemma is_leap_year_gregorian: "is_leap_year y \<longleftrightarrow> gregorian_leap y"
proof -
  have "y AND 3 = y mod 4" "y AND 15 = y mod 16"
    using take_bit_eq_mask [of 2 y] take_bit_eq_mask [of 4 y]
    by (simp_all add: take_bit_eq_mod mask_eq_exp_minus_1)
  then have "is_leap_year y \<longleftrightarrow> 4 dvd y \<and> (16 dvd y \<or> \<not> 25 dvd y)"
    by (simp add: is_leap_year_def smod_eq_0_iff mod_eq_0_iff_dvd)
  moreover have "coprime (4 :: int) 25" "coprime (16 :: int) 25" unfolding coprime_iff_gcd_eq_1 by code_simp+
  then have "4 dvd y \<Longrightarrow> 25 dvd y \<Longrightarrow> 100 dvd y" "16 dvd y \<Longrightarrow> 25 dvd y \<Longrightarrow> 400 dvd y"
    using divides_mult [of 4 y 25] divides_mult [of 16 y 25] by auto
  moreover have "100 dvd y \<Longrightarrow> 25 dvd y" by (rule dvd_trans [of 25 100]) simp_all
  moreover have "400 dvd y \<Longrightarrow> 16 dvd y" by (rule dvd_trans [of 16 400]) simp_all
  ultimately show ?thesis by (auto simp: gregorian_leap_def)
qed

lemma zero_based_month_mod: "zero_based_month month = (month - 1) mod 12"
proof (cases "1 \<le> month")
  case True
  moreover have "0 \<le> (month - 1) mod 12" by simp
  ultimately show ?thesis
    by (auto simp: zero_based_month_def smod_int_alt_def sgn_if Let_def)
next
  case False
  define k where "k = (1 - month) mod 12"
  have k: "0 \<le> k" "(month - 1) mod 12 = (if k = 0 then 0 else 12 - k)"
    using zmod_zminus1_eq_if [of "1 - month" 12] by (simp_all add: k_def)
  have "(month - 1) smod 12 = - k"
    using False by (simp add: smod_int_alt_def sgn_if k_def)
  with k show ?thesis by (auto simp: zero_based_month_def Let_def)
qed

lemma zero_based_month_valid: "1 \<le> m \<Longrightarrow> m \<le> 12 \<Longrightarrow> zero_based_month m = m - 1"
  by (simp add: zero_based_month_mod)

text \<open>A date with a month in 1 to 12 and a day of that month.\<close>

definition valid_date :: "int \<Rightarrow> int \<Rightarrow> int \<Rightarrow> bool" where
  "valid_date y m d \<longleftrightarrow> 1 \<le> m \<and> m \<le> 12 \<and> 1 \<le> d \<and> d \<le> days_per_month m y"

definition next_day :: "int \<times> int \<times> int \<Rightarrow> int \<times> int \<times> int" where
  "next_day = (\<lambda>(y, m, d).
     if d < days_per_month m y then (y, m, d + 1)
     else if m < 12 then (y, m + 1, 1)
     else (y + 1, 1, 1))"

lemma month_cases:
  assumes "1 \<le> m" and "m \<le> (12::int)"
  obtains "m = 1" | "m = 2" | "m = 3" | "m = 4" | "m = 5" | "m = 6" | "m = 7" | "m = 8" | "m = 9"
    | "m = 10" | "m = 11" | "m = 12"
proof -
  have "m = 1 \<or> m = 2 \<or> m = 3 \<or> m = 4 \<or> m = 5 \<or> m = 6 \<or> m = 7 \<or> m = 8 \<or> m = 9
    \<or> m = 10 \<or> m = 11 \<or> m = 12"
    using assms by presburger
  then show ?thesis using that by blast
qed

lemma days_per_month_valid:
  assumes "1 \<le> m" and "m \<le> 12"
  shows "days_per_month m y =
    (if m = 2 then (if is_leap_year y then 29 else 28)
     else if m = 4 \<or> m = 6 \<or> m = 9 \<or> m = 11 then 30 else 31)"
  using assms by (cases rule: month_cases)
    (simp_all add: days_per_month_def zero_based_month_valid month_days_def)

lemma days_per_month_bounds: "28 \<le> days_per_month m y \<and> days_per_month m y \<le> 31"
proof -
  have "0 \<le> (m - 1) mod 12" "(m - 1) mod 12 < 12" by simp_all
  then have "(m - 1) mod 12 \<in> {0..11}" by simp
  also have "{0..11::int} = set [0..11]" by simp
  also have "[0..11::int] = [0,1,2,3,4,5,6,7,8,9,10,11]" by (simp add: upto_rec1)
  finally show ?thesis
    by (auto simp: days_per_month_def zero_based_month_mod month_days_def Let_def)
qed

section \<open>make\_time counts the days of the calendar\<close>

definition leaps_before :: "int \<Rightarrow> int" where
  "leaps_before y = (y - 1) div 4 - (y - 1) div 100 + (y - 1) div 400"

lemma div_pred:
  assumes "0 < (k :: int)"
  shows "y div k = (y - 1) div k + (if k dvd y then 1 else 0)"
proof (cases "k dvd y")
  case True
  then obtain q where "y = k * q" by (elim dvdE)
  moreover from this have "(y - 1) div k = q - 1"
    using assms by (intro int_div_pos_eq [where r = "k - 1"]) (auto simp: algebra_simps)
  ultimately show ?thesis using assms by simp
next
  case False
  then have "y mod k \<noteq> 0" by (simp add: mod_eq_0_iff_dvd)
  then have "1 \<le> y mod k" "y mod k < k"
    using pos_mod_sign [OF assms, of y] pos_mod_bound [OF assms, of y] by linarith+
  then have "(y - 1) div k = y div k"
    using mult_div_mod_eq [of k y]
    by (intro int_div_pos_eq [where r = "y mod k - 1"]) auto
  with False show ?thesis by simp
qed

lemma leaps_before_Suc: "leaps_before (y + 1) = leaps_before y + of_bool (gregorian_leap y)"
proof -
  have "y div 4 = (y - 1) div 4 + (if 4 dvd y then 1 else 0)"
    "y div 100 = (y - 1) div 100 + (if 100 dvd y then 1 else 0)"
    "y div 400 = (y - 1) div 400 + (if 400 dvd y then 1 else 0)"
    by (rule div_pred, simp)+
  moreover have "400 dvd y \<Longrightarrow> 100 dvd y" "100 dvd y \<Longrightarrow> 4 dvd y"
    by (auto elim!: dvd_trans [rotated])
  ultimately show ?thesis
    unfolding leaps_before_def gregorian_leap_def
    by (cases "4 dvd y"; cases "100 dvd y"; cases "400 dvd y") (simp_all only: simp_thms if_True if_False of_bool_eq add_diff_cancel)
qed

lemmas leaps_before_Suc' = leaps_before_Suc [unfolded add.commute [of _ 1]]

definition days_before_year :: "int \<Rightarrow> int" where
  "days_before_year y = 365 * (y - 1970) + leaps_before y - leaps_before 1970"

definition days_before_month :: "int \<Rightarrow> int \<Rightarrow> int" where
  "days_before_month y m =
     [0, 31, 59, 90, 120, 151, 181, 212, 243, 273, 304, 334] ! nat (m - 1)
       + of_bool (2 < m \<and> is_leap_year y)"

lemma year_loop:
  assumes "1970 \<le> year"
  shows "foldl (\<lambda>r y. r + (if is_leap_year y then 366 else 365)) r0 [1970..year - 1]
    = r0 + days_before_year year"
  using assms
proof (induction year rule: int_ge_induct)
  case base
  show ?case by (simp add: days_before_year_def)
next
  case (step y)
  then have "[1970..y + 1 - 1] = [1970..y - 1] @ [y]" by (simp add: upto_rec2)
  with step.IH show ?case
    by (simp add: days_before_year_def leaps_before_Suc' is_leap_year_gregorian algebra_simps)
qed

lemma month_loop:
  assumes "1 \<le> m" and "m \<le> 12"
  shows "foldl (\<lambda>r k. r + (month_days ! nat k + of_bool (k = 1 \<and> is_leap_year y))) r1 [0..m - 2]
    = r1 + days_before_month y m"
  using assms
  by (cases rule: month_cases) (simp_all add: days_before_month_def month_days_def upto_rec1)

lemma make_time_closed:
  assumes "1970 \<le> y" and "1 \<le> m" and "m \<le> 12"
    and "1 \<le> d" and "d \<le> INT_MAX"
  shows "make_time y m d h mi s =
    map_sum id (\<lambda>s. (days_before_year y + days_before_month y m + d - 1) * 86400 + s) (day_seconds h mi s)"
proof -
  have "checked_int (d - 1) = Inr (d - 1)" using assms(4,5) by (simp add: INT_MIN_def)
  then show ?thesis using assms
    by (cases "day_seconds h mi s")
      (simp_all add: make_time_def zero_based_month_valid year_loop month_loop Let_def algebra_simps)
qed

lemma day_seconds_value:
  assumes "0 \<le> h" "h < 24" "0 \<le> mi" "mi < 60" "0 \<le> s" "s \<le> 60"
  shows "day_seconds h mi s = Inr (h * 3600 + mi * 60 + s)"
  using assms by (simp add: day_seconds_def INT_MIN_def INT_MAX_def)

lemma days_before_month_Suc:
  assumes "1 \<le> m" and "m < 12"
  shows "days_before_month y (m + 1) = days_before_month y m + days_per_month m y"
  using assms(1) less_imp_le [OF assms(2)]
  by (cases rule: month_cases) (use assms in \<open>simp_all add: days_before_month_def days_per_month_valid\<close>)

lemma days_before_year_Suc:
  "days_before_year (y + 1) = days_before_year y + days_before_month y 12 + days_per_month 12 y"
  by (simp add: days_before_year_def leaps_before_Suc days_before_month_def days_per_month_valid
      is_leap_year_gregorian)

text \<open>The day number of a date, and its step from a date to the next.\<close>

definition day_number :: "int \<times> int \<times> int \<Rightarrow> int" where
  "day_number = (\<lambda>(y, m, d). days_before_year y + days_before_month y m + d - 1)"

lemma day_number_next_day:
  assumes "valid_date y m d"
  shows "day_number (next_day (y, m, d)) = day_number (y, m, d) + 1"
proof -
  have m: "1 \<le> m" "m \<le> 12" and d: "d \<le> days_per_month m y"
    using assms by (auto simp: valid_date_def)
  consider "d < days_per_month m y" | "d = days_per_month m y" "m < 12"
    | "d = days_per_month m y" "m = 12" using m d by linarith
  then show ?thesis
  proof cases
    case 1
    then show ?thesis by (simp add: day_number_def next_day_def)
  next
    case 2
    with m show ?thesis
      by (simp add: day_number_def next_day_def days_before_month_Suc)
  next
    case 3
    then show ?thesis
      by (simp add: day_number_def next_day_def days_before_year_Suc days_before_month_def)
  qed
qed

lemma valid_date_next_day:
  "valid_date y m d \<Longrightarrow> next_day (y, m, d) = (y', m', d') \<Longrightarrow> valid_date y' m' d' \<and> y \<le> y'"
  using days_per_month_bounds [of "m + 1" y] days_per_month_bounds [of 1 "y + 1"]
  by (auto simp: valid_date_def next_day_def split: if_splits)

section \<open>The day of the week\<close>

lemma sdiv_nonneg: "0 \<le> (y :: int) \<Longrightarrow> 0 < k \<Longrightarrow> y sdiv k = y div k"
  by (simp add: signed_divide_int_def sgn_if)

lemma sdiv_bound: "0 < k \<Longrightarrow> \<bar>(y :: int) sdiv k\<bar> \<le> \<bar>y\<bar> div k"
  by (simp add: signed_divide_int_def abs_mult sgn_if pos_imp_zdiv_nonneg_iff)

lemma week_day_shift_bounds: "0 \<le> week_day_shift ! nat (zero_based_month m) \<and> week_day_shift ! nat (zero_based_month m) \<le> 6"
proof -
  have "0 \<le> (m - 1) mod 12" "(m - 1) mod 12 < 12" by simp_all
  then have "(m - 1) mod 12 \<in> {0..11}" by simp
  also have "{0..11::int} = set [0..11]" by simp
  also have "[0..11::int] = [0,1,2,3,4,5,6,7,8,9,10,11]" by (simp add: upto_rec1)
  finally show ?thesis by (auto simp: zero_based_month_mod week_day_shift_def)
qed

text \<open>Nothing overflows for a day of a month in any year up to a thousand million.\<close>

lemma week_day_fits:
  assumes "\<bar>y\<bar> \<le> 1000000000" and "0 \<le> d" "d \<le> 31"
  shows "\<exists>k. week_day d m y = Inr k"
proof -
  define y' where "y' = y - of_bool (zero_based_month m < 2)"
  have "\<bar>y'\<bar> \<le> 1000000001" using assms(1) by (simp add: y'_def of_bool_def abs_le_iff split: if_splits)
  note quotient = order_trans [OF sdiv_bound zdiv_mono1 [OF this]]
  have "\<bar>y' sdiv 4\<bar> \<le> 250000000" "\<bar>y' sdiv 100\<bar> \<le> 10000000" "\<bar>y' sdiv 400\<bar> \<le> 2500002"
    using quotient [of 4] quotient [of 100] quotient [of 400] by simp_all
  moreover have "checked_int y' = Inr y'" using \<open>\<bar>y'\<bar> \<le> 1000000001\<close> by (simp add: checked_int_def INT_MIN_def INT_MAX_def abs_le_iff)
  ultimately show ?thesis
    using \<open>\<bar>y'\<bar> \<le> 1000000001\<close> week_day_shift_bounds [of m] assms(2,3)
      int_sum_fits [of y' "[y' sdiv 4, - (y' sdiv 100), y' sdiv 400, week_day_shift ! nat (zero_based_month m), d]"]
    by (simp add: week_day_def Let_def INT_MAX_def flip: y'_def)
qed

text \<open>From the year 1 on every sum after the first is smaller than it or has room, so that only
  \<open>y + y / 4\<close> can overflow.\<close>

lemma week_day_sum:
  fixes y m d :: int
  defines "y' \<equiv> y - of_bool (m < 3)"
  assumes "1 \<le> y" and "1 \<le> m" and "m \<le> 12" and "1 \<le> d" "d \<le> 31"
  shows "week_day d m y =
    (if y' + y' div 4 \<le> INT_MAX
     then Inr ((y' + y' div 4 - y' div 100 + y' div 400 + week_day_shift ! nat (m - 1) + d) mod 7)
     else Inl UndefinedBehaviour)"
proof -
  have y': "0 \<le> y'" using assms by (simp add: y'_def)
  then have sdiv: "y' sdiv 4 = y' div 4" "y' sdiv 100 = y' div 100" "y' sdiv 400 = y' div 400"
    by (simp_all add: sdiv_nonneg)
  have m: "zero_based_month m = m - 1" "m - 1 < 2 \<longleftrightarrow> m < 3" using assms by (simp_all add: zero_based_month_valid)
  have shift: "0 \<le> week_day_shift ! nat (m - 1)" "week_day_shift ! nat (m - 1) \<le> 6"
    using week_day_shift_bounds [of m] m(1) by simp_all
  have le: "0 \<le> y' div 400" "y' div 400 \<le> y' div 100" "y' div 100 \<le> y' div 4"
    using y' by (simp_all add: pos_imp_zdiv_nonneg_iff zdiv_mono2)
  have room: "y' + y' div 4 - y' div 100 + y' div 400 + 37 \<le> INT_MAX" if "y' + y' div 4 \<le> INT_MAX"
  proof (cases "y' \<le> 10000")
    case True
    then show ?thesis using y' by (simp add: INT_MAX_def)
  next
    case False
    then have "y' div 400 + 37 \<le> y' div 100" by linarith
    with that show ?thesis by linarith
  qed
  show ?thesis
  proof (cases "y' \<le> INT_MAX")
    case True
    have week: "week_day d m y = map_sum id (\<lambda>s. s smod 7)
        (int_sum y' [y' div 4, - (y' div 100), y' div 400, week_day_shift ! nat (m - 1), d])"
      using True y' by (simp add: week_day_def m Let_def INT_MIN_def sdiv flip: y'_def)
    show ?thesis
    proof (cases "y' + y' div 4 \<le> INT_MAX")
      case True
      have low: "INT_MIN \<le> 0" by (simp add: INT_MIN_def)
      have "int_sum y' [y' div 4, - (y' div 100), y' div 400, week_day_shift ! nat (m - 1), d] =
          Inr (y' + y' div 4 - y' div 100 + y' div 400 + week_day_shift ! nat (m - 1) + d)"
        using True room [OF True] shift y' le low assms(5,6) by simp
      moreover have "0 \<le> y' + y' div 4 - y' div 100 + y' div 400 + week_day_shift ! nat (m - 1) + d"
        using shift y' le assms(5) by linarith
      ultimately show ?thesis using True by (simp add: week smod_int_alt_def sgn_if)
    next
      case False
      then show ?thesis by (simp add: week checked_int_def)
    qed
  next
    case False
    then have "\<not> y' + y' div 4 \<le> INT_MAX" using y' le by linarith
    with False show ?thesis by (simp add: week_day_def m Let_def checked_int_def flip: y'_def)
  qed
qed

lemma year_sum: "y - of_bool (m < 3) + (y - of_bool (m < 3)) div 4 - (y - of_bool (m < 3)) div 100 + (y - of_bool (m < 3)) div 400 =
    y - of_bool (m < (3 :: int)) + leaps_before y + of_bool (\<not> m < 3 \<and> is_leap_year y)"
proof (cases "m < 3")
  case True
  then show ?thesis by (simp add: leaps_before_def)
next
  case False
  have "leaps_before (y + 1) = y div 4 - y div 100 + y div 400" by (simp add: leaps_before_def)
  then show ?thesis using False by (simp add: leaps_before_Suc is_leap_year_gregorian)
qed

lemma week_day_closed:
  fixes y m d :: int
  defines "y' \<equiv> y - of_bool (m < 3)"
  assumes "1 \<le> y" and m: "1 \<le> m" "m \<le> 12" and "1 \<le> d" "d \<le> 31"
  shows "week_day d m y =
    (if y' + y' div 4 \<le> INT_MAX then Inr ((day_number (y, m, d) + 4) mod 7) else Inl UndefinedBehaviour)"
proof -
  have base: "leaps_before 1970 = 477" by (simp add: leaps_before_def)
  have "7 dvd (y - of_bool (m < 3) + leaps_before y + of_bool (\<not> m < 3 \<and> is_leap_year y)
      + week_day_shift ! nat (m - 1) + d) - (day_number (y, m, d) + 4)"
    using m
    by (cases rule: month_cases;
        simp add: day_number_def days_before_year_def days_before_month_def week_day_shift_def base;
        presburger)
  then show ?thesis
    using assms by (simp add: week_day_sum year_sum mod_eq_dvd_iff)
qed

section \<open>Properties\<close>

text \<open>C28: \<open>make_time\<close> is the day count of the Gregorian calendar: the epoch is second 0; from any
  valid date since 1970 at any time of day, the next date of the calendar is exactly 86400 seconds
  later; the time of day is added as \<open>hour * 3600 + minute * 60 + second\<close>, whose value is defined for
  every time of a clock; the leap years it counts (by bit masks) are the Gregorian ones.\<close>

theorem make_time_calendar:
  assumes "1970 \<le> y" and "valid_date y m d" and "next_day (y, m, d) = (y', m', d')"
  shows "make_time 1970 1 1 0 0 0 = Inr 0
    \<and> make_time y' m' d' h mi s = map_sum id (\<lambda>t. t + 86400) (make_time y m d h mi s)
    \<and> (\<exists>t. make_time y m d 0 0 0 = Inr t \<and> make_time y m d h mi s = map_sum id (\<lambda>u. t + u) (day_seconds h mi s))
    \<and> (0 \<le> h \<and> h < 24 \<and> 0 \<le> mi \<and> mi < 60 \<and> 0 \<le> s \<and> s \<le> 60 \<longrightarrow> day_seconds h mi s = Inr (h * 3600 + mi * 60 + s))
    \<and> (is_leap_year y \<longleftrightarrow> 4 dvd y \<and> (100 dvd y \<longrightarrow> 400 dvd y))"
proof (intro conjI impI)
  have v: "valid_date y' m' d'" "1970 \<le> y'"
    using valid_date_next_day [OF assms(2,3)] assms(1) by auto
  have d: "1 \<le> d" "d \<le> INT_MAX" "1 \<le> d'" "d' \<le> INT_MAX"
    using assms(2) v(1) days_per_month_bounds [of m y] days_per_month_bounds [of m' y'] by (auto simp: valid_date_def INT_MAX_def)
  have "day_number (y', m', d') = day_number (y, m, d) + 1"
    using day_number_next_day [OF assms(2)] assms(3) by simp
  then have "days_before_year y' + days_before_month y' m' + d' - 1 = days_before_year y + days_before_month y m + d - 1 + 1"
    by (simp add: day_number_def)
  then show "make_time y' m' d' h mi s = map_sum id (\<lambda>t. t + 86400) (make_time y m d h mi s)"
    using v assms(1,2) d by (cases "day_seconds h mi s") (simp_all add: make_time_closed valid_date_def)
  show "make_time 1970 1 1 0 0 0 = Inr 0"
    by (simp add: make_time_closed days_before_year_def days_before_month_def INT_MAX_def day_seconds_value)
  show "\<exists>t. make_time y m d 0 0 0 = Inr t \<and> make_time y m d h mi s = map_sum id (\<lambda>u. t + u) (day_seconds h mi s)"
    using assms(1,2) d by (simp add: make_time_closed valid_date_def day_seconds_value)
  show "is_leap_year y \<longleftrightarrow> 4 dvd y \<and> (100 dvd y \<longrightarrow> 400 dvd y)"
    by (simp add: is_leap_year_gregorian gregorian_leap_def)
qed (simp add: day_seconds_value)

lemma make_time_calendar_witness:
  "make_time 2000 2 29 23 59 59 = map_sum id (\<lambda>t. t + 86400) (make_time 2000 2 28 23 59 59)"
proof -
  have "valid_date 2000 2 28" and "next_day (2000, 2, 28) = (2000, 2, 29)" by code_simp+
  from make_time_calendar [OF _ this, of 23 59 59] show ?thesis by simp
qed

text \<open>C39: The day of the week that \<open>week_day\<close> computes from its shift table is the one counted from
  the epoch (a Thursday, 4) by \<open>make_time\<close>, for every valid date since 1970 as long as the sum of
  the year and its quarter is an \<open>int\<close>; past that (about the year 1.7 thousand million) the
  behaviour is undefined.\<close>

theorem week_day_counts_days:
  assumes "1970 \<le> y" and "valid_date y m d"
  shows "\<exists>t. make_time y m d 0 0 0 = Inr t \<and>
    week_day d m y = (if (y - of_bool (m < 3)) + (y - of_bool (m < 3)) div 4 \<le> INT_MAX
      then Inr ((t div 86400 + 4) mod 7) else Inl UndefinedBehaviour)"
  using assms days_per_month_bounds [of m y]
  by (simp add: week_day_closed make_time_closed day_seconds_value valid_date_def day_number_def INT_MAX_def)

lemma week_day_counts_days_witness:
  "(\<exists>t. make_time 2026 11 18 0 0 0 = Inr t \<and> week_day 18 11 2026 = Inr ((t div 86400 + 4) mod 7)) \<and>
   week_day 1 3 2000000000 = Inl UndefinedBehaviour"
proof -
  have "valid_date 2026 11 18" "valid_date 2000000000 3 1" by code_simp+
  from week_day_counts_days [OF _ this(1)] week_day_counts_days [OF _ this(2)] show ?thesis by (simp add: INT_MAX_def)
qed

end
