(* ===== verification/Stdutils.thy ===== *)
theory Stdutils
  imports Prelude
begin

text \<open>
  \<open>components/stdutils/src/stdutils.cc\<close> and \<open>include/common/stdutils/scope_guard.hh\<close>:
  splitting a string at a delimiter, and the guard that runs its handlers when it is destroyed.
\<close>

section \<open>string\_split\<close>

text \<open>The loop \<open>while (getline(ss, item, delim)) elems.push_back(item)\<close>: \<open>getline\<close> reads up to
  the delimiter, which it takes away, or up to the end; it fails when nothing is left.\<close>

function string_split :: "string \<Rightarrow> char \<Rightarrow> string list" where
  "string_split s delim =
     (if s = [] then []
      else takeWhile (\<lambda>c. c \<noteq> delim) s #
        (case dropWhile (\<lambda>c. c \<noteq> delim) s of [] \<Rightarrow> [] | _ # rest \<Rightarrow> string_split rest delim))"
  by pat_completeness auto
termination
proof (relation "measure (\<lambda>(s, _). length s)")
  fix s :: string and delim c rest
  assume "s \<noteq> []" and "dropWhile (\<lambda>c. c \<noteq> delim) s = c # rest"
  then show "((rest, delim), (s, delim)) \<in> measure (\<lambda>(s, _). length s)"
    using length_dropWhile_le [of "\<lambda>c. c \<noteq> delim" s] by simp
qed simp

declare string_split.simps [simp del]

lemma string_split_Nil [simp]: "string_split [] d = []"
  by (simp add: string_split.simps)

lemma string_split_hit:
  "d \<notin> set xs \<Longrightarrow> string_split (xs @ d # ys) d = xs # string_split ys d"
  by (subst string_split.simps) (auto simp: takeWhile_append dropWhile_append)

lemma string_split_single: "d \<notin> set xs \<Longrightarrow> xs \<noteq> [] \<Longrightarrow> string_split xs d = [xs]"
  by (subst string_split.simps) (simp add: takeWhile_none dropWhile_none)

text \<open>Two ways a string can go on: it holds no delimiter, or a first one.\<close>

lemma split_string_cases:
  obtains "d \<notin> set s" | xs ys where "s = xs @ d # ys" "d \<notin> set xs"
  by (metis split_list_first)

lemma string_split_induct [case_names Nil Single Hit]:
  assumes "P []" and "\<And>xs. d \<notin> set xs \<Longrightarrow> xs \<noteq> [] \<Longrightarrow> P xs"
    and "\<And>xs ys. d \<notin> set xs \<Longrightarrow> P ys \<Longrightarrow> P (xs @ d # ys)"
  shows "P s"
proof (induction s rule: length_induct)
  case (1 s)
  show ?case
  proof (rule split_string_cases [of d s])
    assume "d \<notin> set s"
    with assms(1,2) show ?thesis by (cases "s = []") auto
  next
    fix xs ys
    assume "s = xs @ d # ys" and "d \<notin> set xs"
    moreover have "P ys" using 1 \<open>s = xs @ d # ys\<close> by simp
    ultimately show ?thesis using assms(3) by simp
  qed
qed

lemma string_split_no_delim: "p \<in> set (string_split s d) \<Longrightarrow> d \<notin> set p"
  by (induction s rule: string_split_induct [where d = d])
    (auto simp: string_split_hit string_split_single)

lemma string_split_join:
  "concat (map (\<lambda>p. p @ [d]) (string_split s d)) = (if s = [] \<or> last s = d then s else s @ [d])"
proof (induction s rule: string_split_induct [where d = d])
  case (Single xs)
  then show ?case by (auto simp: string_split_single)
next
  case (Hit xs ys)
  then show ?case by (auto simp: string_split_hit)
qed simp

lemma string_split_length:
  "length (string_split s d) = count_list s d + (if s = [] \<or> last s = d then 0 else 1)"
proof (induction s rule: string_split_induct [where d = d])
  case (Single xs)
  then show ?case by (auto simp: string_split_single)
next
  case (Hit xs ys)
  then show ?case by (auto simp: string_split_hit)
qed simp

text \<open>Splitting what was joined gives the parts back, unless the last part is empty.\<close>

definition join_with :: "char \<Rightarrow> string list \<Rightarrow> string" where
  "join_with d parts = (if parts = [] then [] else concat (map (\<lambda>p. p @ [d]) (butlast parts)) @ last parts)"

lemma join_with_Cons: "parts \<noteq> [] \<Longrightarrow> join_with d (p # parts) = p @ d # join_with d parts"
  by (simp add: join_with_def)

lemma string_split_join_with:
  "parts \<noteq> [] \<Longrightarrow> \<forall>p \<in> set parts. d \<notin> set p \<Longrightarrow> last parts \<noteq> [] \<Longrightarrow>
     string_split (join_with d parts) d = parts"
proof (induction parts)
  case Nil
  then show ?case by simp
next
  case (Cons p parts)
  show ?case
  proof (cases "parts = []")
    case True
    with Cons.prems show ?thesis by (simp add: join_with_def string_split_single)
  next
    case False
    with Cons show ?thesis by (simp add: join_with_Cons string_split_hit)
  qed
qed

section \<open>string\_format\<close>

text \<open>One pass of \<open>vsnprintf\<close> for a buffer of the given size: its result, and the buffer afterwards.
  The loop need not end, so it is a partial function; sizes are unbounded.\<close>

partial_function (option) format_passes :: "(nat \<Rightarrow> int \<times> string) \<Rightarrow> nat \<Rightarrow> string option" where
  "format_passes vsn sz =
     (case vsn sz of (n, buf) \<Rightarrow>
        if n > - 1 \<and> nat n < sz then Some (take (nat n) buf)
        else if n > - 1 then format_passes vsn (nat n + 1)
        else format_passes vsn (sz * 2))"

definition string_format :: "(string \<Rightarrow> nat \<Rightarrow> int \<times> string) \<Rightarrow> string \<Rightarrow> string option" where
  "string_format vsn fmt = format_passes (vsn fmt) (length fmt * 2 + 50)"

text \<open>\<open>vsnprintf\<close> of C99 for a text: its whole length, and as much of it as the buffer holds beside the
  NUL.\<close>

definition c99_vsnprintf :: "string \<Rightarrow> nat \<Rightarrow> int \<times> string" where
  "c99_vsnprintf out sz =
     (int (length out), if sz = 0 then [] else take (sz - 1) out @ replicate (sz - length (take (sz - 1) out)) CHR 0x00)"

text \<open>The whole text is returned, after at most two passes, however long it is.\<close>

lemma string_format_text: "string_format (\<lambda>fmt. c99_vsnprintf (f fmt)) fmt = Some (f fmt)"
proof -
  have fits: "format_passes (c99_vsnprintf out) sz = Some out" if "length out < sz" for out sz
    by (subst format_passes.simps) (use that in \<open>auto simp: c99_vsnprintf_def min_def\<close>)
  show ?thesis
  proof (cases "length (f fmt) < length fmt * 2 + 50")
    case False
    with fits [of "f fmt" "Suc (length (f fmt))"] show ?thesis
      by (subst string_format_def, subst format_passes.simps) (simp add: c99_vsnprintf_def)
  qed (simp add: string_format_def fits)
qed

text \<open>An encoding error, which \<open>vsnprintf\<close> reports whatever the size, makes the loop double the buffer
  for ever.\<close>

lemma string_format_encoding_error: "(\<And>sz. fst (vsn fmt sz) = - 1) \<Longrightarrow> string_format vsn fmt = None"
proof -
  assume err: "\<And>sz. fst (vsn fmt sz) = - 1"
  have hit: "\<exists>sz. fst (g sz) \<noteq> - 1" if "format_passes g sz = Some y" for g sz y
  proof (rule format_passes.raw_induct [where P = "\<lambda>g sz y. \<exists>sz. fst (g sz) \<noteq> - 1", OF _ that])
    fix passes :: "(nat \<Rightarrow> int \<times> string) \<Rightarrow> nat \<Rightarrow> string option" and h :: "nat \<Rightarrow> int \<times> string" and n x
    assume IH: "\<And>h n x. passes h n = Some x \<Longrightarrow> \<exists>sz. fst (h sz) \<noteq> - 1"
      and step: "(case h n of (k, buf) \<Rightarrow> if - 1 < k \<and> nat k < n then Some (take (nat k) buf)
        else if - 1 < k then passes h (nat k + 1) else passes h (n * 2)) = Some x"
    obtain k buf where h: "h n = (k, buf)" by fastforce
    show "\<exists>sz. fst (h sz) \<noteq> - 1"
    proof (cases "- 1 < k")
      case True
      with h show ?thesis by (intro exI [of _ n]) simp
    next
      case False
      with step h have "passes h (n * 2) = Some x" by simp
      then show ?thesis by (rule IH)
    qed
  qed
  from hit [of "vsn fmt"] err show ?thesis unfolding string_format_def by (metis option.exhaust)
qed

text \<open>\<open>demangle\<close>, with the ABI's function as an argument: the name itself where that fails.\<close>

definition demangle :: "(string \<Rightarrow> string option) \<Rightarrow> string \<Rightarrow> string" where
  "demangle cxa_demangle name = (case cxa_demangle name of Some res \<Rightarrow> res | None \<Rightarrow> name)"

section \<open>scope\_guard\<close>

text \<open>The handlers, the next to run first; a handler acts on the state it captured.\<close>

type_synonym 's scope_guard = "('s \<Rightarrow> 's) list"

definition guard_add :: "('s \<Rightarrow> 's) \<Rightarrow> 's scope_guard \<Rightarrow> 's scope_guard" where
  "guard_add f handlers = f # handlers"

definition guard_dismiss :: "'s scope_guard \<Rightarrow> 's scope_guard" where
  "guard_dismiss handlers = []"

definition guard_destroy :: "'s scope_guard \<Rightarrow> 's \<Rightarrow> 's" where
  "guard_destroy handlers s = fold (\<lambda>f. f) handlers s"

lemma guard_destroy_add: "guard_destroy (guard_add f g) s = guard_destroy g (f s)"
  by (simp add: guard_destroy_def guard_add_def)

lemma guard_adds: "fold guard_add fs g = rev fs @ g"
  by (induction fs arbitrary: g) (auto simp: guard_add_def)

section \<open>Properties\<close>

text \<open>\<open>string_split\<close> cuts the string at every delimiter and nowhere else: no part holds the
  delimiter, the parts joined give the string back (but for one trailing delimiter), and there
  is one part per delimiter plus one for what follows the last.\<close>

theorem string_split_correct:
  "(\<forall>p. p \<in> set (string_split s d) \<longrightarrow> d \<notin> set p)
   \<and> concat (map (\<lambda>p. p @ [d]) (string_split s d)) = (if s = [] \<or> last s = d then s else s @ [d])
   \<and> length (string_split s d) = count_list s d + (if s = [] \<or> last s = d then 0 else 1)"
  using string_split_no_delim string_split_join string_split_length by blast

lemma string_split_correct_witness:
  "string_split ''a:b::c:'' CHR '':'' = [''a'', ''b'', [], ''c''] \<and>
   CHR '':'' \<notin> set ''b'' \<and>
   concat (map (\<lambda>p. p @ '':'') (string_split ''a:b::c:'' CHR '':'')) = ''a:b::c:''"
proof -
  have s: "string_split ''a:b::c:'' CHR '':'' = [''a'', ''b'', [], ''c'']" by code_simp
  then have "''b'' \<in> set (string_split ''a:b::c:'' CHR '':'')" by simp
  with s string_split_correct [of "''a:b::c:''" "CHR '':''"] show ?thesis by simp
qed

text \<open>the handlers of a scope guard run in the reverse order of their registration, each once,
  and none runs after \<open>dismiss\<close>.\<close>

theorem guard_runs_in_reverse:
  "guard_destroy (fold guard_add fs []) s = foldr (\<lambda>f. f) fs s
   \<and> guard_destroy (guard_dismiss (fold guard_add fs [])) s = s"
  by (simp add: guard_adds guard_destroy_def guard_dismiss_def foldr_conv_fold)

end
