(* ===== verification/Optional.thy ===== *)
theory Optional
  imports Prelude "HOL-Library.Option_ord"
begin

text \<open>
  \<open>include/common/stdutils/optional.hh\<close>: a flag beside a value that is always there.  The value
  of an empty optional is whatever the default constructor left; \<open>alive\<close> records whether the
  lifetime of \<open>_value\<close> is still running, because \<open>reset\<close> calls its destructor by hand and the
  destructor of the optional destroys it again.  The comparisons take the order of the contained
  type; the specification is the order on \<open>option\<close> with \<open>None\<close> below everything.
\<close>

record 'a optional_t =
  opt_has :: bool
  opt_val :: 'a
  opt_alive :: bool

section \<open>Construction, assignment, access\<close>

definition opt_empty :: "'a \<Rightarrow> 'a optional_t" where
  "opt_empty dflt = \<lparr>opt_has = False, opt_val = dflt, opt_alive = True\<rparr>"

definition opt_of :: "'a \<Rightarrow> 'a optional_t" where
  "opt_of v = \<lparr>opt_has = True, opt_val = v, opt_alive = True\<rparr>"

text \<open>\<open>operator=(const T &)\<close> assigns to \<open>_value\<close>, which must still be alive.\<close>

definition opt_assign :: "'a \<Rightarrow> 'a optional_t \<Rightarrow> cpp_error + 'a optional_t" where
  "opt_assign v o1 =
     (if opt_alive o1 then Inr (o1\<lparr>opt_has := True, opt_val := v\<rparr>) else Inl UndefinedBehaviour)"

text \<open>The copy constructor starts from a default value and assigns the whole source when it has
  one.\<close>

definition opt_copy :: "'a \<Rightarrow> 'a optional_t \<Rightarrow> 'a optional_t" where
  "opt_copy dflt other =
     (let this = \<lparr>opt_has = opt_has other, opt_val = dflt, opt_alive = True\<rparr>
      in if opt_has this then this\<lparr>opt_has := opt_has other, opt_val := opt_val other\<rparr> else this)"

text \<open>\<open>cValue\<close>, \<open>operator*\<close>, \<open>operator->\<close>: \<open>NotInitializedException\<close> when empty.\<close>

definition opt_value :: "'a optional_t \<Rightarrow> cpp_error + 'a" where
  "opt_value o1 = (if opt_has o1 then Inr (opt_val o1) else Inl RuntimeError)"

definition opt_value_or :: "'a optional_t \<Rightarrow> 'a \<Rightarrow> 'a" where
  "opt_value_or o1 d = (if opt_has o1 then opt_val o1 else d)"

text \<open>\<open>reset\<close> and the implicit destructor, which ends the lifetime of \<open>_value\<close>.\<close>

definition opt_reset :: "'a optional_t \<Rightarrow> cpp_error + 'a optional_t" where
  "opt_reset o1 =
     (if opt_has o1
      then if opt_alive o1 then Inr (o1\<lparr>opt_alive := False, opt_has := False\<rparr>)
           else Inl UndefinedBehaviour
      else Inr o1)"

definition opt_destroy :: "'a optional_t \<Rightarrow> cpp_error + unit" where
  "opt_destroy o1 = (if opt_alive o1 then Inr () else Inl UndefinedBehaviour)"

section \<open>Comparisons\<close>

definition opt_eq :: "'a optional_t \<Rightarrow> 'a optional_t \<Rightarrow> bool" where
  "opt_eq x y = (if opt_has x \<noteq> opt_has y then False
     else if opt_has x = False then True else opt_val x = opt_val y)"

definition opt_lt :: "'a::linorder optional_t \<Rightarrow> 'a optional_t \<Rightarrow> bool" where
  "opt_lt x y = (if \<not> opt_has y then False else if \<not> opt_has x then True else opt_val x < opt_val y)"

definition opt_ne :: "'a optional_t \<Rightarrow> 'a optional_t \<Rightarrow> bool" where
  "opt_ne x y = (\<not> opt_eq x y)"

definition opt_le :: "'a::linorder optional_t \<Rightarrow> 'a optional_t \<Rightarrow> bool" where
  "opt_le x y = (\<not> opt_lt y x)"

definition opt_gt :: "'a::linorder optional_t \<Rightarrow> 'a optional_t \<Rightarrow> bool" where
  "opt_gt x y = opt_lt y x"

definition opt_ge :: "'a::linorder optional_t \<Rightarrow> 'a optional_t \<Rightarrow> bool" where
  "opt_ge x y = (\<not> opt_lt x y)"

text \<open>The mixed comparisons, optional against value and value against optional, are written out
  one by one in the source.\<close>

definition opt_eq_v :: "'a optional_t \<Rightarrow> 'a \<Rightarrow> bool" where
  "opt_eq_v x v = (if opt_has x then opt_val x = v else False)"

definition v_eq_opt :: "'a \<Rightarrow> 'a optional_t \<Rightarrow> bool" where
  "v_eq_opt v x = (if opt_has x then v = opt_val x else False)"

definition opt_ne_v :: "'a optional_t \<Rightarrow> 'a \<Rightarrow> bool" where
  "opt_ne_v x v = (if opt_has x then opt_val x \<noteq> v else True)"

definition v_ne_opt :: "'a \<Rightarrow> 'a optional_t \<Rightarrow> bool" where
  "v_ne_opt v x = (if opt_has x then v \<noteq> opt_val x else True)"

definition opt_lt_v :: "'a::linorder optional_t \<Rightarrow> 'a \<Rightarrow> bool" where
  "opt_lt_v x v = (if opt_has x then opt_val x < v else True)"

definition v_gt_opt :: "'a::linorder \<Rightarrow> 'a optional_t \<Rightarrow> bool" where
  "v_gt_opt v x = (if opt_has x then v > opt_val x else True)"

definition opt_gt_v :: "'a::linorder optional_t \<Rightarrow> 'a \<Rightarrow> bool" where
  "opt_gt_v x v = (if opt_has x then opt_val x > v else False)"

definition v_lt_opt :: "'a::linorder \<Rightarrow> 'a optional_t \<Rightarrow> bool" where
  "v_lt_opt v x = (if opt_has x then v < opt_val x else False)"

definition opt_ge_v :: "'a::linorder optional_t \<Rightarrow> 'a \<Rightarrow> bool" where
  "opt_ge_v x v = (if opt_has x then opt_val x \<ge> v else False)"

definition v_le_opt :: "'a::linorder \<Rightarrow> 'a optional_t \<Rightarrow> bool" where
  "v_le_opt v x = (if opt_has x then v \<le> opt_val x else False)"

definition opt_le_v :: "'a::linorder optional_t \<Rightarrow> 'a \<Rightarrow> bool" where
  "opt_le_v x v = (if opt_has x then opt_val x \<le> v else True)"

definition v_ge_opt :: "'a::linorder \<Rightarrow> 'a optional_t \<Rightarrow> bool" where
  "v_ge_opt v x = (if opt_has x then v \<ge> opt_val x else True)"

section \<open>The abstract optional\<close>

definition opt_abs :: "'a optional_t \<Rightarrow> 'a option" where
  "opt_abs o1 = (if opt_has o1 then Some (opt_val o1) else None)"

lemmas opt_cmp_defs =
  opt_eq_def opt_lt_def opt_ne_def opt_le_def opt_gt_def opt_ge_def
  opt_eq_v_def v_eq_opt_def opt_ne_v_def v_ne_opt_def opt_lt_v_def v_gt_opt_def opt_gt_v_def
  v_lt_opt_def opt_ge_v_def v_le_opt_def opt_le_v_def v_ge_opt_def

lemma opt_abs_copy: "opt_abs (opt_copy dflt x) = opt_abs x"
  by (simp add: opt_abs_def opt_copy_def Let_def)

lemma opt_abs_simps [simp]:
  "opt_abs (opt_empty d) = None" "opt_abs (opt_of v) = Some v"
  by (simp_all add: opt_abs_def opt_empty_def opt_of_def)

lemma opt_value_abs: "opt_value x = (case opt_abs x of Some v \<Rightarrow> Inr v | None \<Rightarrow> Inl RuntimeError)"
  by (simp add: opt_value_def opt_abs_def)

lemma opt_value_or_abs: "opt_value_or x d = (case opt_abs x of Some v \<Rightarrow> v | None \<Rightarrow> d)"
  by (simp add: opt_value_or_def opt_abs_def)

section \<open>Properties\<close>

text \<open>all eighteen comparison operators of \<open>Optional\<close>, the mixed ones included, are the
  comparisons of one linear order: the contained type's, with the empty optional below every
  value.\<close>

theorem optional_comparisons:
  fixes x y :: "'a::linorder optional_t"
  shows "(opt_eq x y \<longleftrightarrow> opt_abs x = opt_abs y) \<and> (opt_ne x y \<longleftrightarrow> opt_abs x \<noteq> opt_abs y)
    \<and> (opt_lt x y \<longleftrightarrow> opt_abs x < opt_abs y) \<and> (opt_le x y \<longleftrightarrow> opt_abs x \<le> opt_abs y)
    \<and> (opt_gt x y \<longleftrightarrow> opt_abs x > opt_abs y) \<and> (opt_ge x y \<longleftrightarrow> opt_abs x \<ge> opt_abs y)
    \<and> (opt_eq_v x v \<longleftrightarrow> opt_abs x = Some v) \<and> (v_eq_opt v x \<longleftrightarrow> Some v = opt_abs x)
    \<and> (opt_ne_v x v \<longleftrightarrow> opt_abs x \<noteq> Some v) \<and> (v_ne_opt v x \<longleftrightarrow> Some v \<noteq> opt_abs x)
    \<and> (opt_lt_v x v \<longleftrightarrow> opt_abs x < Some v) \<and> (v_gt_opt v x \<longleftrightarrow> Some v > opt_abs x)
    \<and> (opt_gt_v x v \<longleftrightarrow> opt_abs x > Some v) \<and> (v_lt_opt v x \<longleftrightarrow> Some v < opt_abs x)
    \<and> (opt_ge_v x v \<longleftrightarrow> opt_abs x \<ge> Some v) \<and> (v_le_opt v x \<longleftrightarrow> Some v \<le> opt_abs x)
    \<and> (opt_le_v x v \<longleftrightarrow> opt_abs x \<le> Some v) \<and> (v_ge_opt v x \<longleftrightarrow> Some v \<ge> opt_abs x)"
  by (cases "opt_has x"; cases "opt_has y") (auto simp: opt_cmp_defs opt_abs_def not_less not_le)

text \<open>\<open>reset\<close> of an optional that holds a value runs the destructor of \<open>_value\<close>, and so
  destroying that optional afterwards, or assigning to it, touches a dead object; an optional
  that was never reset is destroyed once.\<close>

theorem reset_then_destroy:
  assumes "opt_alive x"
  shows "\<exists>x'. opt_reset x = Inr x' \<and> opt_abs x' = None
    \<and> (opt_destroy x' = Inl UndefinedBehaviour \<longleftrightarrow> opt_has x)
    \<and> (opt_assign v x' = Inl UndefinedBehaviour \<longleftrightarrow> opt_has x)
    \<and> opt_destroy x = Inr ()"
  using assms by (auto simp: opt_reset_def opt_destroy_def opt_assign_def opt_abs_def)

lemma reset_then_destroy_witness:
  "\<exists>x'. opt_reset (opt_of ''v'') = Inr x' \<and> opt_destroy x' = Inl UndefinedBehaviour"
proof -
  have "opt_alive (opt_of ''v'')" and "opt_has (opt_of ''v'')" by (simp_all add: opt_of_def)
  with reset_then_destroy [OF this(1)] show ?thesis by blast
qed

end
