(* ===== verification/Any.thy ===== *)
theory Any
  imports Prelude
begin

text \<open>
  \<open>include/common/stdutils/any.hh\<close> and \<open>components/stdutils/src/any.cc\<close>: a box for one value
  of any type.  The values the library puts into a box are the constructors of \<open>cpp_value\<close>;
  the integers are the mathematical values of their C++ types, a \<open>double\<close> and a value of a
  user type are opaque payloads, the latter with the number of its type.
\<close>

datatype cpp_type =
    TyVoid | TyInt64 | TyUInt64 | TyInt32 | TyUInt32 | TyInt16 | TyUInt16 | TyInt8 | TyUInt8
  | TyBool | TyDouble | TyString | TyUser nat

datatype 'u cpp_value =
    VInt64 int | VUInt64 int | VInt32 int | VUInt32 int | VInt16 int | VUInt16 int | VInt8 int
  | VUInt8 int | VBool bool | VDouble 'u | VString string | VUser nat 'u

fun value_type :: "'u cpp_value \<Rightarrow> cpp_type" where
  "value_type (VInt64 _) = TyInt64"
| "value_type (VUInt64 _) = TyUInt64"
| "value_type (VInt32 _) = TyInt32"
| "value_type (VUInt32 _) = TyUInt32"
| "value_type (VInt16 _) = TyInt16"
| "value_type (VUInt16 _) = TyUInt16"
| "value_type (VInt8 _) = TyInt8"
| "value_type (VUInt8 _) = TyUInt8"
| "value_type (VBool _) = TyBool"
| "value_type (VDouble _) = TyDouble"
| "value_type (VString _) = TyString"
| "value_type (VUser t _) = TyUser t"

lemma value_type_neq_void [simp]: "value_type v \<noteq> TyVoid" "TyVoid \<noteq> value_type v"
  by (cases v; simp)+

section \<open>The box\<close>

text \<open>\<open>_content\<close>, a unique pointer to the holder of the value.\<close>

record 'u any =
  content :: "'u cpp_value option"

definition any_empty :: "'u any" where
  "any_empty = \<lparr>content = None\<rparr>"

definition any_of :: "'u cpp_value \<Rightarrow> 'u any" where
  "any_of v = \<lparr>content = Some v\<rparr>"

definition any_of_cstr :: "string \<Rightarrow> 'u any" where
  "any_of_cstr value = \<lparr>content = Some (VString (c_str value))\<rparr>"

text \<open>Copying clones the holder; moving takes the pointer and leaves the source empty.\<close>

definition any_copy :: "'u any \<Rightarrow> 'u any" where
  "any_copy other = (case content other of Some v \<Rightarrow> \<lparr>content = Some v\<rparr> | None \<Rightarrow> \<lparr>content = None\<rparr>)"

definition any_move :: "'u any \<Rightarrow> 'u any \<times> 'u any" where
  "any_move other = (\<lparr>content = content other\<rparr>, other\<lparr>content := None\<rparr>)"

definition any_set :: "'u cpp_value \<Rightarrow> 'u any \<Rightarrow> 'u any" where
  "any_set v this = this\<lparr>content := Some v\<rparr>"

text \<open>Assignment from another box moves the holder out of a temporary copy, or out of the box itself;
  the two boxes are different objects.\<close>

definition any_assign :: "'u any \<Rightarrow> 'u any \<Rightarrow> 'u any" where
  "any_assign rhs this = this\<lparr>content := content (any_copy rhs)\<rparr>"

definition any_assign_move :: "'u any \<Rightarrow> 'u any \<Rightarrow> 'u any \<times> 'u any" where
  "any_assign_move rhs this = (this\<lparr>content := content rhs\<rparr>, rhs\<lparr>content := None\<rparr>)"

definition any_set_cstr :: "string \<Rightarrow> 'u any \<Rightarrow> 'u any" where
  "any_set_cstr value this = this\<lparr>content := Some (VString (c_str value))\<rparr>"

definition any_has_value :: "'u any \<Rightarrow> bool" where
  "any_has_value this \<longleftrightarrow> content this \<noteq> None"

definition any_type :: "'u any \<Rightarrow> cpp_type" where
  "any_type this = (case content this of Some v \<Rightarrow> value_type v | None \<Rightarrow> TyVoid)"

definition any_reset :: "'u any \<Rightarrow> 'u any" where
  "any_reset this = this\<lparr>content := None\<rparr>"

text \<open>\<open>any_cast<T>\<close> on a reference: the \<open>dynamic_cast\<close> throws \<open>std::bad_cast\<close> unless the held
  type is exactly \<open>T\<close>; on a pointer the result is null instead.\<close>

definition any_cast :: "cpp_type \<Rightarrow> 'u any \<Rightarrow> cpp_error + 'u cpp_value" where
  "any_cast t this = (case content this of
      Some v \<Rightarrow> if value_type v = t then Inr v else Inl BadCast
    | None \<Rightarrow> Inl BadCast)"

definition any_cast_ptr :: "cpp_type \<Rightarrow> 'u any option \<Rightarrow> 'u cpp_value option" where
  "any_cast_ptr t p = (case p of
      None \<Rightarrow> None
    | Some this \<Rightarrow> (case content this of
          Some v \<Rightarrow> if value_type v = t then Some v else None
        | None \<Rightarrow> None))"

lemmas any_defs = any_empty_def any_of_def any_of_cstr_def any_copy_def any_move_def any_set_def
  any_assign_def any_assign_move_def any_set_cstr_def any_has_value_def
  any_type_def any_reset_def any_cast_def any_cast_ptr_def

lemma any_copy_id [simp]: "any_copy a = a"
  by (cases a) (auto simp: any_copy_def split: option.splits)

lemma any_type_void: "any_type a = TyVoid \<longleftrightarrow> \<not> any_has_value a"
  by (auto simp: any_defs split: option.splits)

lemma any_cast_Inr: "any_cast t a = Inr v \<longleftrightarrow> content a = Some v \<and> value_type v = t"
  by (auto simp: any_cast_def split: option.splits)

section \<open>Properties\<close>

text \<open>a cast gives the boxed value back at exactly the boxed type and throws
  \<open>std::bad_cast\<close> at every other; the pointer form is null exactly when the reference form
  throws; a copy, or a box assigned from another, answers every cast as its source does, a
  moved-from or reset box none; a box given a C string holds a \<open>std::string\<close>.\<close>

theorem any_cast_correct:
  fixes v :: "'u cpp_value"
  shows "any_cast t (any_set v a) = (if t = value_type v then Inr v else Inl BadCast)
   \<and> (any_cast_ptr t (Some a) = None \<longleftrightarrow> any_cast t a = Inl BadCast)
   \<and> (any_type a = t \<and> t \<noteq> TyVoid \<longleftrightarrow> (\<exists>w. any_cast t a = Inr w))
   \<and> any_cast t (any_copy a) = any_cast t a
   \<and> any_cast t (fst (any_move a)) = any_cast t a
   \<and> any_cast t (snd (any_move a)) = Inl BadCast \<and> any_cast t (any_reset a) = Inl BadCast
   \<and> any_cast t (any_assign b a) = any_cast t b
   \<and> any_cast t (fst (any_assign_move b a)) = any_cast t b
   \<and> any_cast t (snd (any_assign_move b a)) = Inl BadCast
   \<and> any_cast TyString (any_set_cstr s a) = Inr (VString (c_str s))
   \<and> any_cast TyString (any_of_cstr s) = Inr (VString (c_str s) :: 'u cpp_value)"
  by (auto simp: any_defs split: option.splits)

end
