(* ===== verification/PacketBuffer.thy ===== *)
theory PacketBuffer
  imports Prelude "HOL-Library.Word"
begin

text \<open>
  \<open>PacketBuffer\<close> (\<open>include/common/stdutils/packet_buffer.hh\<close>,
  \<open>components/stdutils/src/packet_buffer.cc\<close>): a queue of packets with a limit on the bytes
  it holds.  The counters are \<open>size_t\<close>, 64 bits wide, and their additions wrap around; the
  mutex makes every operation one atomic step.  The interface the library promises to its
  users is the locale \<open>packet_queue\<close>; the code's operations are an interpretation of it.
\<close>

section \<open>The interface\<close>

text \<open>What a client does with a queue: offer packets one after the other (a refused one is
  dropped by the caller), take up to \<open>n\<close> packets out.\<close>

primrec offer_all :: "('p \<Rightarrow> 'q \<Rightarrow> bool \<times> 'q) \<Rightarrow> 'p list \<Rightarrow> 'q \<Rightarrow> 'p list \<times> 'q" where
  "offer_all enq [] q = ([], q)"
| "offer_all enq (p # ps) q =
     (case enq p q of (b, q') \<Rightarrow>
        (case offer_all enq ps q' of (acc, q'') \<Rightarrow> (if b then p # acc else acc, q'')))"

primrec drain :: "('q \<Rightarrow> 'p option \<times> 'q) \<Rightarrow> nat \<Rightarrow> 'q \<Rightarrow> 'p list \<times> 'q" where
  "drain deq 0 q = ([], q)"
| "drain deq (Suc n) q =
     (case deq q of (None, q') \<Rightarrow> ([], q')
      | (Some p, q') \<Rightarrow> (case drain deq n q' of (ps, q'') \<Rightarrow> (p # ps, q'')))"

text \<open>\<open>ok\<close> holds of the packets that can exist, \<open>inv\<close> of the queues the operations keep.\<close>

locale packet_queue =
  fixes enq :: "'p \<Rightarrow> 'q \<Rightarrow> bool \<times> 'q"
    and deq :: "'q \<Rightarrow> 'p option \<times> 'q"
    and put_back :: "'p \<Rightarrow> 'q \<Rightarrow> bool \<times> 'q"
    and packets :: "'q \<Rightarrow> 'p list"
    and ok :: "'p \<Rightarrow> bool"
    and inv :: "'q \<Rightarrow> bool"
  assumes enq_inv: "inv q \<Longrightarrow> ok p \<Longrightarrow> inv (snd (enq p q))"
    and enq_accept: "inv q \<Longrightarrow> ok p \<Longrightarrow> enq p q = (True, q') \<Longrightarrow> packets q' = packets q @ [p]"
    and enq_refuse: "enq p q = (False, q') \<Longrightarrow> q' = q"
    and deq_inv: "inv q \<Longrightarrow> inv (snd (deq q))"
    and deq_packets: "deq q = (r, q') \<Longrightarrow>
      (case packets q of [] \<Rightarrow> r = None \<and> q' = q | p # ps \<Rightarrow> r = Some p \<and> packets q' = ps)"
    and put_back_undo: "inv q \<Longrightarrow> deq q = (Some p, q') \<Longrightarrow> put_back p q' = (True, q)"
begin

lemma offer_packets:
  "inv q \<Longrightarrow> \<forall>p \<in> set ps. ok p \<Longrightarrow> offer_all enq ps q = (acc, q') \<Longrightarrow>
     inv q' \<and> packets q' = packets q @ acc"
proof (induction ps arbitrary: q acc)
  case Nil
  then show ?case by simp
next
  case (Cons p ps)
  obtain b q1 where e: "enq p q = (b, q1)" by (cases "enq p q")
  obtain acc1 where o: "offer_all enq ps q1 = (acc1, q')" and acc: "acc = (if b then p # acc1 else acc1)"
    using Cons.prems(3) e by (auto split: prod.splits)
  have "inv q1" using enq_inv [of q p] Cons.prems e by simp
  with Cons.IH [OF _ _ o] Cons.prems(2) have "inv q'" "packets q' = packets q1 @ acc1" by auto
  moreover have "packets q1 = packets q @ (if b then [p] else [])"
    using enq_accept [of q p q1] enq_refuse [of p q q1] Cons.prems e by (cases b) auto
  ultimately show ?case using acc by simp
qed

lemma drain_packets: "drain deq (length (packets q)) q = (ps, q') \<Longrightarrow> ps = packets q \<and> packets q' = []"
proof (induction "packets q" arbitrary: q ps)
  case Nil
  then show ?case by simp
next
  case (Cons p rest)
  obtain r q1 where d: "deq q = (r, q1)" by (cases "deq q")
  from deq_packets [OF d] Cons.hyps(2) have r: "r = Some p" "packets q1 = rest"
    by (auto split: list.splits)
  from Cons.prems d r obtain ps1 where "drain deq (length rest) q1 = (ps1, q')" "ps = p # ps1"
    by (auto simp flip: Cons.hyps(2) split: prod.splits)
  with Cons.hyps(1) [of q1 ps1] r Cons.hyps(2) show ?case by auto
qed

lemma drain_inv: "inv q \<Longrightarrow> drain deq n q = (ps, q') \<Longrightarrow> inv q'"
proof (induction n arbitrary: q ps)
  case 0
  then show ?case by simp
next
  case (Suc n)
  then show ?case
    using deq_inv [of q] by (auto split: prod.splits option.splits)
qed

lemma offer_drain:
  assumes "inv q" and "\<forall>p \<in> set ps. ok p" and "packets q = []"
    and "offer_all enq ps q = (acc, q1)" and "drain deq (length (packets q1)) q1 = (out, q2)"
  shows "out = acc \<and> packets q1 = acc \<and> packets q2 = [] \<and> inv q1 \<and> inv q2"
  using offer_packets [OF assms(1,2,4)] drain_packets [OF assms(5)] drain_inv [OF _ assms(5)]
    assms(3) by simp

end

section \<open>The code\<close>

type_synonym size_t = "64 word"
type_synonym packet = "8 word list"

record pbuf =
  buffer :: "packet list"
  buf_limit_size :: size_t
  buf_size :: size_t

definition DEFAULT_BUFFER_LIMIT :: size_t where
  "DEFAULT_BUFFER_LIMIT = 1024 * 1024"

definition packet_size :: "packet \<Rightarrow> size_t" where
  "packet_size data = of_nat (length data)"

definition pb_new :: pbuf where
  "pb_new = \<lparr>buffer = [], buf_limit_size = DEFAULT_BUFFER_LIMIT, buf_size = 0\<rparr>"

definition pb_push :: "packet \<Rightarrow> pbuf \<Rightarrow> bool \<times> pbuf" where
  "pb_push data b =
     (if buf_size b + packet_size data > buf_limit_size b then (False, b)
      else (True, b\<lparr>buffer := buffer b @ [data], buf_size := buf_size b + packet_size data\<rparr>))"

definition pb_pop :: "pbuf \<Rightarrow> packet option \<times> pbuf" where
  "pb_pop b =
     (case buffer b of
        v # rest \<Rightarrow> (Some v, b\<lparr>buffer := rest, buf_size := buf_size b - packet_size v\<rparr>)
      | [] \<Rightarrow> (None, b))"

definition pb_rollBack :: "packet \<Rightarrow> pbuf \<Rightarrow> bool \<times> pbuf" where
  "pb_rollBack v b =
     (if buf_size b + packet_size v > buf_limit_size b then (False, b)
      else (True, b\<lparr>buffer := v # buffer b, buf_size := buf_size b + packet_size v\<rparr>))"

definition pb_setLimit :: "size_t \<Rightarrow> pbuf \<Rightarrow> pbuf" where
  "pb_setLimit limit b = b\<lparr>buf_limit_size := limit\<rparr>"

section \<open>The invariant\<close>

definition total_bytes :: "packet list \<Rightarrow> nat" where
  "total_bytes ps = sum_list (map length ps)"

text \<open>A vector or string holds at most \<open>PTRDIFF_MAX\<close> bytes, so with a limit up to
  \<open>2 ^ 63\<close> the sum the code tests cannot wrap around.\<close>

definition packet_ok :: "packet \<Rightarrow> bool" where
  "packet_ok data \<longleftrightarrow> length data < 2 ^ 63"

definition pb_inv :: "pbuf \<Rightarrow> bool" where
  "pb_inv b \<longleftrightarrow> (\<forall>p \<in> set (buffer b). packet_ok p) \<and> unat (buf_size b) = total_bytes (buffer b)
     \<and> total_bytes (buffer b) \<le> unat (buf_limit_size b) \<and> unat (buf_limit_size b) \<le> 2 ^ 63"

lemma unat_packet_size: "packet_ok data \<Longrightarrow> unat (packet_size data) = length data"
  by (simp add: packet_size_def packet_ok_def unsigned_of_nat take_bit_nat_eq_self)

lemma unat_size_plus:
  assumes "pb_inv b" and "packet_ok data"
  shows "unat (buf_size b + packet_size data) = total_bytes (buffer b) + length data"
proof -
  have "unat (buf_size b) + unat (packet_size data) < 2 ^ 64"
    using assms by (simp add: pb_inv_def unat_packet_size packet_ok_def)
  then have "unat (buf_size b + packet_size data) = unat (buf_size b) + unat (packet_size data)"
    by (simp add: unat_word_ariths)
  with assms show ?thesis by (simp add: pb_inv_def unat_packet_size)
qed

lemma pb_push_accepts:
  "pb_inv b \<Longrightarrow> packet_ok data \<Longrightarrow>
     fst (pb_push data b) \<longleftrightarrow> total_bytes (buffer b) + length data \<le> unat (buf_limit_size b)"
  by (simp add: pb_push_def word_less_nat_alt unat_size_plus not_less)

lemma pb_push_inv: "pb_inv b \<Longrightarrow> packet_ok data \<Longrightarrow> pb_inv (snd (pb_push data b))"
  using unat_size_plus [of b data]
  by (auto simp: pb_push_def pb_inv_def total_bytes_def word_less_nat_alt not_less)

lemma pb_pop_size:
  assumes "pb_inv b" and "buffer b = v # rest"
  shows "unat (buf_size b - packet_size v) = total_bytes rest"
proof -
  have len: "length v + total_bytes rest = unat (buf_size b)" and "packet_ok v"
    using assms by (auto simp: pb_inv_def total_bytes_def)
  then show ?thesis
    by (subst unat_sub) (auto simp: word_le_nat_alt unat_packet_size)
qed

lemma pb_pop_inv: "pb_inv b \<Longrightarrow> pb_inv (snd (pb_pop b))"
  using pb_pop_size [of b] by (auto simp: pb_pop_def pb_inv_def total_bytes_def split: list.splits)

lemma pb_new_inv [simp]: "pb_inv pb_new"
  by (simp add: pb_inv_def pb_new_def total_bytes_def DEFAULT_BUFFER_LIMIT_def)

lemma pb_rollBack_pop:
  assumes "pb_inv b" and "pb_pop b = (Some v, b')"
  shows "pb_rollBack v b' = (True, b)"
proof -
  obtain rest where b: "buffer b = v # rest"
    "b' = b\<lparr>buffer := rest, buf_size := buf_size b - packet_size v\<rparr>"
    using assms(2) by (auto simp: pb_pop_def split: list.splits)
  have "\<not> buf_size b > buf_limit_size b"
    using assms(1) by (simp add: pb_inv_def word_less_nat_alt)
  with b show ?thesis by (simp add: pb_rollBack_def)
qed

interpretation pq: packet_queue pb_push pb_pop pb_rollBack buffer packet_ok pb_inv
proof (unfold_locales, goal_cases)
  case (1 q p) then show ?case by (rule pb_push_inv)
next
  case (2 q p q') then show ?case by (auto simp: pb_push_def split: if_splits)
next
  case (3 p q q') then show ?case by (auto simp: pb_push_def split: if_splits)
next
  case (4 q) then show ?case by (rule pb_pop_inv)
next
  case (5 q r q') then show ?case by (auto simp: pb_pop_def split: list.splits)
next
  case (6 q p q') then show ?case by (rule pb_rollBack_pop)
qed

section \<open>Properties\<close>

text \<open>C19: the buffer is a bounded queue.  Whatever packets are pushed into a new buffer, popping
  until it is empty returns exactly the accepted ones, in the order they were pushed; together
  they never exceed the limit of 1048576 bytes, a packet is accepted exactly when it still fits,
  and the byte counter ends at zero.\<close>

theorem packet_buffer_fifo:
  assumes "\<forall>p \<in> set ps. packet_ok p" and "packet_ok p"
    and "offer_all pb_push ps pb_new = (acc, b1)"
    and "drain pb_pop (length (buffer b1)) b1 = (out, b2)"
  shows "out = acc \<and> total_bytes acc \<le> 1048576 \<and> buffer b2 = [] \<and> buf_size b2 = 0
    \<and> (fst (pb_push p b1) \<longleftrightarrow> total_bytes acc + length p \<le> 1048576)"
proof -
  have limit: "offer_all pb_push ps b = (acc, b') \<Longrightarrow> buf_limit_size b' = buf_limit_size b"
    for ps acc b b'
    by (induction ps arbitrary: acc b) (auto simp: pb_push_def split: prod.splits if_splits)
  have od: "out = acc \<and> buffer b1 = acc \<and> buffer b2 = [] \<and> pb_inv b1 \<and> pb_inv b2"
    by (rule pq.offer_drain [OF pb_new_inv assms(1) _ assms(3,4)]) (simp add: pb_new_def)
  moreover have "unat (buf_limit_size b1) = 1048576"
    using limit [OF assms(3)] by (simp add: pb_new_def DEFAULT_BUFFER_LIMIT_def)
  moreover have "unat (buf_size b2) = 0"
    using od unfolding pb_inv_def total_bytes_def by (elim conjE) simp
  then have "buf_size b2 = 0" by (simp only: unat_eq_zero)
  ultimately show ?thesis
    using pb_push_accepts [OF _ assms(2), of b1] by (auto simp: pb_inv_def)
qed

lemma packet_buffer_fifo_witness:
  "drain pb_pop 2 (snd (offer_all pb_push [[1, 2], [3]] pb_new)) = ([[1, 2], [3]], pb_new)"
proof -
  let ?ps = "[[1, 2], [3]] :: packet list"
  obtain acc b1 where o: "offer_all pb_push ?ps pb_new = (acc, b1)" by fastforce
  obtain out b2 where d: "drain pb_pop (length (buffer b1)) b1 = (out, b2)" by fastforce
  have "\<forall>p \<in> set ?ps. packet_ok p" and "packet_ok []" by (simp_all add: packet_ok_def)
  note r = packet_buffer_fifo [OF this o d]
  have b1: "acc = ?ps \<and> length (buffer b1) = 2 \<and> buf_limit_size b1 = DEFAULT_BUFFER_LIMIT"
    using o by (auto simp: pb_push_def pb_new_def packet_size_def DEFAULT_BUFFER_LIMIT_def split: if_splits)
  moreover have "buf_limit_size b2 = DEFAULT_BUFFER_LIMIT"
    using d b1 by (auto simp: numeral_2_eq_2 pb_pop_def split: list.splits)
  ultimately show ?thesis using r o d by (simp add: pb_new_def)
qed

text \<open>\<open>rollBack\<close> undoes \<open>pop\<close>: putting the packet just taken back restores the
  buffer exactly, counter included, and it is never refused.\<close>

theorem packet_buffer_rollBack:
  assumes "pb_inv b" and "pb_pop b = (Some v, b')"
  shows "pb_rollBack v b' = (True, b) \<and> pb_inv b' \<and> buffer b = v # buffer b'"
  using pq.put_back_undo [OF assms] pq.deq_inv [OF assms(1)] pq.deq_packets [OF assms(2)] assms(2)
  by (auto split: list.splits)

lemma packet_buffer_rollBack_witness:
  "pb_rollBack [7] (snd (pb_pop (snd (pb_push [7] pb_new)))) = (True, snd (pb_push [7] pb_new))"
proof -
  let ?b = "snd (pb_push [7] pb_new)"
  have "pb_inv ?b" by (rule pb_push_inv) (simp_all add: packet_ok_def)
  moreover have "pb_pop ?b = (Some [7], snd (pb_pop ?b))"
    by (simp add: pb_push_def pb_pop_def pb_new_def packet_size_def DEFAULT_BUFFER_LIMIT_def)
  ultimately show ?thesis using packet_buffer_rollBack by blast
qed

end
