(* ===== verification/Containers.thy ===== *)
theory Containers
  imports Prelude "HOL-Library.Multiset"
begin

text \<open>
  The standard containers the components keep their state in.  A \<open>std::map\<close> is the list of
  its entries in key order; a \<open>std::multiset\<close> with a comparator is the list of its elements
  in iteration order; \<open>std::list::sort\<close>, \<open>std::upper_bound\<close> and \<open>std::lower_bound\<close> are
  written by the contract the standard gives them.  The locale \<open>strict_weak_order\<close> is the
  Compare requirement these algorithms put on a component's \<open>operator<\<close>; each component
  that hands a comparison to a container interprets it.
\<close>

named_theorems map_simps \<open>lookup after an update of an ordered map\<close>

section \<open>Ordered maps\<close>

type_synonym ('k, 'v) omap = "('k \<times> 'v) list"

definition omap_inv :: "('k::linorder, 'v) omap \<Rightarrow> bool" where
  "omap_inv m \<longleftrightarrow> sorted_wrt (<) (map fst m)"

text \<open>\<open>m[k] = v\<close>\<close>

fun omap_set :: "'k::linorder \<Rightarrow> 'v \<Rightarrow> ('k, 'v) omap \<Rightarrow> ('k, 'v) omap" where
  "omap_set k v [] = [(k, v)]"
| "omap_set k v ((k', v') # m) =
     (if k < k' then (k, v) # (k', v') # m
      else if k = k' then (k, v) # m
      else (k', v') # omap_set k v m)"

text \<open>\<open>m.insert({k, v})\<close> and \<open>m.emplace(k, v)\<close>: an existing entry is kept.\<close>

definition omap_insert :: "'k::linorder \<Rightarrow> 'v \<Rightarrow> ('k, 'v) omap \<Rightarrow> ('k, 'v) omap" where
  "omap_insert k v m = (case map_of m k of None \<Rightarrow> omap_set k v m | Some _ \<Rightarrow> m)"

definition omap_erase :: "'k \<Rightarrow> ('k, 'v) omap \<Rightarrow> ('k, 'v) omap" where
  "omap_erase k m = filter (\<lambda>e. fst e \<noteq> k) m"

lemma omap_inv_Nil [simp]: "omap_inv []"
  by (simp add: omap_inv_def)

lemma set_keys_omap_set: "fst ` set (omap_set k v m) = insert k (fst ` set m)"
  by (induction k v m rule: omap_set.induct) auto

lemma omap_inv_set [intro]: "omap_inv m \<Longrightarrow> omap_inv (omap_set k v m)"
proof (induction k v m rule: omap_set.induct)
  case (1 k v)
  then show ?case by (simp add: omap_inv_def)
next
  case (2 k v k' v' m)
  then show ?case
    by (auto simp: omap_inv_def set_keys_omap_set simp flip: image_set
        dest: order.strict_trans)
qed

lemma omap_inv_not_below: "omap_inv ((k', v') # m) \<Longrightarrow> k < k' \<Longrightarrow> map_of m k = None"
  by (force simp: omap_inv_def map_of_eq_None_iff)

lemma map_of_omap_set [map_simps]:
  "omap_inv m \<Longrightarrow> map_of (omap_set k v m) = (map_of m)(k \<mapsto> v)"
proof (induction k v m rule: omap_set.induct)
  case (1 k v)
  then show ?case by simp
next
  case (2 k v k' v' m)
  then show ?case by (auto simp: fun_eq_iff omap_inv_def)
qed

lemma omap_inv_insert [intro]: "omap_inv m \<Longrightarrow> omap_inv (omap_insert k v m)"
  by (auto simp: omap_insert_def split: option.splits)

lemma map_of_omap_insert [map_simps]:
  "omap_inv m \<Longrightarrow>
     map_of (omap_insert k v m) = (if k \<in> dom (map_of m) then map_of m else (map_of m)(k \<mapsto> v))"
  by (auto simp: omap_insert_def map_of_omap_set split: option.splits)

lemma omap_inv_erase [intro]: "omap_inv m \<Longrightarrow> omap_inv (omap_erase k m)"
  unfolding omap_inv_def omap_erase_def
  by (induction m) auto

lemma map_of_omap_erase [map_simps]: "map_of (omap_erase k m) = (map_of m)(k := None)"
  by (induction m) (auto simp: omap_erase_def fun_eq_iff)

lemma omap_inv_distinct: "omap_inv m \<Longrightarrow> distinct (map fst m)"
  by (simp add: omap_inv_def strict_sorted_iff)

text \<open>Two ordered maps with the same lookups are the same map.\<close>

lemma omap_eqI:
  assumes "omap_inv m" and "omap_inv n" and "map_of m = map_of n"
  shows "m = n"
proof -
  have d: "distinct (map fst m)" "distinct (map fst n)"
    using assms(1,2) omap_inv_distinct by blast+
  have "set m = set n"
    using assms(3) d by (metis map_of_eq_Some_iff subset_antisym subrelI)
  moreover have "inj_on fst (set m \<union> set n)"
    using d \<open>set m = set n\<close> by (simp add: distinct_map)
  ultimately show ?thesis
    using assms(1,2) by (intro map_sorted_distinct_set_unique) (auto simp: omap_inv_def strict_sorted_iff)
qed

section \<open>Partition points\<close>

text \<open>\<open>std::upper_bound\<close> and \<open>std::lower_bound\<close> return the first element at which the
  predicate built from the comparison holds; on a range partitioned by that predicate this is
  what the binary search finds.  The value is the rest of the range from there on.\<close>

definition partition_from :: "('a \<Rightarrow> bool) \<Rightarrow> 'a list \<Rightarrow> 'a list" where
  "partition_from P xs = dropWhile (\<lambda>x. \<not> P x) xs"

lemma partition_from_filter:
  assumes "sorted_wrt R xs" and "\<And>x y. P x \<Longrightarrow> R x y \<Longrightarrow> P y"
  shows "partition_from P xs = filter P xs"
  using assms(1)
proof (induction xs)
  case Nil
  then show ?case by (simp add: partition_from_def)
next
  case (Cons x xs)
  show ?case
  proof (cases "P x")
    case True
    then have "\<forall>y \<in> set xs. P y" using Cons.prems assms(2) by auto
    with True show ?thesis by (simp add: partition_from_def)
  next
    case False
    with Cons show ?thesis by (simp add: partition_from_def)
  qed
qed

lemma takeWhile_filter:
  assumes "sorted_wrt R xs" and "\<And>x y. \<not> Q x \<Longrightarrow> R x y \<Longrightarrow> \<not> Q y"
  shows "takeWhile Q xs = filter Q xs"
  using assms(1)
proof (induction xs)
  case Nil
  then show ?case by simp
next
  case (Cons x xs)
  show ?case
  proof (cases "Q x")
    case True
    with Cons show ?thesis by simp
  next
    case False
    then have "\<forall>y \<in> set xs. \<not> Q y" using Cons.prems assms(2) by auto
    with False show ?thesis by simp
  qed
qed

section \<open>Containers with a comparator\<close>

text \<open>\<open>std::multiset::insert\<close> puts the element at the upper bound of its range of equivalent
  elements.\<close>

definition mset_insert :: "('a \<Rightarrow> 'a \<Rightarrow> bool) \<Rightarrow> 'a \<Rightarrow> 'a list \<Rightarrow> 'a list" where
  "mset_insert lt x xs = takeWhile (\<lambda>y. \<not> lt x y) xs @ x # dropWhile (\<lambda>y. \<not> lt x y) xs"

text \<open>\<open>std::list::sort\<close>, a stable sort: every element, from the last to the first, goes before
  the elements that are not smaller.\<close>

fun insert_before :: "('a \<Rightarrow> 'a \<Rightarrow> bool) \<Rightarrow> 'a \<Rightarrow> 'a list \<Rightarrow> 'a list" where
  "insert_before lt x [] = [x]"
| "insert_before lt x (y # ys) = (if lt y x then y # insert_before lt x ys else x # y # ys)"

definition list_sort :: "('a \<Rightarrow> 'a \<Rightarrow> bool) \<Rightarrow> 'a list \<Rightarrow> 'a list" where
  "list_sort lt xs = foldr (insert_before lt) xs []"

abbreviation sorted_by :: "('a \<Rightarrow> 'a \<Rightarrow> bool) \<Rightarrow> 'a list \<Rightarrow> bool" where
  "sorted_by lt \<equiv> sorted_wrt (\<lambda>x y. \<not> lt y x)"

lemma set_mset_insert: "set (mset_insert lt x xs) = insert x (set xs)"
  by (metis mset_insert_def set_append list.set(2) Un_insert_right takeWhile_dropWhile_id)

lemma mset_mset_insert: "mset (mset_insert lt x xs) = add_mset x (mset xs)"
proof -
  have "mset xs = mset (takeWhile (\<lambda>y. \<not> lt x y) xs) + mset (dropWhile (\<lambda>y. \<not> lt x y) xs)"
    by (metis mset_append takeWhile_dropWhile_id)
  then show ?thesis by (simp add: mset_insert_def)
qed

lemma mset_insert_before: "mset (insert_before lt x xs) = add_mset x (mset xs)"
  by (induction lt x xs rule: insert_before.induct) auto

lemma list_sort_single [simp]: "list_sort lt [x] = [x]"
  by (simp add: list_sort_def)

lemma mset_list_sort: "mset (list_sort lt xs) = mset xs"
  by (induction xs) (auto simp: list_sort_def mset_insert_before)

lemma set_list_sort [simp]: "set (list_sort lt xs) = set xs"
  by (metis mset_list_sort set_mset_mset)

lemma length_list_sort [simp]: "length (list_sort lt xs) = length xs"
  by (metis mset_list_sort size_mset)

lemma sorted_wrt_glue:
  assumes "sorted_wrt R ts" and "sorted_wrt R ds" and "\<forall>a \<in> set ts. \<forall>b \<in> set ds. R a b"
    and "\<forall>a \<in> set ts. R a x" and "\<forall>b \<in> set ds. R x b"
  shows "sorted_wrt R (ts @ x # ds)"
  using assms by (auto simp: sorted_wrt_append)

locale strict_weak_order =
  fixes lt :: "'a \<Rightarrow> 'a \<Rightarrow> bool"
  assumes lt_asym: "lt x y \<Longrightarrow> \<not> lt y x"
    and lt_trans: "lt x y \<Longrightarrow> lt y z \<Longrightarrow> lt x z"
    and nlt_trans: "\<not> lt x y \<Longrightarrow> \<not> lt y z \<Longrightarrow> \<not> lt x z"
begin

lemma lt_irrefl: "\<not> lt x x"
  using lt_asym by blast

lemma sorted_insert:
  assumes "sorted_by lt xs"
  shows "sorted_by lt (mset_insert lt x xs)"
proof -
  let ?P = "\<lambda>y. \<not> lt x y"
  have "sorted_by lt (takeWhile ?P xs @ dropWhile ?P xs)" using assms by simp
  then have parts: "sorted_by lt (takeWhile ?P xs)" "sorted_by lt (dropWhile ?P xs)"
    "\<forall>a \<in> set (takeWhile ?P xs). \<forall>b \<in> set (dropWhile ?P xs). \<not> lt b a"
    by (auto simp only: sorted_wrt_append)
  have before: "\<forall>a \<in> set (takeWhile ?P xs). \<not> lt x a"
    by (auto dest: set_takeWhileD)
  have after: "\<forall>b \<in> set (dropWhile ?P xs). \<not> lt b x"
  proof (cases "dropWhile ?P xs")
    case Nil
    show ?thesis by (subst Nil) simp
  next
    case (Cons c cs)
    then have "lt x c" by (metis dropWhile_eq_Cons_conv)
    moreover have "\<forall>b \<in> set cs. \<not> lt b c" using parts(2) Cons by simp
    ultimately show ?thesis using Cons lt_asym nlt_trans by (metis set_ConsD)
  qed
  show ?thesis
    unfolding mset_insert_def
    by (rule sorted_wrt_glue [OF parts(1,2,3) before after])
qed

lemma sorted_insert_before: "sorted_by lt xs \<Longrightarrow> sorted_by lt (insert_before lt x xs)"
proof (induction xs)
  case Nil
  then show ?case by simp
next
  case (Cons y ys)
  have set: "set (insert_before lt x ys) = insert x (set ys)"
    by (metis mset_insert_before set_mset_add_mset_insert set_mset_mset)
  have ys: "\<forall>z \<in> set ys. \<not> lt z y" "sorted_by lt ys" using Cons.prems by auto
  show ?case
  proof (cases "lt y x")
    case True
    with Cons.IH ys set lt_asym [OF True] show ?thesis by simp
  next
    case False
    then have "\<forall>z \<in> set ys. \<not> lt z x" using ys(1) nlt_trans by blast
    with False ys show ?thesis by simp
  qed
qed

lemma sorted_list_sort: "sorted_by lt (list_sort lt xs)"
  by (induction xs) (auto simp: list_sort_def intro: sorted_insert_before)

text \<open>The sort is stable: the elements equivalent to a given one keep their order.\<close>

lemma filter_insert_before:
  "filter (\<lambda>y. \<not> lt y e \<and> \<not> lt e y) (insert_before lt x xs) =
   (if \<not> lt x e \<and> \<not> lt e x then x # filter (\<lambda>y. \<not> lt y e \<and> \<not> lt e y) xs
    else filter (\<lambda>y. \<not> lt y e \<and> \<not> lt e y) xs)"
proof (induction xs)
  case Nil
  then show ?case by simp
next
  case (Cons y ys)
  show ?case
  proof (cases "lt y x")
    case True
    then have "\<not> (\<not> lt x e \<and> \<not> lt e x \<and> \<not> lt y e \<and> \<not> lt e y)" using nlt_trans by blast
    with True Cons show ?thesis by auto
  next
    case False
    then show ?thesis by simp
  qed
qed

lemma list_sort_stable:
  "filter (\<lambda>y. \<not> lt y e \<and> \<not> lt e y) (list_sort lt xs) =
   filter (\<lambda>y. \<not> lt y e \<and> \<not> lt e y) xs"
  by (induction xs) (auto simp: list_sort_def filter_insert_before)

lemma sorted_head_min: "sorted_by lt (x # xs) \<Longrightarrow> y \<in> set (x # xs) \<Longrightarrow> \<not> lt y x"
  using lt_irrefl by auto

end

text \<open>\<open>std::less\<close> on a linear order meets the requirement; so does any comparison by a key of
  such an order.\<close>

lemma key_strict_weak_order: "strict_weak_order (\<lambda>a b. key a < (key b :: 'k::linorder))"
  by unfold_locales auto

end
