(* ===== verification/Migration.thy ===== *)
theory Migration
  imports Containers
begin

text \<open>
  \<open>components/migration\<close>: versions, migration tasks and the manager that runs them
  (\<open>migration_task.hh\<close>, \<open>migration_task.cc\<close>, \<open>migration_manager.cc\<close>).  The user's
  functions are \<open>std::function\<close> objects over a state of the application, the type variable
  \<open>'s\<close>: a migration function returns a \<open>bool\<close> or throws, and leaves a new
  state.  The
  multiset of tasks is the list of its elements in iteration order.
\<close>

section \<open>Versions\<close>

record version =
  gen :: int
  major :: int
  minor :: int
  build :: int

definition mk_version :: "int \<Rightarrow> int \<Rightarrow> int \<Rightarrow> int \<Rightarrow> version" where
  "mk_version g ma mi b = \<lparr>gen = g, major = ma, minor = mi, build = b\<rparr>"

definition version_plus :: "int \<Rightarrow> version \<Rightarrow> version" where
  "version_plus val v = v\<lparr>major := major v + val, minor := 0\<rparr>"

definition version_inc :: "version \<Rightarrow> version" where "version_inc v = version_plus 1 v"
definition version_dec :: "version \<Rightarrow> version" where "version_dec v = version_plus (- 1) v"

definition version_lt :: "version \<Rightarrow> version \<Rightarrow> bool" where
  "version_lt a b = (if gen a = gen b then major a < major b else gen a < gen b)"

definition version_eq :: "version \<Rightarrow> version \<Rightarrow> bool" where
  "version_eq a b \<longleftrightarrow> gen a = gen b \<and> major a = major b"

definition version_le :: "version \<Rightarrow> version \<Rightarrow> bool" where
  "version_le a b \<longleftrightarrow> version_lt a b \<or> version_eq a b"

definition version_toString :: "version \<Rightarrow> string" where
  "version_toString v =
     show_int (gen v) @ ''.'' @ show_int (major v) @ ''.'' @ show_int (minor v) @ ''.'' @ show_int (build v)"

interpretation version: strict_weak_order version_lt
  by unfold_locales (auto simp: version_lt_def split: if_splits)

lemma version_le_not_lt: "version_le a b \<longleftrightarrow> \<not> version_lt b a"
  by (auto simp: version_le_def version_lt_def version_eq_def)

lemma version_eq_not_lt: "version_eq a b \<longleftrightarrow> \<not> version_lt a b \<and> \<not> version_lt b a"
  by (auto simp: version_lt_def version_eq_def)

section \<open>Tasks\<close>

type_synonym 's migrate_func = "'s \<Rightarrow> bool res \<times> 's"

record 's task =
  task_version :: version
  updateFunc :: "'s migrate_func option"
  rollbackFunc :: "'s migrate_func option"
  task_description :: string

datatype action = Update | Rollback

definition task_apply :: "action \<Rightarrow> 's task \<Rightarrow> 's \<Rightarrow> bool res \<times> 's" where
  "task_apply a t s =
     (case a of
        Update \<Rightarrow> (case updateFunc t of Some f \<Rightarrow> f s | None \<Rightarrow> (Inr True, s))
      | Rollback \<Rightarrow> (case rollbackFunc t of Some f \<Rightarrow> f s | None \<Rightarrow> (Inr True, s)))"

text \<open>The constructor describes the task by the demangled types of its functions, an argument here.\<close>

definition task_new ::
  "('s migrate_func \<Rightarrow> string) \<Rightarrow> version \<Rightarrow> 's migrate_func option \<Rightarrow> 's migrate_func option \<Rightarrow> 's task" where
  "task_new type_name to upgradeFunc rbFunc =
     (let updateStr = (case upgradeFunc of Some f \<Rightarrow> '' Update('' @ type_name f @ '')'' | None \<Rightarrow> []);
          rollbackStr = (case rbFunc of Some f \<Rightarrow> '' Rollback('' @ type_name f @ '')'' | None \<Rightarrow> [])
      in \<lparr>task_version = to, updateFunc = upgradeFunc, rollbackFunc = rbFunc,
          task_description = ''Task'' @ updateStr @ rollbackStr\<rparr>)"

definition setUpdateFunc :: "'s migrate_func option \<Rightarrow> 's task \<Rightarrow> 's task" where
  "setUpdateFunc f t = t\<lparr>updateFunc := f\<rparr>"

definition setRollbackFunc :: "'s migrate_func option \<Rightarrow> 's task \<Rightarrow> 's task" where
  "setRollbackFunc f t = t\<lparr>rollbackFunc := f\<rparr>"

definition setDescription :: "string \<Rightarrow> 's task \<Rightarrow> 's task" where
  "setDescription txt t = t\<lparr>task_description := txt\<rparr>"

definition compareTasks :: "'s task \<Rightarrow> 's task \<Rightarrow> bool" where
  "compareTasks l r = version_lt (task_version l) (task_version r)"

interpretation tasks: strict_weak_order compareTasks
  by unfold_locales
    (auto simp: compareTasks_def intro: version.lt_trans dest: version.lt_asym version.nlt_trans)

section \<open>The manager\<close>

record 's manager =
  mtasks :: "'s task list"
  loadVFunc :: "('s \<Rightarrow> version) option"
  saveVFunc :: "(version \<Rightarrow> 's \<Rightarrow> bool \<times> 's) option"

definition manager_new :: "'s manager" where
  "manager_new = \<lparr>mtasks = [], loadVFunc = None, saveVFunc = None\<rparr>"

definition addTask :: "'s task option \<Rightarrow> 's manager \<Rightarrow> cpp_error + 's manager" where
  "addTask t m =
     (case t of None \<Rightarrow> Inl LogicError
      | Some t \<Rightarrow> Inr (m\<lparr>mtasks := mset_insert compareTasks t (mtasks m)\<rparr>))"

definition addTask_funcs ::
  "version \<Rightarrow> string \<Rightarrow> 's migrate_func option \<Rightarrow> 's migrate_func option \<Rightarrow> 's manager
     \<Rightarrow> cpp_error + 's manager" where
  "addTask_funcs to description upgradeFunc rbFunc m =
     (if upgradeFunc = None \<and> rbFunc = None then Inl LogicError
      else addTask (Some \<lparr>task_version = to, updateFunc = upgradeFunc, rollbackFunc = rbFunc,
                          task_description = description\<rparr>) m)"

text \<open>The task it makes is the one of the constructor, whose description is replaced.\<close>

lemma addTask_funcs_made:
  "u \<noteq> None \<or> r \<noteq> None \<Longrightarrow>
     addTask_funcs v d u r m = addTask (Some (setDescription d (task_new type_name v u r))) m"
  by (auto simp: addTask_funcs_def task_new_def setDescription_def)

definition clear_tasks :: "'s manager \<Rightarrow> 's manager" where
  "clear_tasks m = m\<lparr>mtasks := []\<rparr>"

definition setLoadVersionFunction :: "('s \<Rightarrow> version) option \<Rightarrow> 's manager \<Rightarrow> 's manager" where
  "setLoadVersionFunction f m = m\<lparr>loadVFunc := f\<rparr>"

definition setSaveVersionFunction ::
  "(version \<Rightarrow> 's \<Rightarrow> bool \<times> 's) option \<Rightarrow> 's manager \<Rightarrow> 's manager" where
  "setSaveVersionFunction f m = m\<lparr>saveVFunc := f\<rparr>"

definition checkCallbacks :: "'s manager \<Rightarrow> cpp_error + unit" where
  "checkCallbacks m =
     (if loadVFunc m = None then Inl LogicError
      else if saveVFunc m = None then Inl LogicError else Inr ())"

text \<open>Calling an empty \<open>std::function\<close> throws \<open>std::bad_function_call\<close>, here \<open>None\<close>.\<close>

definition currentVersion :: "'s manager \<Rightarrow> 's \<Rightarrow> version option" where
  "currentVersion m s = map_option (\<lambda>load. load s) (loadVFunc m)"

definition latestVersion :: "'s manager \<Rightarrow> cpp_error + version" where
  "latestVersion m = (if mtasks m = [] then Inl LogicError else Inr (task_version (last (mtasks m))))"

definition allAddedTaskVersionList :: "'s manager \<Rightarrow> version list" where
  "allAddedTaskVersionList m = map task_version (mtasks m)"

text \<open>The changesets: \<open>std::lower_bound\<close> from the end for a rollback, \<open>std::upper_bound\<close> for an
  update, then the loop up to its \<open>break\<close>.\<close>

definition rollback_changeset :: "version \<Rightarrow> version \<Rightarrow> 's task list \<Rightarrow> 's task list" where
  "rollback_changeset nextV currentV ts =
     takeWhile (\<lambda>t. \<not> version_lt (task_version t) nextV)
       (partition_from (\<lambda>t. \<not> version_lt currentV (task_version t)) (rev ts))"

definition update_changeset :: "version \<Rightarrow> version \<Rightarrow> 's task list \<Rightarrow> 's task list" where
  "update_changeset nextV currentV ts =
     takeWhile (\<lambda>t. \<not> version_lt nextV (task_version t))
       (partition_from (\<lambda>t. version_lt currentV (task_version t)) ts)"

text \<open>The loop that applies a changeset stops at the first task that returns false or throws, and
  keeps the version of the last one that succeeded.\<close>

fun apply_changeset ::
  "action \<Rightarrow> 's task list \<Rightarrow> version \<Rightarrow> 's \<Rightarrow> version res \<times> 's" where
  "apply_changeset a [] lastOk s = (Inr lastOk, s)"
| "apply_changeset a (t # ts) lastOk s =
     (case task_apply a t s of
        (Inr True, s') \<Rightarrow> apply_changeset a ts (task_version t) s'
      | (Inr False, s') \<Rightarrow> (Inr lastOk, s')
      | (Inl e, s') \<Rightarrow> (if catches e then (Inr lastOk, s') else (Inl e, s')))"

definition checkout_to :: "'s manager \<Rightarrow> version \<Rightarrow> 's \<Rightarrow> version res \<times> 's" where
  "checkout_to m nextV s =
     (case (loadVFunc m, saveVFunc m) of
        (Some load, Some save) \<Rightarrow>
          (let currentV = load s in
           if version_eq nextV currentV then (Inr currentV, snd (save currentV s))
           else
             (let (a, cs) = (if version_lt nextV currentV
                then (Rollback, rollback_changeset nextV currentV (mtasks m))
                else (Update, update_changeset nextV currentV (mtasks m)))
              in case apply_changeset a cs currentV s of
                   (Inr v, s') \<Rightarrow> (Inr v, snd (save v s'))
                 | (Inl e, s') \<Rightarrow> (Inl e, s')))
      | _ \<Rightarrow> (Inl (Thrown LogicError), s))"

text \<open>Both functions are checked before anything else; after that the current version is known.\<close>

lemma checkout_to_checks:
  "checkCallbacks m = Inl e \<Longrightarrow> checkout_to m v s = (Inl (Thrown e), s)"
  by (auto simp: checkCallbacks_def checkout_to_def split: if_splits option.splits)

lemma checkCallbacks_ok: "checkCallbacks m = Inr () \<Longrightarrow> currentVersion m s \<noteq> None"
  by (auto simp: checkCallbacks_def currentVersion_def split: if_splits)

definition checkout :: "'s manager \<Rightarrow> 's \<Rightarrow> version res \<times> 's" where
  "checkout m s = (case latestVersion m of Inl e \<Rightarrow> (Inl (Thrown e), s) | Inr v \<Rightarrow> checkout_to m v s)"

section \<open>The task list stays ordered\<close>

definition manager_inv :: "'s manager \<Rightarrow> bool" where
  "manager_inv m \<longleftrightarrow> sorted_by compareTasks (mtasks m)"

lemma manager_inv_new [simp]: "manager_inv manager_new"
  by (simp add: manager_inv_def manager_new_def)

lemma addTask_inv: "manager_inv m \<Longrightarrow> addTask t m = Inr m' \<Longrightarrow> manager_inv m'"
  by (auto simp: manager_inv_def addTask_def tasks.sorted_insert split: option.splits)

lemma addTask_funcs_inv: "manager_inv m \<Longrightarrow> addTask_funcs v d u r m = Inr m' \<Longrightarrow> manager_inv m'"
  by (auto simp: addTask_funcs_def intro: addTask_inv split: if_splits)

lemma version_lt_up: "version_lt c a \<Longrightarrow> \<not> version_lt b a \<Longrightarrow> version_lt c b"
  using version.nlt_trans by blast

lemma version_lt_down: "version_lt b c \<Longrightarrow> \<not> version_lt b a \<Longrightarrow> version_lt a c"
  using version.nlt_trans by blast

lemma update_changeset_filter:
  assumes "sorted_by compareTasks ts"
  shows "update_changeset nextV currentV ts =
    filter (\<lambda>t. version_lt currentV (task_version t) \<and> version_le (task_version t) nextV) ts"
proof -
  have "partition_from (\<lambda>t. version_lt currentV (task_version t)) ts =
      filter (\<lambda>t. version_lt currentV (task_version t)) ts"
    by (rule partition_from_filter [OF assms]) (unfold compareTasks_def, rule version_lt_up)
  moreover have "sorted_by compareTasks (filter (\<lambda>t. version_lt currentV (task_version t)) ts)"
    using assms by (rule sorted_wrt_filter)
  from this have "takeWhile (\<lambda>t. \<not> version_lt nextV (task_version t))
      (filter (\<lambda>t. version_lt currentV (task_version t)) ts) =
    filter (\<lambda>t. \<not> version_lt nextV (task_version t))
      (filter (\<lambda>t. version_lt currentV (task_version t)) ts)"
    by (rule takeWhile_filter) (unfold compareTasks_def not_not, rule version_lt_up)
  ultimately show ?thesis
    by (simp add: update_changeset_def version_le_not_lt conj_commute)
qed

lemma rollback_changeset_filter:
  assumes "sorted_by compareTasks ts"
  shows "rollback_changeset nextV currentV ts =
    filter (\<lambda>t. version_le nextV (task_version t) \<and> version_le (task_version t) currentV) (rev ts)"
proof -
  have srt: "sorted_wrt (\<lambda>x y. \<not> compareTasks x y) (rev ts)"
    using assms by (simp add: sorted_wrt_rev)
  then have "partition_from (\<lambda>t. \<not> version_lt currentV (task_version t)) (rev ts) =
      filter (\<lambda>t. \<not> version_lt currentV (task_version t)) (rev ts)"
    by (rule partition_from_filter) (unfold compareTasks_def, rule version.nlt_trans)
  moreover have "sorted_wrt (\<lambda>x y. \<not> compareTasks x y)
      (filter (\<lambda>t. \<not> version_lt currentV (task_version t)) (rev ts))"
    using srt by (rule sorted_wrt_filter)
  from this have "takeWhile (\<lambda>t. \<not> version_lt (task_version t) nextV)
      (filter (\<lambda>t. \<not> version_lt currentV (task_version t)) (rev ts)) =
    filter (\<lambda>t. \<not> version_lt (task_version t) nextV)
      (filter (\<lambda>t. \<not> version_lt currentV (task_version t)) (rev ts))"
    by (rule takeWhile_filter) (unfold compareTasks_def not_not, rule version_lt_down)
  ultimately show ?thesis
    by (simp add: rollback_changeset_def version_le_not_lt conj_commute)
qed

section \<open>What a checkout does\<close>

text \<open>The abstract account of applying a changeset: the tasks run in order, the longest prefix
  whose tasks all return true succeeds, the version of its last task is the new one.\<close>

fun run_tasks :: "action \<Rightarrow> 's task list \<Rightarrow> 's \<Rightarrow> (bool \<times> 's)" where
  "run_tasks a [] s = (True, s)"
| "run_tasks a (t # ts) s =
     (case task_apply a t s of (Inr True, s') \<Rightarrow> run_tasks a ts s' | (_, s') \<Rightarrow> (False, s'))"

lemma apply_changeset_prefix:
  assumes "apply_changeset a cs v s = (Inr w, s')"
  shows "\<exists>ok rest s1. cs = ok @ rest \<and> run_tasks a ok s = (True, s1)
    \<and> w = last (v # map task_version ok)
    \<and> (rest = [] \<and> s' = s1 \<or> rest \<noteq> [] \<and> (\<exists>r. task_apply a (hd rest) s1 = (r, s') \<and> r \<noteq> Inr True))"
  using assms
proof (induction cs arbitrary: v s)
  case Nil
  then show ?case by simp
next
  case (Cons t ts)
  obtain r s2 where r: "task_apply a t s = (r, s2)" by (cases "task_apply a t s")
  show ?case
  proof (cases "r = Inr True")
    case True
    with Cons.prems r have "apply_changeset a ts (task_version t) s2 = (Inr w, s')" by simp
    from Cons.IH [OF this] obtain ok rest s1 where "ts = ok @ rest" "run_tasks a ok s2 = (True, s1)"
      "w = last (task_version t # map task_version ok)"
      "rest = [] \<and> s' = s1 \<or> rest \<noteq> [] \<and> (\<exists>r. task_apply a (hd rest) s1 = (r, s') \<and> r \<noteq> Inr True)"
      by blast
    with True r show ?thesis by (intro exI [of _ "t # ok"] exI [of _ rest]) auto
  next
    case False
    with Cons.prems r show ?thesis
      by (intro exI [of _ "[]"] exI [of _ "t # ts"]) (auto split: sum.splits bool.splits if_splits)
  qed
qed

lemma apply_changeset_all:
  "run_tasks a cs s = (True, s') \<Longrightarrow> apply_changeset a cs v s = (Inr (last (v # map task_version cs)), s')"
proof (induction cs arbitrary: v s)
  case Nil
  then show ?case by simp
next
  case (Cons t ts)
  then show ?case by (auto split: prod.splits sum.splits bool.splits)
qed

text \<open>What is left to run on the way to a target version.\<close>

definition changeset :: "'s manager \<Rightarrow> version \<Rightarrow> version \<Rightarrow> 's task list" where
  "changeset m currentV nextV =
     (if version_lt nextV currentV
      then filter (\<lambda>t. version_le nextV (task_version t) \<and> version_le (task_version t) currentV)
             (rev (mtasks m))
      else filter (\<lambda>t. version_lt currentV (task_version t) \<and> version_le (task_version t) nextV)
             (mtasks m))"

definition direction :: "version \<Rightarrow> version \<Rightarrow> action" where
  "direction currentV nextV = (if version_lt nextV currentV then Rollback else Update)"

lemma changeset_same: "version_eq nextV currentV \<Longrightarrow> changeset m currentV nextV = []"
  by (auto simp: changeset_def version_eq_not_lt version_le_not_lt filter_empty_conv
      dest: version.nlt_trans)

lemma checkout_to_changeset:
  assumes "manager_inv m" and "loadVFunc m = Some load" and "saveVFunc m = Some save"
    and "\<not> version_eq nextV (load s)"
  shows "checkout_to m nextV s =
    (case apply_changeset (direction (load s) nextV) (changeset m (load s) nextV) (load s) s of
       (Inr v, s') \<Rightarrow> (Inr v, snd (save v s')) | (Inl e, s') \<Rightarrow> (Inl e, s'))"
  using assms unfolding manager_inv_def
  by (simp add: checkout_to_def Let_def direction_def changeset_def rollback_changeset_filter
      update_changeset_filter)


lemma changeset_reaches:
  assumes "manager_inv m" and "t \<in> set (mtasks m)" and "version_eq (task_version t) nextV"
    and "\<not> version_eq nextV currentV"
  shows "t \<in> set (changeset m currentV nextV)"
    and "version_eq (last (currentV # map task_version (changeset m currentV nextV))) nextV"
proof -
  let ?cs = "changeset m currentV nextV"
  show t: "t \<in> set ?cs"
    using assms(2-4)
    by (auto simp: changeset_def version_le_not_lt version_eq_not_lt
        dest: version_lt_up version_lt_down version.lt_asym)
  then have ne: "?cs \<noteq> []" by auto
  have "sorted_by compareTasks (mtasks m)" using assms(1) by (simp add: manager_inv_def)
  then have srt: "sorted_wrt (\<lambda>x y. if version_lt nextV currentV then \<not> compareTasks x y
      else \<not> compareTasks y x) ?cs"
    by (auto simp: changeset_def intro: sorted_wrt_filter simp: sorted_wrt_rev)
  obtain us l where cs: "?cs = us @ [l]" using ne by (metis rev_exhaust)
  have "l \<in> set ?cs" using cs by simp
  then have l: "\<not> version_lt (task_version l) nextV \<or> \<not> version_lt nextV currentV"
    "\<not> version_lt nextV (task_version l) \<or> version_lt nextV currentV"
    by (auto simp: changeset_def version_le_not_lt split: if_splits)
  have "t = l \<or> t \<in> set us" using t cs by auto
  then have "t = l \<or> (if version_lt nextV currentV then \<not> version_lt (task_version t) (task_version l)
      else \<not> version_lt (task_version l) (task_version t))"
    using srt unfolding cs by (auto simp: sorted_wrt_append compareTasks_def split: if_splits)
  then have "version_eq (task_version l) nextV"
    using l assms(3) by (auto simp: version_eq_def version_lt_def split: if_splits)
  with cs show "version_eq (last (currentV # map task_version ?cs)) nextV" by simp
qed

lemma latestVersion_last:
  "manager_inv m \<Longrightarrow> latestVersion m = Inr v \<Longrightarrow>
     (\<forall>t \<in> set (mtasks m). version_le (task_version t) v) \<and> (\<exists>t \<in> set (mtasks m). task_version t = v)"
proof -
  assume inv: "manager_inv m" and v: "latestVersion m = Inr v"
  then obtain us l where "mtasks m = us @ [l]" "v = task_version l"
    by (metis latestVersion_def rev_exhaust last_snoc Inr_inject Inl_Inr_False)
  with inv show ?thesis
    using version.lt_irrefl
    by (auto simp: manager_inv_def sorted_wrt_append compareTasks_def version_le_not_lt)
qed

section \<open>Properties\<close>

text \<open>the manager keeps its tasks ordered by version whatever the order they are added in
  and loses none, tasks of equal versions stay in the order they were added, and
  \<open>latestVersion\<close> is the greatest destination version.\<close>

theorem migration_task_order:
  assumes "manager_inv m" and "addTask (Some t) m = Inr m'" and "latestVersion m' = Inr v"
  shows "manager_inv m' \<and> mset (mtasks m') = add_mset t (mset (mtasks m))
    \<and> (\<exists>xs ys. mtasks m = xs @ ys \<and> mtasks m' = xs @ t # ys
         \<and> (\<forall>y \<in> set ys. version_lt (task_version t) (task_version y)))
    \<and> (\<forall>u \<in> set (mtasks m'). version_le (task_version u) v)"
proof -
  have inv: "manager_inv m'" using assms(1,2) by (rule addTask_inv)
  have m': "mtasks m' = mset_insert compareTasks t (mtasks m)"
    using assms(2) by (auto simp: addTask_def)
  let ?xs = "takeWhile (\<lambda>y. \<not> compareTasks t y) (mtasks m)"
  let ?ys = "dropWhile (\<lambda>y. \<not> compareTasks t y) (mtasks m)"
  have "?ys = filter (compareTasks t) (mtasks m)"
    using partition_from_filter [OF assms(1) [unfolded manager_inv_def], of "compareTasks t"]
    by (simp add: partition_from_def) (metis tasks.nlt_trans)
  then have "\<forall>y \<in> set ?ys. version_lt (task_version t) (task_version y)"
    by (simp add: compareTasks_def)
  then have "\<exists>xs ys. mtasks m = xs @ ys \<and> mtasks m' = xs @ t # ys
         \<and> (\<forall>y \<in> set ys. version_lt (task_version t) (task_version y))"
    using m' by (intro exI [of _ ?xs] exI [of _ ?ys]) (simp add: mset_insert_def)
  with inv m' latestVersion_last [OF inv assms(3)] show ?thesis
    by (simp add: mset_mset_insert)
qed

definition example_task :: "int \<Rightarrow> (version \<times> int list) task" where
  "example_task n = \<lparr>task_version = mk_version 0 n 0 0,
     updateFunc = Some (\<lambda>(v, l). (Inr True, (v, n # l))),
     rollbackFunc = Some (\<lambda>(v, l). (Inr True, (v, - n # l))), task_description = ''task''\<rparr>"

definition example_manager :: "(version \<times> int list) manager" where
  "example_manager = \<lparr>mtasks = [example_task 1, example_task 3], loadVFunc = Some fst,
     saveVFunc = Some (\<lambda>v s. (True, (v, snd s)))\<rparr>"

lemmas example_defs = example_manager_def example_task_def mk_version_def version_lt_def
  version_eq_def version_le_def compareTasks_def

lemma example_manager_inv: "manager_inv example_manager"
  by (simp add: manager_inv_def example_defs)

lemma migration_task_order_witness:
  "\<exists>m'. addTask (Some (example_task 2)) example_manager = Inr m' \<and>
     mset (mtasks m') = {#example_task 2, example_task 1, example_task 3#}"
proof -
  obtain m' where m': "addTask (Some (example_task 2)) example_manager = Inr m'"
    by (simp add: addTask_def)
  moreover from this have "latestVersion m' = Inr (mk_version 0 3 0 0)"
    by (auto simp: addTask_def mset_insert_def latestVersion_def example_defs)
  ultimately show ?thesis
    using migration_task_order [OF example_manager_inv] by (auto simp: example_manager_def)
qed

text \<open>C7: a checkout to a version runs the tasks between the current version (exclusive upwards,
  inclusive downwards) and that version, in ascending order with their update functions or in
  descending order with their rollback functions, up to the first that returns false or throws;
  it saves and returns the version of the last task that succeeded, or the current version when
  none did.\<close>

theorem checkout_to_correct:
  assumes "manager_inv m" and "loadVFunc m = Some load" and "saveVFunc m = Some save"
    and "checkout_to m nextV s = (Inr w, s')"
  shows "\<exists>ok rest s1. changeset m (load s) nextV = ok @ rest
    \<and> run_tasks (direction (load s) nextV) ok s = (True, s1)
    \<and> w = last (load s # map task_version ok)
    \<and> (rest = [] \<and> s' = snd (save w s1)
       \<or> rest \<noteq> [] \<and> (\<exists>r s2. task_apply (direction (load s) nextV) (hd rest) s1 = (r, s2)
            \<and> r \<noteq> Inr True \<and> s' = snd (save w s2)))"
proof (cases "version_eq nextV (load s)")
  case True
  with assms show ?thesis
    by (intro exI [of _ "[]"]) (auto simp: changeset_same checkout_to_def Let_def)
next
  case False
  let ?d = "direction (load s) nextV" and ?cs = "changeset m (load s) nextV"
  obtain s2 where a: "apply_changeset ?d ?cs (load s) s = (Inr w, s2)" "s' = snd (save w s2)"
    using assms(4) checkout_to_changeset [OF assms(1-3) False]
    by (auto split: prod.splits sum.splits)
  from apply_changeset_prefix [OF a(1)] a(2) show ?thesis by fast
qed

lemma checkout_to_correct_witness:
  "\<exists>s'. checkout_to example_manager (mk_version 0 3 0 0) (mk_version 0 1 0 0, []) = (Inr (mk_version 0 3 0 0), s')
     \<and> changeset example_manager (mk_version 0 1 0 0) (mk_version 0 3 0 0) = [example_task 3]
     \<and> snd s' = [3]"
proof -
  let ?s = "(mk_version 0 1 0 0, []) :: version \<times> int list"
  have c: "checkout_to example_manager (mk_version 0 3 0 0) ?s =
      (Inr (mk_version 0 3 0 0), (mk_version 0 3 0 0, [3]))"
    by (simp add: checkout_to_def update_changeset_def partition_from_def task_apply_def example_defs)
  have "changeset example_manager (fst ?s) (mk_version 0 3 0 0) = [example_task 3]"
    by (simp add: changeset_def example_defs)
  with c checkout_to_correct [OF example_manager_inv _ _ c, of fst] show ?thesis
    by (auto simp: example_manager_def)
qed

text \<open>when every task of the way succeeds, a checkout to the latest version arrives there, and
  a second checkout runs no task: it only saves that version again.  The callbacks are assumed
  to store what they are given (loading after saving returns the saved version).\<close>

theorem checkout_idempotent:
  assumes inv: "manager_inv m" and cb: "loadVFunc m = Some load" "saveVFunc m = Some save"
    and store: "\<And>v s. load (snd (save v s)) = v"
    and latest: "latestVersion m = Inr v"
    and ok: "run_tasks (direction (load s) v) (changeset m (load s) v) s = (True, s1)"
  shows "\<exists>w. version_eq w v \<and> checkout m s = (Inr w, snd (save w s1))
    \<and> checkout m (snd (save w s1)) = (Inr w, snd (save w (snd (save w s1))))"
proof -
  have again: "checkout m (snd (save w s1)) = (Inr w, snd (save w (snd (save w s1))))"
    if "version_eq w v" for w
    using that by (simp add: checkout_def latest checkout_to_def cb store version_eq_def Let_def)
  show ?thesis
  proof (cases "version_eq v (load s)")
    case True
    with ok have "s1 = s" by (simp add: changeset_same)
    with True again [of "load s"] show ?thesis
      by (intro exI [of _ "load s"]) (simp add: checkout_def latest checkout_to_def cb version_eq_def Let_def)
  next
    case False
    let ?w = "last (load s # map task_version (changeset m (load s) v))"
    obtain t where "t \<in> set (mtasks m)" "task_version t = v"
      using latestVersion_last [OF inv latest] by auto
    then have w: "version_eq ?w v"
      by (intro changeset_reaches(2) [OF inv]) (use False in \<open>auto simp: version_eq_def\<close>)
    have "checkout m s = (Inr ?w, snd (save ?w s1))"
      using checkout_to_changeset [OF inv cb False] apply_changeset_all [OF ok, of "load s"]
      by (simp add: checkout_def latest)
    with w again show ?thesis by blast
  qed
qed

lemma checkout_idempotent_witness:
  "\<exists>w s'. checkout example_manager (mk_version 0 0 0 0, []) = (Inr w, s')
     \<and> checkout example_manager s' = (Inr w, s') \<and> snd s' = [3, 1]"
proof -
  let ?s = "(mk_version 0 0 0 0, []) :: version \<times> int list" and ?v = "mk_version 0 3 0 0"
  let ?save = "\<lambda>v (s :: version \<times> int list). (True, (v, snd s))"
  have l: "latestVersion example_manager = Inr ?v"
    by (simp add: latestVersion_def example_defs)
  have ok: "run_tasks (direction (fst ?s) ?v) (changeset example_manager (fst ?s) ?v) ?s
      = (True, (fst ?s, [3, 1]))"
    by (simp add: direction_def changeset_def task_apply_def example_defs)
  have "loadVFunc example_manager = Some fst" "saveVFunc example_manager = Some ?save"
    by (simp_all add: example_manager_def)
  from checkout_idempotent [OF example_manager_inv this _ l ok] show ?thesis by fastforce
qed

text \<open>rolling back to the version of a task also runs that task's rollback function, but the
  version saved is the task's own, so no later update runs its update function again.\<close>

theorem rollback_not_redone:
  assumes inv: "manager_inv m" and cb: "loadVFunc m = Some load" "saveVFunc m = Some save"
    and t: "t \<in> set (mtasks m)" "version_lt (task_version t) (load s)"
    and ok: "run_tasks Rollback (changeset m (load s) (task_version t)) s = (True, s1)"
  shows "\<exists>w. checkout_to m (task_version t) s = (Inr w, snd (save w s1))
    \<and> version_eq w (task_version t)
    \<and> t \<in> set (changeset m (load s) (task_version t))
    \<and> (\<forall>u. \<not> version_lt u w \<longrightarrow> t \<notin> set (changeset m w u))"
proof -
  let ?v = "task_version t"
  let ?w = "last (load s # map task_version (changeset m (load s) ?v))"
  have ne: "\<not> version_eq ?v (load s)" using t(2) by (simp add: version_eq_not_lt)
  have eq: "version_eq ?v ?v" by (simp add: version_eq_def)
  note r = changeset_reaches [OF inv t(1) eq ne]
  have "checkout_to m ?v s = (Inr ?w, snd (save ?w s1))"
    using checkout_to_changeset [OF inv cb ne] t(2)
      apply_changeset_all [of Rollback "changeset m (load s) ?v" s s1 "load s"] ok
    by (simp add: direction_def)
  moreover have "t \<notin> set (changeset m ?w u)" if "\<not> version_lt u ?w" for u
    using that r(2) by (auto simp: changeset_def version_lt_def version_eq_def split: if_splits)
  ultimately show ?thesis using r by blast
qed

lemma rollback_not_redone_witness:
  "\<exists>w s'. checkout_to example_manager (mk_version 0 1 0 0) (mk_version 0 3 0 0, []) = (Inr w, s')
     \<and> snd s' = [-1, -3] \<and> example_task 1 \<notin> set (changeset example_manager w (mk_version 0 3 0 0))"
proof -
  let ?s = "(mk_version 0 3 0 0, []) :: version \<times> int list"
  let ?save = "\<lambda>v (s :: version \<times> int list). (True, (v, snd s))"
  have cb: "loadVFunc example_manager = Some fst" "saveVFunc example_manager = Some ?save"
    by (simp_all add: example_manager_def)
  have t: "example_task 1 \<in> set (mtasks example_manager)"
    "version_lt (task_version (example_task 1)) (fst ?s)" by (simp_all add: example_defs)
  have "run_tasks Rollback (changeset example_manager (fst ?s) (task_version (example_task 1))) ?s
      = (True, (fst ?s, [-1, -3]))"
    by (simp add: changeset_def task_apply_def example_defs)
  from rollback_not_redone [OF example_manager_inv cb t this]
  obtain w where w: "checkout_to example_manager (task_version (example_task 1)) ?s =
      (Inr w, snd (?save w (fst ?s, [-1, -3])))" "version_eq w (task_version (example_task 1))"
    "\<forall>u. \<not> version_lt u w \<longrightarrow> example_task 1 \<notin> set (changeset example_manager w u)" by blast
  moreover have "task_version (example_task 1) = mk_version 0 1 0 0" by (simp add: example_task_def)
  moreover have "\<not> version_lt (mk_version 0 3 0 0) w"
    using w(2) by (auto simp: version_eq_def version_lt_def example_task_def mk_version_def)
  ultimately show ?thesis by auto
qed

end
