(* ===== verification/Logging.thy ===== *)
theory Logging
  imports Containers Stdutils
begin

text \<open>
  \<open>components/logging\<close>: the levels and their parsing (\<open>logger_interface.cc\<close>), the logger
  with its filter taken from \<open>SC_LOG_FILTER\<close> (\<open>log.cc\<close>) and what the system logger does with
  a level (\<open>system_logger.cc\<close>).  Formatting is \<open>vsnprintf\<close>: a message enters the model as the
  text it formats to, and is cut to the 2047 characters the buffer holds.
\<close>

section \<open>Levels\<close>

datatype log_level = NONE | FATAL | CRITICAL | ERROR | WARNING | INFO | DEBUG | TRACE

text \<open>The underlying integer of the enumeration; \<open>operator<=\<close> on levels compares it.\<close>

fun level_num :: "log_level \<Rightarrow> nat" where
  "level_num NONE = 0"
| "level_num FATAL = 1"
| "level_num CRITICAL = 2"
| "level_num ERROR = 3"
| "level_num WARNING = 4"
| "level_num INFO = 5"
| "level_num DEBUG = 6"
| "level_num TRACE = 7"

instantiation log_level :: linorder
begin

definition less_eq_log_level :: "log_level \<Rightarrow> log_level \<Rightarrow> bool" where
  "less_eq_log_level a b \<longleftrightarrow> level_num a \<le> level_num b"

definition less_log_level :: "log_level \<Rightarrow> log_level \<Rightarrow> bool" where
  "less_log_level a b \<longleftrightarrow> level_num a < level_num b"

instance
proof
  fix a b :: log_level
  show "a \<le> b \<Longrightarrow> b \<le> a \<Longrightarrow> a = b"
    by (cases a; cases b) (simp_all add: less_eq_log_level_def)
qed (auto simp: less_eq_log_level_def less_log_level_def)

end

definition STR_TO_LOGLEVEL :: "(string \<times> log_level) list" where
  "STR_TO_LOGLEVEL =
     [(''none'', NONE), (''fatal'', FATAL), (''critical'', CRITICAL), (''error'', ERROR),
      (''warning'', WARNING), (''info'', INFO), (''debug'', DEBUG), (''trace'', TRACE)]"

definition NUM_TO_LOGLEVEL :: "(int \<times> log_level) list" where
  "NUM_TO_LOGLEVEL =
     [(0, NONE), (1, FATAL), (2, CRITICAL), (3, ERROR), (4, WARNING), (5, INFO), (6, DEBUG),
      (7, TRACE)]"

definition LOGLEVEL_TO_CHAR :: "(log_level \<times> char) list" where
  "LOGLEVEL_TO_CHAR =
     [(NONE, CHR 0x00), (FATAL, CHR ''F''), (CRITICAL, CHR ''C''), (ERROR, CHR ''E''),
      (WARNING, CHR ''W''), (INFO, CHR ''I''), (DEBUG, CHR ''D''), (TRACE, CHR ''T'')]"

definition logLevelFromString :: "string \<Rightarrow> cpp_error + log_level" where
  "logLevelFromString str =
     (case map_of STR_TO_LOGLEVEL str of
        Some l \<Rightarrow> Inr l
      | None \<Rightarrow>
          (case std_stoi str of
             Inl e \<Rightarrow> Inl e
           | Inr n \<Rightarrow> (case map_of NUM_TO_LOGLEVEL n of Some l \<Rightarrow> Inr l | None \<Rightarrow> Inl LogicError)))"

definition logLevelToChar :: "log_level \<Rightarrow> cpp_error + char" where
  "logLevelToChar level =
     (case map_of LOGLEVEL_TO_CHAR level of Some c \<Rightarrow> Inr c | None \<Rightarrow> Inl OutOfRange)"

definition level_name :: "log_level \<Rightarrow> string" where
  "level_name l = fst (the (find (\<lambda>e. snd e = l) STR_TO_LOGLEVEL))"

lemma level_name_code:
  "level_name l = (case l of NONE \<Rightarrow> ''none'' | FATAL \<Rightarrow> ''fatal'' | CRITICAL \<Rightarrow> ''critical''
     | ERROR \<Rightarrow> ''error'' | WARNING \<Rightarrow> ''warning'' | INFO \<Rightarrow> ''info'' | DEBUG \<Rightarrow> ''debug''
     | TRACE \<Rightarrow> ''trace'')"
  by (cases l) (simp_all add: level_name_def STR_TO_LOGLEVEL_def)

lemma logLevelFromString_name: "logLevelFromString (level_name l) = Inr l"
  by (cases l) (simp_all add: level_name_code logLevelFromString_def STR_TO_LOGLEVEL_def)

lemma logLevelFromString_num: "logLevelFromString (show_int (int (level_num l))) = Inr l"
proof -
  have "map_of STR_TO_LOGLEVEL (show_int (int (level_num l))) = None"
    by (cases l) (simp_all add: STR_TO_LOGLEVEL_def show_int_def show_nat.simps)
  moreover have "std_stoi (show_int (int (level_num l))) = Inr (int (level_num l))"
    by (rule std_stoi_show_int; cases l; simp add: INT_MIN_def INT_MAX_def)
  ultimately show ?thesis
    by (cases l) (simp_all add: logLevelFromString_def NUM_TO_LOGLEVEL_def)
qed

section \<open>The logger\<close>

record log_state =
  log_level_of :: log_level
  domain_filter :: "(string, log_level) omap"
  raise_on_error :: bool
  raise_on_warning :: bool

text \<open>One entry of the filter: a level for every domain, or \<open>domain:level\<close>.  The right-hand side
  is evaluated first (C++11 leaves the order open), so a bad level leaves the map as it was.\<close>

definition apply_filter :: "string \<Rightarrow> log_state \<Rightarrow> cpp_error + log_state" where
  "apply_filter single s =
     (case find_first (\<lambda>c. c = CHR '':'') single of
        None \<Rightarrow> (case logLevelFromString single of
            Inl e \<Rightarrow> Inl e
          | Inr l \<Rightarrow> Inr (s\<lparr>log_level_of := l\<rparr>))
      | Some p \<Rightarrow> (case logLevelFromString (drop (p + 1) single) of
            Inl e \<Rightarrow> Inl e
          | Inr l \<Rightarrow> Inr (s\<lparr>domain_filter := omap_set (take p single) l (domain_filter s)\<rparr>)))"

text \<open>The loop over the entries; an exception ends it and keeps what was set.\<close>

fun apply_filters :: "string list \<Rightarrow> log_state \<Rightarrow> log_state" where
  "apply_filters [] s = s"
| "apply_filters (f # fs) s = (case apply_filter f s of Inl _ \<Rightarrow> s | Inr s' \<Rightarrow> apply_filters fs s')"

text \<open>The constructor, given the three environment variables.\<close>

definition log_new :: "string option \<Rightarrow> bool \<Rightarrow> bool \<Rightarrow> log_state" where
  "log_new SC_LOG_FILTER on_error on_warning =
     (let s = \<lparr>log_level_of = DEBUG, domain_filter = [], raise_on_error = False, raise_on_warning = False\<rparr>;
          s' = (case SC_LOG_FILTER of Some f \<Rightarrow> apply_filters (string_split f CHR '','') s | None \<Rightarrow> s)
      in s'\<lparr>raise_on_error := on_error, raise_on_warning := on_warning\<rparr>)"

definition set_level :: "log_level \<Rightarrow> log_state \<Rightarrow> log_state" where
  "set_level l s = s\<lparr>log_level_of := l\<rparr>"

text \<open>\<open>MessageV\<close>: what is handed to the logger interface, and whether SIGTRAP is raised.\<close>

definition MessageV :: "log_level \<Rightarrow> string option \<Rightarrow> string \<Rightarrow> log_state
    \<Rightarrow> (log_level \<times> string \<times> string) option \<times> bool" where
  "MessageV level domain text s =
     (let severity_level = (case domain of
              Some d \<Rightarrow> (case map_of (domain_filter s) d of Some l \<Rightarrow> l | None \<Rightarrow> log_level_of s)
            | None \<Rightarrow> log_level_of s);
          dom = (case domain of Some d \<Rightarrow> d | None \<Rightarrow> [])
      in (if level \<le> severity_level then Some (level, dom, take 2047 text) else None,
          (raise_on_error s \<and> level = ERROR) \<or> (raise_on_warning s \<and> level = WARNING)))"

text \<open>\<open>SystemLogger::log\<close>: the syslog priority a level goes out with, if any.\<close>

datatype syslog_priority = LOG_ALERT | LOG_CRIT | LOG_ERR | LOG_WARNING | LOG_INFO | LOG_DEBUG

fun system_log :: "log_level \<Rightarrow> string \<Rightarrow> string \<Rightarrow> (syslog_priority \<times> string) option" where
  "system_log DEBUG name msg = Some (LOG_DEBUG, ''['' @ name @ ''] '' @ msg)"
| "system_log INFO name msg = Some (LOG_INFO, ''['' @ name @ ''] '' @ msg)"
| "system_log WARNING name msg = Some (LOG_WARNING, ''['' @ name @ ''] '' @ msg)"
| "system_log ERROR name msg = Some (LOG_ERR, ''['' @ name @ ''] '' @ msg)"
| "system_log CRITICAL name msg = Some (LOG_CRIT, ''['' @ name @ ''] '' @ msg)"
| "system_log FATAL name msg = Some (LOG_ALERT, ''['' @ name @ ''] '' @ msg)"
| "system_log _ name msg = None"

text \<open>\<open>SystemLogger\<close>: the name given to \<open>openlog\<close>, and its options and facility.\<close>

definition openlog_arguments :: "(string \<Rightarrow> string option) \<Rightarrow> string \<Rightarrow> int \<Rightarrow> int \<Rightarrow> int \<Rightarrow> int \<Rightarrow> string \<times> int \<times> int" where
  "openlog_arguments getenv ident options facility default_options LOG_USER =
     (let prefix = (if ident = [] then getenv ''LOG_PREFIX'' else Some (c_str ident))
      in (case prefix of Some p \<Rightarrow> p | None \<Rightarrow> ''softeq'',
          if options = 0 then default_options else options, if facility = 0 then LOG_USER else facility))"

text \<open>\<open>ConsoleLogger::log\<close>: the line it prints, from the time, the thread id as text and the message.\<close>

definition console_line :: "nat \<Rightarrow> string \<Rightarrow> log_level \<Rightarrow> string \<Rightarrow> string \<Rightarrow> cpp_error + string" where
  "console_line now tid level name msg =
     (case logLevelToChar level of
        Inl e \<Rightarrow> Inl e
      | Inr c \<Rightarrow> Inr (show_nat now @ '' '' @ tid @ '' ['' @ c # ''] '' @ c_str name @ '': '' @ c_str msg @ [CHR 0x0A]))"

text \<open>\<open>SystemError\<close>: the message goes out as CRITICAL with the text of \<open>errno\<close> put before the format, cut to
  the buffer before the arguments are formatted.\<close>

definition SystemError :: "(string \<Rightarrow> string) \<Rightarrow> string \<Rightarrow> string option \<Rightarrow> string \<Rightarrow> log_state \<Rightarrow>
    (log_level \<times> string \<times> string) option \<times> bool" where
  "SystemError formatted strerror domain fmt s =
     MessageV CRITICAL domain (formatted (take 2047 (''System error ('' @ strerror @ ''), '' @ fmt))) s"

text \<open>Printing a level never throws.\<close>

lemma console_line_total: "\<exists>l. console_line now tid level name msg = Inr l"
  by (cases level) (simp_all add: console_line_def logLevelToChar_def LOGLEVEL_TO_CHAR_def)

section \<open>What a filter means\<close>

text \<open>The filter as the user thinks of it: a list of settings, later ones prevailing.\<close>

datatype filter_entry = AllDomains log_level | Domain string log_level

fun entry_text :: "filter_entry \<Rightarrow> string" where
  "entry_text (AllDomains l) = level_name l"
| "entry_text (Domain d l) = d @ CHR '':'' # level_name l"

fun entry_ok :: "filter_entry \<Rightarrow> bool" where
  "entry_ok (AllDomains l) = True"
| "entry_ok (Domain d l) = (CHR '':'' \<notin> set d \<and> CHR '','' \<notin> set d)"

text \<open>The last entry for all domains, the last entry for one domain, and the threshold for the
  messages of a domain.\<close>

fun last_global :: "filter_entry list \<Rightarrow> log_level \<Rightarrow> log_level" where
  "last_global [] l0 = l0"
| "last_global (AllDomains l # es) l0 = last_global es l"
| "last_global (Domain d l # es) l0 = last_global es l0"

fun last_for :: "string \<Rightarrow> filter_entry list \<Rightarrow> log_level option \<Rightarrow> log_level option" where
  "last_for d [] o0 = o0"
| "last_for d (AllDomains l # es) o0 = last_for d es o0"
| "last_for d (Domain d' l # es) o0 = last_for d es (if d' = d then Some l else o0)"

definition threshold :: "filter_entry list \<Rightarrow> string \<Rightarrow> log_level" where
  "threshold es d = (case last_for d es None of Some l \<Rightarrow> l | None \<Rightarrow> last_global es DEBUG)"

lemma level_name_plain:
  "CHR '':'' \<notin> set (level_name l)" "CHR '','' \<notin> set (level_name l)" "level_name l \<noteq> []"
  by (cases l; simp add: level_name_code)+

lemma apply_filter_entry:
  assumes "entry_ok e"
  shows "apply_filter (entry_text e) s = Inr (case e of
      AllDomains l \<Rightarrow> s\<lparr>log_level_of := l\<rparr>
    | Domain d l \<Rightarrow> s\<lparr>domain_filter := omap_set d l (domain_filter s)\<rparr>)"
proof (cases e)
  case (AllDomains l)
  then have "find_first (\<lambda>c. c = CHR '':'') (entry_text e) = None"
    using level_name_plain(1) [of l] by (auto simp: find_first_None)
  with AllDomains show ?thesis
    by (simp add: apply_filter_def logLevelFromString_name)
next
  case (Domain d l)
  then have "find_first (\<lambda>c. c = CHR '':'') (entry_text e) = Some (length d)"
    using assms find_first_hit [of d "\<lambda>c. c = CHR '':''" "CHR '':''" "level_name l"] by auto
  with Domain show ?thesis
    by (simp add: apply_filter_def logLevelFromString_name)
qed

lemma apply_filters_entries:
  assumes "\<forall>e \<in> set es. entry_ok e" and "omap_inv (domain_filter s)"
  defines "s' \<equiv> apply_filters (map entry_text es) s"
  shows "log_level_of s' = last_global es (log_level_of s)
    \<and> map_of (domain_filter s') d = last_for d es (map_of (domain_filter s) d)"
  using assms(1,2) unfolding s'_def
proof (induction es arbitrary: s)
  case Nil
  then show ?case by simp
next
  case (Cons e es)
  then have e: "entry_ok e" and es: "\<forall>e \<in> set es. entry_ok e" by auto
  show ?case
  proof (cases e)
    case (AllDomains l)
    with Cons.IH [OF es, of "s\<lparr>log_level_of := l\<rparr>"] Cons.prems(2) show ?thesis
      using apply_filter_entry [OF e, of s] by simp
  next
    case (Domain d' l)
    with Cons.IH [OF es, of "s\<lparr>domain_filter := omap_set d' l (domain_filter s)\<rparr>"] Cons.prems(2)
    show ?thesis
      using apply_filter_entry [OF e, of s] by (simp add: omap_inv_set map_simps)
  qed
qed

section \<open>Properties\<close>

text \<open>a message reaches the logger exactly when its level does not exceed the threshold the
  filter sets for its domain: the last entry for that domain, else the last entry for all
  domains, else DEBUG.\<close>

theorem log_filter_threshold:
  assumes "\<forall>e \<in> set es. entry_ok e" and "es \<noteq> []"
  shows "MessageV level (Some d) text (log_new (Some (join_with CHR '','' (map entry_text es))) er wa) =
    (if level \<le> threshold es d then Some (level, d, take 2047 text) else None,
     er \<and> level = ERROR \<or> wa \<and> level = WARNING)"
proof -
  let ?s = "\<lparr>log_level_of = DEBUG, domain_filter = [], raise_on_error = False, raise_on_warning = False\<rparr>"
  have nc: "CHR '','' \<notin> set (entry_text e) \<and> entry_text e \<noteq> []" if "entry_ok e" for e
    using that level_name_plain by (cases e) auto
  have "string_split (join_with CHR '','' (map entry_text es)) CHR '','' = map entry_text es"
    by (rule string_split_join_with) (use assms nc in \<open>auto simp: last_map\<close>)
  moreover note apply_filters_entries [OF assms(1), of ?s d]
  ultimately show ?thesis
    by (auto simp: MessageV_def log_new_def threshold_def split: option.splits)
qed

lemma log_filter_threshold_witness:
  "fst (MessageV INFO (Some ''Cron'') ''x'' (log_new (Some ''warning,Cron:trace'') False False))
     = Some (INFO, ''Cron'', ''x'')
   \<and> fst (MessageV INFO (Some ''Rest'') ''x'' (log_new (Some ''warning,Cron:trace'') False False)) = None"
proof -
  let ?es = "[AllDomains WARNING, Domain ''Cron'' TRACE]"
  have ok: "\<forall>e \<in> set ?es. entry_ok e" "?es \<noteq> []" by simp_all
  have "join_with CHR '','' (map entry_text ?es) = ''warning,Cron:trace''"
    by (simp add: join_with_def level_name_code)
  with log_filter_threshold [OF ok, of INFO _ "''x''" False False] show ?thesis
    by (simp add: threshold_def less_eq_log_level_def)
qed

text \<open>every level is read back from its name and from its number, the letters printed for
  the levels tell them apart, and whatever \<open>logLevelFromString\<close> throws derives from
  \<open>std::logic_error\<close>, as its documentation says.\<close>

theorem log_level_roundtrip:
  "logLevelFromString (level_name l) = Inr l
   \<and> logLevelFromString (show_int (int (level_num l))) = Inr l
   \<and> (\<exists>c. logLevelToChar l = Inr c \<and> (\<forall>l'. logLevelToChar l' = Inr c \<longrightarrow> l' = l))
   \<and> (\<forall>str e. logLevelFromString str = Inl e \<longrightarrow> is_logic_error e)"
proof -
  have "\<exists>c. logLevelToChar l = Inr c \<and> (\<forall>l'. logLevelToChar l' = Inr c \<longrightarrow> l' = l)"
    unfolding logLevelToChar_def LOGLEVEL_TO_CHAR_def
    by (cases l) (auto split: if_splits)
  moreover have "is_logic_error e" if "logLevelFromString str = Inl e" for str e
    using that std_stoi_error [of str] by (auto simp: logLevelFromString_def split: option.splits sum.splits)
  ultimately show ?thesis
    by (simp add: logLevelFromString_name logLevelFromString_num)
qed

lemma log_level_roundtrip_witness:
  "logLevelFromString ''9'' = Inl LogicError \<and> is_logic_error LogicError"
proof -
  have e: "logLevelFromString ''9'' = Inl LogicError" by code_simp
  with log_level_roundtrip show ?thesis by blast
qed

end
