(* ===== verification/CronRule.thy ===== *)
theory CronRule
  imports Stdutils Timeutils
begin

text \<open>
  The checks of \<open>components/system/src/cron.cc\<close>: a candidate time, the range rules with their
  steps, the days of the week and the calendar, and how a check moves a candidate on.  The
  checks are linked by pointers that \<open>calcNext\<close> sets: rule \<open>i + 1\<close> takes the overflow of rule
  \<open>i\<close> and resets it; the weekday and calendar checks overflow into the day of the month.  The
  model keeps the five range rules as a list, minutes first, and follows the links by index.
\<close>

datatype cron_error = InvalidRule | Unsatisfiable | DivisionByZero

section \<open>Candidates\<close>

record candidate =
  c_year :: int
  c_mon :: int
  c_mday :: int
  c_hour :: int
  c_min :: int

text \<open>\<open>operator[]\<close>: 0 is the year, 4 the minute.  The rules are only built with these numbers,
  so that the throwing default is never reached; the model leaves the candidate alone there.\<close>

definition cand_get :: "candidate \<Rightarrow> nat \<Rightarrow> int" where
  "cand_get c p =
     (if p = 0 then c_year c else if p = 1 then c_mon c else if p = 2 then c_mday c
      else if p = 3 then c_hour c else c_min c)"

definition cand_set :: "candidate \<Rightarrow> nat \<Rightarrow> int \<Rightarrow> candidate" where
  "cand_set c p v =
     (if p = 0 then c\<lparr>c_year := v\<rparr> else if p = 1 then c\<lparr>c_mon := v\<rparr> else if p = 2 then c\<lparr>c_mday := v\<rparr>
      else if p = 3 then c\<lparr>c_hour := v\<rparr> else if p = 4 then c\<lparr>c_min := v\<rparr> else c)"

lemma cand_get_set: "p \<le> 4 \<Longrightarrow> q \<le> 4 \<Longrightarrow> cand_get (cand_set c p v) q = (if p = q then v else cand_get c q)"
  by (auto simp: cand_get_def cand_set_def)

section \<open>Range rules\<close>

record in_range =
  r_min :: int
  r_max :: int
  r_each :: int
  r_partn :: nat

definition cron_stoi :: "string \<Rightarrow> cron_error + int" where
  "cron_stoi str = (case std_stoi str of Inl _ \<Rightarrow> Inl InvalidRule | Inr v \<Rightarrow> Inr v)"

text \<open>The constructor of \<open>InRange\<close>: first the step after a slash, then the range.\<close>

definition parse_each :: "string \<Rightarrow> cron_error + (string \<times> int)" where
  "parse_each rule =
     (if CHR ''/'' \<in> set rule
      then (case string_split rule CHR ''/'' of
              [a, b] \<Rightarrow> (case cron_stoi b of Inl e \<Rightarrow> Inl e | Inr n \<Rightarrow> Inr (a, n))
            | _ \<Rightarrow> Inl InvalidRule)
      else Inr (rule, 1))"

definition parse_range :: "string \<Rightarrow> int \<Rightarrow> int \<Rightarrow> int \<Rightarrow> cron_error + (int \<times> int)" where
  "parse_range srule each minVal maxVal =
     (if srule = ''*''
      then (if each < 1 \<or> each > maxVal then Inl Unsatisfiable else Inr (minVal, maxVal))
      else if CHR ''-'' \<in> set srule
      then (case string_split srule CHR ''-'' of
              [a, b] \<Rightarrow> (case cron_stoi a of Inl e \<Rightarrow> Inl e
                 | Inr lo \<Rightarrow> (case cron_stoi b of Inl e \<Rightarrow> Inl e
                     | Inr hi \<Rightarrow> if hi < lo then Inl InvalidRule else Inr (lo, hi)))
            | _ \<Rightarrow> Inl InvalidRule)
      else (case cron_stoi srule of Inl e \<Rightarrow> Inl e | Inr n \<Rightarrow> Inr (n, n)))"

definition InRange :: "string \<Rightarrow> int \<Rightarrow> int \<Rightarrow> nat \<Rightarrow> cron_error + in_range" where
  "InRange rule minVal maxVal partn =
     (case parse_each rule of Inl e \<Rightarrow> Inl e
      | Inr (srule, each) \<Rightarrow>
          (case parse_range srule each minVal maxVal of Inl e \<Rightarrow> Inl e
           | Inr (lo, hi) \<Rightarrow>
               if lo < minVal \<or> hi > maxVal then Inl Unsatisfiable
               else Inr \<lparr>r_min = lo, r_max = hi, r_each = each, r_partn = partn\<rparr>))"

text \<open>\<open>valid\<close> evaluates the remainder last; a step of zero, which only a \<open>*\<close> rule excludes,
  divides by zero there.\<close>

definition range_valid :: "in_range \<Rightarrow> candidate \<Rightarrow> cron_error + bool" where
  "range_valid r c =
     (let v = cand_get c (r_partn r)
      in if v \<ge> r_min r \<and> v \<le> r_max r
         then (if r_each r = 0 then Inl DivisionByZero else Inr (v smod r_each r = 0))
         else Inr False)"

text \<open>\<open>reset\<close> of rule \<open>i\<close> goes down the chain to the minutes; \<open>incr\<close> goes up it on overflow.\<close>

primrec reset_rule :: "in_range list \<Rightarrow> nat \<Rightarrow> candidate \<Rightarrow> candidate" where
  "reset_rule rs 0 c = cand_set c (r_partn (rs ! 0)) (r_min (rs ! 0))"
| "reset_rule rs (Suc i) c =
     reset_rule rs i (cand_set c (r_partn (rs ! Suc i)) (r_min (rs ! Suc i)))"

definition reset_part :: "in_range list \<Rightarrow> nat \<Rightarrow> candidate \<Rightarrow> candidate" where
  "reset_part rs i c = (case i of 0 \<Rightarrow> c | Suc j \<Rightarrow> reset_rule rs j c)"

function incr_rule :: "in_range list \<Rightarrow> nat \<Rightarrow> candidate \<Rightarrow> candidate" where
  "incr_rule rs i c =
     (let r = rs ! i; p = r_partn r
      in if cand_get c p < r_min r then reset_part rs i (cand_set c p (r_min r))
         else
           (let c1 = cand_set c p (cand_get c p + 1);
                c2 = (if cand_get c1 p > r_max r
                      then (let c' = cand_set c1 p (r_min r)
                            in if i < 4 then incr_rule rs (i + 1) c' else c')
                      else c1)
            in reset_part rs i c2))"
  by pat_completeness auto
termination by (relation "measure (\<lambda>(rs, i, c). 4 - i)") auto

declare incr_rule.simps [simp del]

section \<open>Days of the week\<close>

text \<open>The bit set \<open>_validDays\<close>, Sunday first.\<close>

type_synonym week_days = "bool list"

definition set_days :: "int list \<Rightarrow> week_days \<Rightarrow> week_days" where
  "set_days ds bits = foldl (\<lambda>b d. b[nat (d smod 7) := True]) bits ds"

text \<open>The loop over a comma list; a negative number, which would index the bit set out of range,
  cannot be written since a minus sign selects the range form.\<close>

fun parse_days :: "string list \<Rightarrow> week_days \<Rightarrow> cron_error + week_days" where
  "parse_days [] bits = Inr bits"
| "parse_days (part # ps) bits =
     (case cron_stoi part of Inl e \<Rightarrow> Inl e
      | Inr dow \<Rightarrow> if dow > 7 then Inl InvalidRule else parse_days ps (set_days [dow] bits))"

definition WeekDay :: "string \<Rightarrow> cron_error + week_days" where
  "WeekDay expr =
     (if expr = ''*'' then Inr (replicate 7 True)
      else if CHR ''-'' \<in> set expr
      then (case string_split expr CHR ''-'' of
              [a, b] \<Rightarrow> (case cron_stoi a of Inl e \<Rightarrow> Inl e
                 | Inr fromDoW \<Rightarrow> (case cron_stoi b of Inl e \<Rightarrow> Inl e
                     | Inr toDoW \<Rightarrow>
                         if toDoW < fromDoW then Inl InvalidRule
                         else if fromDoW < 0 \<or> fromDoW > 7 \<or> toDoW < 0 \<or> toDoW > 7 then Inl InvalidRule
                         else Inr (set_days [fromDoW..toDoW] (replicate 7 False))))
            | _ \<Rightarrow> Inl InvalidRule)
      else parse_days (string_split expr CHR '','') (replicate 7 False))"

text \<open>The sum in \<open>week_day\<close> overflows only for years far from those of a schedule: the range of
  the year, checked just before, ends at \<open>MAX_YEAR\<close> (\<open>week_day_fits\<close>).\<close>

definition week_valid :: "week_days \<Rightarrow> candidate \<Rightarrow> bool" where
  "week_valid bits c =
     (case week_day (c_mday c) (c_mon c) (c_year c) of
        Inl e \<Rightarrow> False
      | Inr dow \<Rightarrow> if dow \<ge> 0 \<and> dow < 7 then bits ! nat dow else False)"

section \<open>Calendar dates\<close>

definition date_valid :: "candidate \<Rightarrow> bool" where
  "date_valid c =
     (let max_days = days_per_month (c_mon c) (c_year c)
      in 1 \<le> c_mday c \<and> c_mday c \<le> max_days)"

section \<open>The list of checks\<close>

datatype check = CheckRange nat | CheckWeekDay | CheckDate

record cron_rules =
  ranges :: "in_range list"
  week_days_of :: week_days

definition check_valid :: "cron_rules \<Rightarrow> check \<Rightarrow> candidate \<Rightarrow> cron_error + bool" where
  "check_valid rl k c =
     (case k of CheckRange i \<Rightarrow> range_valid (ranges rl ! i) c
      | CheckWeekDay \<Rightarrow> Inr (week_valid (week_days_of rl) c)
      | CheckDate \<Rightarrow> Inr (date_valid c))"

text \<open>\<open>incr\<close> with its result: whether the search may go on from here.\<close>

definition check_incr :: "cron_rules \<Rightarrow> check \<Rightarrow> candidate \<Rightarrow> candidate \<times> bool" where
  "check_incr rl k c =
     (case k of CheckRange i \<Rightarrow> (incr_rule (ranges rl) i c, True)
      | CheckWeekDay \<Rightarrow> (incr_rule (ranges rl) 2 c, False)
      | CheckDate \<Rightarrow> (incr_rule (ranges rl) 2 c, False))"

definition all_checks :: "check list" where
  "all_checks =
     [CheckRange 0, CheckRange 1, CheckRange 2, CheckRange 3, CheckRange 4, CheckWeekDay, CheckDate]"

definition MAX_YEAR :: int where "MAX_YEAR = 2099"

text \<open>The rules of a time specification: minute, hour, day of the month, month, day of the week,
  year.  The year's range starts at the current one.\<close>

definition parse_timespec :: "string \<Rightarrow> int \<Rightarrow> cron_error + cron_rules" where
  "parse_timespec timespec year0 =
     (case string_split timespec CHR '' '' of
        [p0, p1, p2, p3, p4, p5] \<Rightarrow>
          (case InRange p0 0 59 4 of Inl e \<Rightarrow> Inl e | Inr minutes \<Rightarrow>
          (case InRange p1 0 23 3 of Inl e \<Rightarrow> Inl e | Inr hours \<Rightarrow>
          (case InRange p2 1 31 2 of Inl e \<Rightarrow> Inl e | Inr dayOfMonth \<Rightarrow>
          (case InRange p3 1 12 1 of Inl e \<Rightarrow> Inl e | Inr month \<Rightarrow>
          (case InRange p5 year0 MAX_YEAR 0 of Inl e \<Rightarrow> Inl e | Inr year \<Rightarrow>
          (case WeekDay p4 of Inl e \<Rightarrow> Inl e | Inr wd \<Rightarrow>
             Inr \<lparr>ranges = [minutes, hours, dayOfMonth, month, year], week_days_of = wd\<rparr>))))))
      | _ \<Rightarrow> Inl InvalidRule)"

section \<open>What parsing guarantees\<close>

text \<open>A range lies within the limits it was parsed with, and is not empty.\<close>

lemma InRange_bounds:
  assumes "InRange rule minVal maxVal p = Inr r" and "minVal \<le> maxVal"
  shows "minVal \<le> r_min r \<and> r_min r \<le> r_max r \<and> r_max r \<le> maxVal \<and> r_partn r = p"
  using assms unfolding InRange_def parse_range_def
  by (auto split: sum.splits if_splits list.splits)

lemma InRange_star_each:
  assumes "InRange rule minVal maxVal p = Inr r" and "CHR ''/'' \<notin> set rule"
  shows "r_each r = 1"
  using assms by (auto simp: InRange_def parse_each_def split: sum.splits if_splits)

definition rules_wf :: "cron_rules \<Rightarrow> bool" where
  "rules_wf rl \<longleftrightarrow> length (ranges rl) = 5 \<and> length (week_days_of rl) = 7 \<and>
     (\<forall>i \<le> 4. r_partn (ranges rl ! i) = 4 - i \<and> r_min (ranges rl ! i) \<le> r_max (ranges rl ! i)) \<and>
     0 \<le> r_min (ranges rl ! 0) \<and> r_max (ranges rl ! 0) \<le> 59 \<and>
     0 \<le> r_min (ranges rl ! 1) \<and> r_max (ranges rl ! 1) \<le> 23 \<and>
     1 \<le> r_min (ranges rl ! 2) \<and> r_max (ranges rl ! 2) \<le> 31 \<and>
     1 \<le> r_min (ranges rl ! 3) \<and> r_max (ranges rl ! 3) \<le> 12 \<and>
     r_max (ranges rl ! 4) \<le> MAX_YEAR"

lemma length_set_days [simp]: "length (set_days ds bits) = length bits"
  by (induction ds arbitrary: bits) (auto simp: set_days_def)

lemma parse_days_length: "parse_days ps bits = Inr b \<Longrightarrow> length b = length bits"
  by (induction ps arbitrary: bits) (auto split: sum.splits if_splits)

lemma WeekDay_length: "WeekDay expr = Inr b \<Longrightarrow> length b = 7"
  by (auto simp: WeekDay_def dest: parse_days_length split: if_splits list.splits sum.splits)

lemma all_le_4: "(\<forall>i \<le> (4::nat). P i) \<longleftrightarrow> P 0 \<and> P 1 \<and> P 2 \<and> P 3 \<and> P 4"
  by (auto simp: le_Suc_eq numeral_eq_Suc)

lemma all_less_4: "(\<forall>i < (4::nat). P i) \<longleftrightarrow> P 0 \<and> P 1 \<and> P 2 \<and> P 3"
  by (auto simp: less_Suc_eq numeral_eq_Suc)

lemma parse_timespec_wf:
  assumes "parse_timespec ts y = Inr rl" and "y \<le> MAX_YEAR"
  shows "rules_wf rl \<and> y \<le> r_min (ranges rl ! 4)"
proof -
  obtain p0 p1 p2 p3 p4 p5 minutes hours dayOfMonth month year wd where
    "InRange p0 0 59 4 = Inr minutes" "InRange p1 0 23 3 = Inr hours"
    "InRange p2 1 31 2 = Inr dayOfMonth" "InRange p3 1 12 1 = Inr month"
    "InRange p5 y MAX_YEAR 0 = Inr year" "WeekDay p4 = Inr wd"
    "rl = \<lparr>ranges = [minutes, hours, dayOfMonth, month, year], week_days_of = wd\<rparr>"
    using assms(1) unfolding parse_timespec_def by (auto split: list.splits sum.splits)
  note p = this
  show ?thesis
    using InRange_bounds [OF p(1)] InRange_bounds [OF p(2)] InRange_bounds [OF p(3)]
      InRange_bounds [OF p(4)] InRange_bounds [OF p(5) assms(2)] WeekDay_length [OF p(6)]
    by (simp add: rules_wf_def all_le_4 p(7))
qed

section \<open>Printing and parsing a range\<close>

lemma show_int_no_slash_minus:
  assumes "0 \<le> i"
  shows "CHR ''/'' \<notin> set (show_int i)" and "CHR ''-'' \<notin> set (show_int i)" and "show_int i \<noteq> []"
    and "show_int i \<noteq> ''*''"
proof -
  have d: "\<forall>c \<in> set (show_int i). is_digit c"
    using assms show_nat_digits by (simp add: show_int_def)
  have "\<not> is_digit (CHR ''/'')" "\<not> is_digit (CHR ''-'')" "\<not> is_digit (CHR ''*'')"
    by (simp_all add: is_digit_def)
  with d show "CHR ''/'' \<notin> set (show_int i)" "CHR ''-'' \<notin> set (show_int i)" by blast+
  have "\<not> is_digit (CHR ''*'')" by (simp add: is_digit_def)
  with d show "show_int i \<noteq> ''*''" by force
  show "show_int i \<noteq> []" using assms show_nat_neq_Nil by (simp add: show_int_def)
qed

lemma cron_stoi_show: "0 \<le> i \<Longrightarrow> i \<le> INT_MAX \<Longrightarrow> cron_stoi (show_int i) = Inr i"
  by (simp add: cron_stoi_def std_stoi_show_int INT_MIN_def)

text \<open>The text \<open>a-b/n\<close> of a range with a step is read back as that range, unless it is
  backwards, which is an invalid rule, or outside of the limits, which is unsatisfiable.\<close>

theorem range_rule_roundtrip:
  assumes "0 \<le> a" "a \<le> INT_MAX" "0 \<le> b" "b \<le> INT_MAX" "0 \<le> n" "n \<le> INT_MAX"
  shows "InRange (show_int a @ ''-'' @ show_int b @ ''/'' @ show_int n) minVal maxVal p =
    (if b < a then Inl InvalidRule
     else if a < minVal \<or> b > maxVal then Inl Unsatisfiable
     else Inr \<lparr>r_min = a, r_max = b, r_each = n, r_partn = p\<rparr>)"
proof -
  let ?r = "show_int a @ CHR ''-'' # show_int b"
  note a = show_int_no_slash_minus [OF assms(1)]
  note b = show_int_no_slash_minus [OF assms(3)]
  note n = show_int_no_slash_minus [OF assms(5)]
  have "string_split (?r @ CHR ''/'' # show_int n) CHR ''/'' = [?r, show_int n]"
    using a b n by (subst string_split_hit) (auto simp: string_split_single)
  then have "parse_each (?r @ CHR ''/'' # show_int n) = Inr (?r, n)"
    by (simp add: parse_each_def cron_stoi_show assms)
  moreover have "string_split ?r CHR ''-'' = [show_int a, show_int b]"
    using a b by (subst string_split_hit) (auto simp: string_split_single)
  then have "parse_range ?r n minVal maxVal = (if b < a then Inl InvalidRule else Inr (a, b))"
    using a by (auto simp: parse_range_def cron_stoi_show assms append_eq_Cons_conv)
  ultimately show ?thesis by (simp add: InRange_def)
qed

theorem range_rule_roundtrip_witness:
  "InRange ''9-18/2'' 0 23 3 = Inr \<lparr>r_min = 9, r_max = 18, r_each = 2, r_partn = 3\<rparr>"
proof -
  have s: "show_int 9 = ''9''" "show_int 18 = ''18''" "show_int 2 = ''2''" by code_simp+
  show ?thesis
    using range_rule_roundtrip [of 9 18 2 0 23 3] unfolding s by (simp add: INT_MAX_def)
qed

end
