(* ===== verification/CronNext.thy ===== *)
theory CronNext
  imports CronRule
begin

text \<open>
  \<open>CronJob::calcNext\<close> of \<open>components/system/src/cron.cc\<close>: the search for the next minute that
  passes every check.  Its loops need not end, so they run on fuel: \<open>None\<close> is a search still
  under way, \<open>Some (Inl e)\<close> an exception, \<open>Some (Inr c)\<close> the minute found.  The theory proves
  which minute that is, how much fuel is enough, and where the search goes wrong.
\<close>

section \<open>The search\<close>

text \<open>\<open>while (!r->valid(candidate)) {valid &= r->incr(candidate); if (!valid) break;}\<close>\<close>

fun run_check :: "nat \<Rightarrow> cron_rules \<Rightarrow> check \<Rightarrow> candidate \<Rightarrow> bool \<Rightarrow> (cron_error + candidate \<times> bool) option" where
  "run_check 0 rl k c ok = None"
| "run_check (Suc n) rl k c ok =
     (case check_valid rl k c of
        Inl e \<Rightarrow> Some (Inl e)
      | Inr v \<Rightarrow>
          if v then Some (Inr (c, ok))
          else (let c' = fst (check_incr rl k c); ok' = (ok \<and> snd (check_incr rl k c))
                in if \<not> ok' then Some (Inr (c', False)) else run_check n rl k c' ok'))"

text \<open>The loop over the rules; \<open>break\<close> leaves only the inner loop.\<close>

fun run_checks :: "nat \<Rightarrow> cron_rules \<Rightarrow> check list \<Rightarrow> candidate \<Rightarrow> bool \<Rightarrow> (cron_error + candidate \<times> bool) option" where
  "run_checks n rl [] c ok = Some (Inr (c, ok))"
| "run_checks n rl (k # ks) c ok =
     (case run_check n rl k c ok of
        None \<Rightarrow> None
      | Some (Inl e) \<Rightarrow> Some (Inl e)
      | Some (Inr (c', ok')) \<Rightarrow> run_checks n rl ks c' ok')"

text \<open>The \<open>do \<dots> while (!valid)\<close> loop with \<open>m\<close> rounds, each inner loop with \<open>n\<close>.\<close>

fun search :: "nat \<Rightarrow> nat \<Rightarrow> cron_rules \<Rightarrow> candidate \<Rightarrow> (cron_error + candidate) option" where
  "search 0 n rl c = None"
| "search (Suc m) n rl c =
     (case run_checks n rl all_checks c True of
        None \<Rightarrow> None
      | Some (Inl e) \<Rightarrow> Some (Inl e)
      | Some (Inr (c', ok)) \<Rightarrow>
          if c_year c' \<ge> MAX_YEAR then Some (Inl Unsatisfiable)
          else if ok then Some (Inr c')
          else search m n rl c')"

definition next_candidate :: "nat \<Rightarrow> string \<Rightarrow> candidate \<Rightarrow> (cron_error + candidate) option" where
  "next_candidate fuel timespec start =
     (case parse_timespec timespec (c_year start) of
        Inl e \<Rightarrow> Some (Inl e)
      | Inr rl \<Rightarrow> search fuel fuel rl (incr_rule (ranges rl) 0 start))"

section \<open>The order of the candidates\<close>

text \<open>Rule \<open>i\<close> is about part \<open>4 - i\<close>: the minute for rule 0, the year for rule 4.  The parts
  from rule \<open>i\<close> up are compared with the year first.\<close>

abbreviation part :: "candidate \<Rightarrow> nat \<Rightarrow> int" where
  "part c i \<equiv> cand_get c (4 - i)"

definition same_from :: "nat \<Rightarrow> candidate \<Rightarrow> candidate \<Rightarrow> bool" where
  "same_from i a b \<longleftrightarrow> (\<forall>k. i \<le> k \<and> k \<le> 4 \<longrightarrow> part a k = part b k)"

definition earlier_from :: "nat \<Rightarrow> candidate \<Rightarrow> candidate \<Rightarrow> bool" where
  "earlier_from i a b \<longleftrightarrow> (\<exists>j. i \<le> j \<and> j \<le> 4 \<and> part a j < part b j \<and> same_from (Suc j) a b)"

definition earlier :: "candidate \<Rightarrow> candidate \<Rightarrow> bool" where
  "earlier a b \<longleftrightarrow> c_year a < c_year b \<or> (c_year a = c_year b \<and>
     (c_mon a < c_mon b \<or> (c_mon a = c_mon b \<and>
     (c_mday a < c_mday b \<or> (c_mday a = c_mday b \<and>
     (c_hour a < c_hour b \<or> (c_hour a = c_hour b \<and> c_min a < c_min b)))))))"

lemma same_from_Suc: "i \<le> 4 \<Longrightarrow> same_from i a b \<longleftrightarrow> part a i = part b i \<and> same_from (Suc i) a b"
  unfolding same_from_def by (metis Suc_leD Suc_leI le_neq_implies_less order_refl)

lemma same_from_top [simp]: "same_from (Suc 4) a b" "same_from 5 a b"
  by (auto simp: same_from_def)

lemma earlier_from_Suc:
  assumes "i \<le> 4"
  shows "earlier_from i a b \<longleftrightarrow>
    earlier_from (Suc i) a b \<or> (same_from (Suc i) a b \<and> part a i < part b i)"
  unfolding earlier_from_def using assms by (metis Suc_leD Suc_leI le_neq_implies_less order_refl)

lemma earlier_from_top [simp]: "\<not> earlier_from (Suc 4) a b" "\<not> earlier_from 5 a b"
  by (auto simp: earlier_from_def)

lemma same_from_0: "same_from 0 a b \<longleftrightarrow> a = b"
  by (auto simp: same_from_def all_le_4 cand_get_def)

lemma earlier_from_0: "earlier_from 0 a b \<longleftrightarrow> earlier a b"
proof -
  have e: "earlier_from 0 a b \<longleftrightarrow> earlier_from 1 a b \<or> (same_from 1 a b \<and> c_min a < c_min b)"
    "earlier_from 1 a b \<longleftrightarrow> earlier_from 2 a b \<or> (same_from 2 a b \<and> c_hour a < c_hour b)"
    "earlier_from 2 a b \<longleftrightarrow> earlier_from 3 a b \<or> (same_from 3 a b \<and> c_mday a < c_mday b)"
    "earlier_from 3 a b \<longleftrightarrow> earlier_from 4 a b \<or> (same_from 4 a b \<and> c_mon a < c_mon b)"
    "earlier_from 4 a b \<longleftrightarrow> c_year a < c_year b"
    using earlier_from_Suc [of 0 a b] earlier_from_Suc [of 1 a b] earlier_from_Suc [of 2 a b]
      earlier_from_Suc [of 3 a b] earlier_from_Suc [of 4 a b] by (simp_all add: cand_get_def flip: numeral_2_eq_2)
  have s: "same_from 1 a b \<longleftrightarrow> c_hour a = c_hour b \<and> same_from 2 a b"
    "same_from 2 a b \<longleftrightarrow> c_mday a = c_mday b \<and> same_from 3 a b"
    "same_from 3 a b \<longleftrightarrow> c_mon a = c_mon b \<and> same_from 4 a b"
    "same_from 4 a b \<longleftrightarrow> c_year a = c_year b"
    using same_from_Suc [of 1 a b] same_from_Suc [of 2 a b]
      same_from_Suc [of 3 a b] same_from_Suc [of 4 a b] by (simp_all add: cand_get_def flip: numeral_2_eq_2)
  show ?thesis unfolding e s earlier_def by blast
qed

text \<open>Earlier on the parts above, or the same there.\<close>

definition upto_from :: "nat \<Rightarrow> candidate \<Rightarrow> candidate \<Rightarrow> bool" where
  "upto_from i a b \<longleftrightarrow> earlier_from i a b \<or> same_from i a b"

lemma upto_from_Suc:
  "i \<le> 4 \<Longrightarrow> upto_from i a b \<longleftrightarrow>
    earlier_from (Suc i) a b \<or> (same_from (Suc i) a b \<and> part a i \<le> part b i)"
  by (auto simp: upto_from_def same_from_Suc [of i] earlier_from_Suc [of i])

lemma upto_from_0: "upto_from 0 a b \<longleftrightarrow> earlier a b \<or> a = b"
  by (simp add: upto_from_def same_from_0 earlier_from_0)

text \<open>Only the parts matter.\<close>

lemma same_from_cong:
  "\<lbrakk>\<And>k. i \<le> k \<Longrightarrow> k \<le> 4 \<Longrightarrow> part a k = part a' k\<rbrakk> \<Longrightarrow> same_from i a b = same_from i a' b"
  by (auto simp: same_from_def)

lemma earlier_from_cong:
  assumes "\<And>k. i \<le> k \<Longrightarrow> k \<le> 4 \<Longrightarrow> part a k = part a' k"
  shows "earlier_from i a b \<longleftrightarrow> earlier_from i a' b"
proof -
  have "part a j < part b j \<and> same_from (Suc j) a b \<longleftrightarrow> part a' j < part b j \<and> same_from (Suc j) a' b"
    if "i \<le> j" and "j \<le> 4" for j
    using that assms by (simp add: same_from_cong [of "Suc j" a a' b])
  then show ?thesis unfolding earlier_from_def by blast
qed

lemma upto_from_drop:
  assumes "upto_from 0 a b" and "i \<le> 4"
  shows "upto_from i a b"
  using assms(2)
proof (induction i)
  case 0
  show ?case by (rule assms(1))
next
  case (Suc i)
  then have "upto_from i a b" by simp
  with Suc.prems show ?case unfolding upto_from_Suc [OF Suc_leD [OF Suc.prems]] by (auto simp: upto_from_def)
qed

lemma upto_from_lower:
  assumes "upto_from i a b" and "i \<le> 4" and "\<forall>j < i. part a j \<le> part b j"
  shows "upto_from 0 a b"
  using assms
proof (induction i)
  case 0
  then show ?case by simp
next
  case (Suc i)
  then have "upto_from i a b"
    unfolding upto_from_Suc [OF Suc_leD [OF Suc.prems(2)]] by (auto simp: upto_from_def)
  with Suc show ?case by simp
qed

lemma earlier_trans: "earlier a b \<Longrightarrow> earlier b c \<Longrightarrow> earlier a c"
  by (auto simp: earlier_def)

section \<open>Moving on and resetting\<close>

definition linked :: "in_range list \<Rightarrow> bool" where
  "linked rs \<longleftrightarrow> (\<forall>i \<le> 4. r_partn (rs ! i) = 4 - i \<and> r_min (rs ! i) \<le> r_max (rs ! i))"

lemma rules_wf_linked: "rules_wf rl \<Longrightarrow> linked (ranges rl)"
  by (simp add: rules_wf_def linked_def)

lemma part_set:
  "i \<le> 4 \<Longrightarrow> k \<le> 4 \<Longrightarrow> part (cand_set c (4 - i) v) k = (if k = i then v else part c k)"
  by (auto simp: cand_get_set)

lemma part_reset_rule:
  assumes "linked rs"
  shows "j \<le> 4 \<Longrightarrow> k \<le> 4 \<Longrightarrow>
    part (reset_rule rs j c) k = (if k \<le> j then r_min (rs ! k) else part c k)"
proof (induction j arbitrary: c)
  case 0
  with assms show ?case by (simp add: linked_def part_set [of 0, simplified])
next
  case (Suc j)
  then have "r_partn (rs ! Suc j) = 4 - Suc j" using assms by (simp add: linked_def)
  then have "reset_rule rs (Suc j) c = reset_rule rs j (cand_set c (4 - Suc j) (r_min (rs ! Suc j)))"
    by simp
  moreover have "part (cand_set c (4 - Suc j) (r_min (rs ! Suc j))) k =
      (if k = Suc j then r_min (rs ! Suc j) else part c k)"
    using Suc.prems by (rule part_set)
  ultimately show ?case using Suc by (auto simp: le_Suc_eq)
qed

lemma part_reset_part:
  assumes "linked rs" and "i \<le> 5" and "k \<le> 4"
  shows "part (reset_part rs i c) k = (if k < i then r_min (rs ! k) else part c k)"
  using assms part_reset_rule [OF assms(1), of "i - 1" k c]
  by (auto simp: reset_part_def split: nat.split)

lemma incr_rule_cases:
  assumes "linked rs" and "i \<le> 4"
  shows "incr_rule rs i c =
    (if part c i < r_min (rs ! i) then reset_part rs i (cand_set c (4 - i) (r_min (rs ! i)))
     else if part c i < r_max (rs ! i) then reset_part rs i (cand_set c (4 - i) (part c i + 1))
     else if i < 4 then reset_part rs i (incr_rule rs (Suc i) (cand_set c (4 - i) (r_min (rs ! i))))
     else reset_part rs i (cand_set c (4 - i) (r_min (rs ! i))))"
proof -
  have p: "r_partn (rs ! i) = 4 - i" using assms by (simp add: linked_def)
  have g: "part (cand_set c (4 - i) v) i = v" for v
    using part_set [OF assms(2,2)] by simp
  have ss: "cand_set (cand_set c (4 - i) v) (4 - i) w = cand_set c (4 - i) w" for v w
    by (simp add: cand_set_def)
  show ?thesis
    by (subst incr_rule.simps) (simp add: p Let_def g ss)
qed

text \<open>Parts within the limits of the rules.\<close>

definition within :: "in_range list \<Rightarrow> candidate \<Rightarrow> bool" where
  "within rs v \<longleftrightarrow> (\<forall>i \<le> 4. r_min (rs ! i) \<le> part v i \<and> part v i \<le> r_max (rs ! i))"

text \<open>The heart of the search: \<open>incr\<close> goes forward and never over a time within the ranges that
  is later on the parts it may change.\<close>

lemma incr_rule_forward:
  assumes "linked rs" and "within rs v"
  shows "i \<le> 4 \<Longrightarrow> earlier_from i c v \<Longrightarrow>
    upto_from i (incr_rule rs i c) v \<and> (\<forall>j < i. part (incr_rule rs i c) j = r_min (rs ! j)) \<and>
    earlier_from i c (incr_rule rs i c)"
proof (induction "4 - i" arbitrary: i c)
  case 0
  then have i: "i = 4" by simp
  with 0 have lt: "part c 4 < part v 4" by (simp add: earlier_from_Suc [of 4])
  moreover have "part v 4 \<le> r_max (rs ! 4)" "r_min (rs ! 4) \<le> part v 4"
    using assms(2) by (auto simp: within_def)
  moreover define c' where "c' = incr_rule rs 4 c"
  ultimately have c': "c' = reset_part rs 4 (cand_set c 0
      (if part c 4 < r_min (rs ! 4) then r_min (rs ! 4) else part c 4 + 1))"
    using incr_rule_cases [OF assms(1), of 4 c] by simp
  have parts: "part c' k = (if k < 4 then r_min (rs ! k)
      else if part c 4 < r_min (rs ! 4) then r_min (rs ! 4) else part c 4 + 1)" if "k \<le> 4" for k
    unfolding c' using part_reset_part [OF assms(1), of 4 k] that by (simp add: cand_get_set)
  have "part c' 4 \<le> part v 4" "part c 4 < part c' 4"
    using parts [of 4] lt \<open>r_min (rs ! 4) \<le> part v 4\<close> by auto
  with parts show ?case unfolding i c'_def [symmetric]
    by (simp add: upto_from_Suc [of 4] earlier_from_Suc [of 4])
next
  case (Suc n)
  then have i: "i < 4" "n = 4 - Suc i" by auto
  have v: "r_min (rs ! i) \<le> part v i" "part v i \<le> r_max (rs ! i)"
    using assms(2) i by (auto simp: within_def)
  note up = upto_from_Suc [OF Suc.prems(1)] earlier_from_Suc [OF Suc.prems(1)]
  consider (near) w where "incr_rule rs i c = reset_part rs i (cand_set c (4 - i) w)"
      "part c i < w" "w \<le> r_min (rs ! i) \<or> w = part c i + 1"
    | (over) "incr_rule rs i c = reset_part rs i (incr_rule rs (Suc i) (cand_set c (4 - i) (r_min (rs ! i))))"
      "r_max (rs ! i) \<le> part c i"
    using incr_rule_cases [OF assms(1) Suc.prems(1), of c] i by (auto split: if_splits)
  then show ?case
  proof cases
    case (near w)
    have parts: "part (incr_rule rs i c) k = (if k < i then r_min (rs ! k) else if k = i then w else part c k)"
      if "k \<le> 4" for k
      unfolding near(1) using part_reset_part [OF assms(1) _ that, of i] part_set [OF Suc.prems(1) that] i
      by simp
    have cong: "earlier_from (Suc i) (incr_rule rs i c) b = earlier_from (Suc i) c b"
      "same_from (Suc i) (incr_rule rs i c) b = same_from (Suc i) c b" for b
      using parts by (auto intro!: earlier_from_cong same_from_cong)
    have "same_from (Suc i) c (incr_rule rs i c)" using parts by (simp add: same_from_def)
    then show ?thesis
      using near(2,3) v Suc.prems parts by (auto simp: up cong)
  next
    case over
    define c1 where "c1 = cand_set c (4 - i) (r_min (rs ! i))"
    have c1: "part c1 k = (if k = i then r_min (rs ! i) else part c k)" if "k \<le> 4" for k
      unfolding c1_def by (rule part_set [OF Suc.prems(1) that])
    have same: "earlier_from (Suc i) c1 b = earlier_from (Suc i) c b" for b
      by (rule earlier_from_cong) (simp add: c1)
    have "earlier_from (Suc i) c v" using over(2) v Suc.prems(2) by (auto simp: up)
    with Suc.hyps(1) [of "Suc i" c1] i same
    have ih: "upto_from (Suc i) (incr_rule rs (Suc i) c1) v"
      "\<forall>j < Suc i. part (incr_rule rs (Suc i) c1) j = r_min (rs ! j)"
      "earlier_from (Suc i) c (incr_rule rs (Suc i) c1)" by auto
    have "part (incr_rule rs i c) k = part (incr_rule rs (Suc i) c1) k" if "k \<le> 4" for k
      unfolding over(1) c1_def [symmetric] using part_reset_part [OF assms(1) _ that, of i] ih(2) i by simp
    then have "same_from 0 (incr_rule rs i c) (incr_rule rs (Suc i) c1)" by (simp add: same_from_def)
    then have "incr_rule rs i c = incr_rule rs (Suc i) c1" by (simp add: same_from_0)
    moreover have "part (incr_rule rs (Suc i) c1) i = r_min (rs ! i)" using ih(2) by simp
    ultimately show ?thesis using ih v by (auto simp: up upto_from_def same_from_Suc [OF Suc.prems(1)])
  qed
qed

section \<open>What the search finds\<close>

text \<open>Every check holds.\<close>

definition passes :: "cron_rules \<Rightarrow> candidate \<Rightarrow> bool" where
  "passes rl c \<longleftrightarrow> (\<forall>k \<in> set all_checks. check_valid rl k c = Inr True)"

text \<open>The steps are not zero, and the first value of each range below the year is on its step: a
  reset to it then leaves the part valid.\<close>

definition aligned :: "cron_rules \<Rightarrow> bool" where
  "aligned rl \<longleftrightarrow> (\<forall>i \<le> 4. r_each (ranges rl ! i) \<noteq> 0) \<and>
     (\<forall>i < 4. r_min (ranges rl ! i) smod r_each (ranges rl ! i) = 0)"

lemma range_valid_part:
  assumes "linked (ranges rl)" and "i \<le> 4" and "aligned rl"
  shows "check_valid rl (CheckRange i) c =
    Inr (r_min (ranges rl ! i) \<le> part c i \<and> part c i \<le> r_max (ranges rl ! i) \<and>
         part c i smod r_each (ranges rl ! i) = 0)"
  using assms by (auto simp: check_valid_def range_valid_def linked_def aligned_def Let_def)

lemma passes_within:
  assumes "linked (ranges rl)" and "aligned rl" and "passes rl v"
  shows "within (ranges rl) v"
  using assms range_valid_part [OF assms(1) _ assms(2)]
  by (simp add: passes_def all_checks_def within_def all_le_4)

text \<open>A check depends on the parts from its own up: the range rules on one part, the others on
  the date.\<close>

definition check_level :: "check \<Rightarrow> nat" where
  "check_level k = (case k of CheckRange i \<Rightarrow> i | _ \<Rightarrow> 2)"

lemma check_valid_level:
  assumes "linked (ranges rl)" and "k \<in> set all_checks" and "same_from (check_level k) a b"
  shows "check_valid rl k a = check_valid rl k b"
proof (cases k)
  case (CheckRange i)
  with assms have "i \<le> 4" "part a i = part b i"
    by (auto simp: all_checks_def check_level_def same_from_def)
  then show ?thesis using assms(1) CheckRange
    by (simp add: check_valid_def range_valid_def linked_def)
next
  case CheckWeekDay
  then have "c_mday a = c_mday b" "c_mon a = c_mon b" "c_year a = c_year b"
    using assms(3) same_from_def [of 2 a b]
    by (auto simp: check_level_def cand_get_def all_le_4 dest: spec [of _ 2] spec [of _ 3] spec [of _ 4])
  then show ?thesis by (simp add: CheckWeekDay check_valid_def week_valid_def)
next
  case CheckDate
  then have "c_mday a = c_mday b" "c_mon a = c_mon b" "c_year a = c_year b"
    using assms(3) same_from_def [of 2 a b]
    by (auto simp: check_level_def cand_get_def all_le_4 dest: spec [of _ 2] spec [of _ 3] spec [of _ 4])
  then show ?thesis by (simp add: CheckDate check_valid_def date_valid_def)
qed

lemma check_incr_level: "k \<in> set all_checks \<Longrightarrow>
    fst (check_incr rl k c) = incr_rule (ranges rl) (check_level k) c \<and> check_level k \<le> 4"
  by (auto simp: all_checks_def check_incr_def check_level_def)

text \<open>A failed check moves on, and not over a time that passes.\<close>

lemma failed_check_forward:
  assumes "linked (ranges rl)" and "aligned rl" and "k \<in> set all_checks"
    and "check_valid rl k c = Inr False" and "passes rl v" and "upto_from 0 c v"
  shows "upto_from 0 (fst (check_incr rl k c)) v \<and> earlier c (fst (check_incr rl k c))"
proof -
  let ?i = "check_level k" and ?c = "fst (check_incr rl k c)"
  note lev = check_incr_level [OF assms(3), of rl c]
  have "check_valid rl k v = Inr True" using assms(3,5) by (simp add: passes_def)
  then have "\<not> same_from ?i c v" using check_valid_level [OF assms(1,3)] assms(4) by force
  moreover have "upto_from ?i c v" using upto_from_drop assms(6) lev by blast
  ultimately have "earlier_from ?i c v" by (simp add: upto_from_def)
  from incr_rule_forward [OF assms(1) passes_within [OF assms(1,2,5)] _ this] lev
  have f: "upto_from ?i ?c v" "\<forall>j < ?i. part ?c j = r_min (ranges rl ! j)" "earlier_from ?i c ?c"
    by auto
  have "\<forall>j < ?i. part ?c j \<le> part v j"
    using f(2) passes_within [OF assms(1,2,5)] lev by (auto simp: within_def)
  with f(1) lev have "upto_from 0 ?c v" by (blast intro: upto_from_lower)
  moreover have "earlier_from 0 c ?c"
    using f(3) by (auto simp: earlier_from_def)
  ultimately show ?thesis by (simp add: earlier_from_0)
qed

section \<open>How long the search takes\<close>

definition calendar :: "candidate \<Rightarrow> bool" where
  "calendar c \<longleftrightarrow> 1 \<le> c_mon c \<and> c_mon c \<le> 12 \<and> 1 \<le> c_mday c \<and> c_mday c \<le> 31 \<and>
     0 \<le> c_hour c \<and> c_hour c \<le> 23 \<and> 0 \<le> c_min c \<and> c_min c \<le> 59"

text \<open>A number for every candidate, in their order; the difference of two bounds the steps of a
  search between them.\<close>

definition code :: "candidate \<Rightarrow> int" where
  "code c = (((c_year c * 13 + c_mon c) * 32 + c_mday c) * 24 + c_hour c) * 60 + c_min c"

lemma digit_less:
  fixes q :: int
  assumes "q < q' \<or> (q = q' \<and> r < r')" and "0 \<le> r" "r < B" "0 \<le> r'"
  shows "q * B + r < q' * B + r'"
proof (cases "q = q'")
  case True
  then show ?thesis using assms by simp
next
  case False
  then have "(q + 1) * B \<le> q' * B" using assms by (intro mult_right_mono) auto
  then show ?thesis using assms by (simp add: algebra_simps)
qed

lemma code_less: "earlier a b \<Longrightarrow> calendar a \<Longrightarrow> calendar b \<Longrightarrow> code a < code b"
  unfolding code_def earlier_def calendar_def
  by (intro digit_less) (auto intro: digit_less)

lemma incr_rule_shape:
  assumes "linked rs" and "i \<le> 4"
  obtains w where "incr_rule rs i c = reset_part rs i (cand_set c (4 - i) w)"
      "r_min (rs ! i) \<le> w" "w \<le> r_max (rs ! i)"
  | "i < 4" "incr_rule rs i c =
      reset_part rs i (incr_rule rs (Suc i) (cand_set c (4 - i) (r_min (rs ! i))))"
  using incr_rule_cases [OF assms, of c] assms
  by (fastforce simp: linked_def split: if_splits)

lemma incr_rule_parts:
  assumes "linked rs" and "k \<le> 4"
  shows "i \<le> 4 \<Longrightarrow> part (incr_rule rs i c) k = part c k \<or>
    (r_min (rs ! k) \<le> part (incr_rule rs i c) k \<and> part (incr_rule rs i c) k \<le> r_max (rs ! k))"
proof (induction "4 - i" arbitrary: i c rule: less_induct)
  case less
  have lim: "r_min (rs ! k) \<le> r_max (rs ! k)" using assms by (simp add: linked_def)
  note reset = part_reset_part [OF assms(1) _ assms(2), of i] part_set [OF less.prems assms(2)]
  show ?case
  proof (cases rule: incr_rule_shape [OF assms(1) less.prems, of c])
    case (1 w)
    show ?thesis unfolding 1(1) using 1(2,3) lim reset less.prems by auto
  next
    case 2
    define c1 where "c1 = cand_set c (4 - i) (r_min (rs ! i))"
    have "part (incr_rule rs (Suc i) c1) k = part c1 k \<or>
      (r_min (rs ! k) \<le> part (incr_rule rs (Suc i) c1) k \<and>
       part (incr_rule rs (Suc i) c1) k \<le> r_max (rs ! k))"
      using 2(1) by (intro less.hyps) auto
    then show ?thesis
      unfolding 2(2) c1_def [symmetric] using lim reset less.prems by (auto simp: c1_def)
  qed
qed

lemma incr_rule_below:
  assumes "linked rs" and "i \<le> 4" and "j < i"
  shows "part (incr_rule rs i c) j = r_min (rs ! j)"
proof -
  obtain X where "incr_rule rs i c = reset_part rs i X"
    by (cases rule: incr_rule_shape [OF assms(1,2), of c]) blast+
  with part_reset_part [OF assms(1), of i j X] assms show ?thesis by simp
qed

lemma calendar_incr:
  assumes "rules_wf rl" and "i \<le> 4" and "calendar c"
  shows "calendar (incr_rule (ranges rl) i c)"
proof -
  define c' where "c' = incr_rule (ranges rl) i c"
  have parts: "part c' k = part c k \<or> (r_min (ranges rl ! k) \<le> part c' k \<and> part c' k \<le> r_max (ranges rl ! k))"
    if "k \<le> 4" for k
    unfolding c'_def by (rule incr_rule_parts [OF rules_wf_linked [OF assms(1)] that assms(2)])
  have wf: "0 \<le> r_min (ranges rl ! 0)" "r_max (ranges rl ! 0) \<le> 59" "0 \<le> r_min (ranges rl ! 1)"
    "r_max (ranges rl ! 1) \<le> 23" "1 \<le> r_min (ranges rl ! 2)" "r_max (ranges rl ! 2) \<le> 31"
    "1 \<le> r_min (ranges rl ! 3)" "r_max (ranges rl ! 3) \<le> 12"
    using assms(1) by (simp_all only: rules_wf_def)
  have cal: "0 \<le> part c 0" "part c 0 \<le> 59" "0 \<le> part c 1" "part c 1 \<le> 23" "1 \<le> part c 2"
    "part c 2 \<le> 31" "1 \<le> part c 3" "part c 3 \<le> 12"
    using assms(3) by (simp_all add: calendar_def cand_get_def)
  have "0 \<le> part c' 0 \<and> part c' 0 \<le> 59" using parts [of 0] wf(1,2) cal(1,2) by linarith
  moreover have "0 \<le> part c' 1 \<and> part c' 1 \<le> 23" using parts [of 1] wf(3,4) cal(3,4) by linarith
  moreover have "1 \<le> part c' 2 \<and> part c' 2 \<le> 31" using parts [of 2] wf(5,6) cal(5,6) by linarith
  moreover have "1 \<le> part c' 3 \<and> part c' 3 \<le> 12" using parts [of 3] wf(7,8) cal(7,8) by linarith
  ultimately show ?thesis
    unfolding c'_def [symmetric] by (simp add: calendar_def cand_get_def)
qed

text \<open>The state of a search for the first time after \<open>start\<close>.\<close>

definition searching :: "cron_rules \<Rightarrow> candidate \<Rightarrow> candidate \<Rightarrow> bool" where
  "searching rl start c \<longleftrightarrow> calendar c \<and> earlier start c \<and>
     (\<forall>w. passes rl w \<and> earlier start w \<longrightarrow> upto_from 0 c w)"

lemma searching_start:
  assumes "rules_wf rl" and "aligned rl" and "calendar start" and "passes rl v" and "earlier start v"
  shows "searching rl start (incr_rule (ranges rl) 0 start)"
proof -
  note rl = rules_wf_linked [OF assms(1)]
  have "upto_from 0 (incr_rule (ranges rl) 0 start) w \<and> earlier start (incr_rule (ranges rl) 0 start)"
    if "passes rl w" and "earlier start w" for w
    using incr_rule_forward [OF rl passes_within [OF rl assms(2) that(1)], of 0 start] that(2)
    by (simp add: earlier_from_0)
  with assms calendar_incr [OF assms(1), of 0 start] show ?thesis by (auto simp: searching_def)
qed

lemma searching_step:
  assumes "rules_wf rl" and "aligned rl" and "searching rl start c" and "k \<in> set all_checks"
    and "check_valid rl k c = Inr False" and "passes rl v" and "earlier start v"
  shows "searching rl start (fst (check_incr rl k c)) \<and> code c < code (fst (check_incr rl k c))"
proof -
  let ?c = "fst (check_incr rl k c)"
  note fwd = failed_check_forward [OF rules_wf_linked [OF assms(1)] assms(2,4,5)]
  have "calendar ?c"
    using calendar_incr [OF assms(1)] check_incr_level [OF assms(4)] assms(3)
    by (auto simp: searching_def)
  moreover have "earlier c ?c" using fwd [OF assms(6)] assms(3,6,7) by (auto simp: searching_def)
  ultimately show ?thesis
    using assms(3) fwd code_less [of c ?c] earlier_trans [of start c ?c] by (auto simp: searching_def)
qed

lemma passes_calendar:
  assumes "rules_wf rl" and "aligned rl" and "passes rl v"
  shows "calendar v"
  using passes_within [OF rules_wf_linked [OF assms(1)] assms(2,3)] assms(1)
  by (auto simp: within_def all_le_4 rules_wf_def calendar_def cand_get_def)

lemma searching_code:
  assumes "rules_wf rl" and "aligned rl" and "searching rl start c" and "passes rl v" and "earlier start v"
  shows "code c \<le> code v"
  using assms passes_calendar [OF assms(1,2,4)] code_less [of c v]
  by (auto simp: searching_def upto_from_0)

section \<open>The loops return\<close>

lemma run_check_returns:
  assumes "rules_wf rl" and "aligned rl" and "passes rl v" and "earlier start v" and "k \<in> set all_checks"
  shows "searching rl start c \<Longrightarrow> code v - code c < int n \<Longrightarrow>
    \<exists>c' ok'. run_check n rl k c ok = Some (Inr (c', ok')) \<and> searching rl start c' \<and>
      code c \<le> code c' \<and> (ok \<and> \<not> ok' \<longrightarrow> code c < code c')"
proof (induction n arbitrary: c ok)
  case 0
  then show ?case using searching_code [OF assms(1,2) _ assms(3,4)] by force
next
  case (Suc n)
  obtain b where b: "check_valid rl k c = Inr b"
    using assms(5) range_valid_part [OF rules_wf_linked [OF assms(1)] _ assms(2)]
    by (cases k) (auto simp: all_checks_def check_valid_def)
  show ?case
  proof (cases b)
    case True
    with b Suc.prems show ?thesis by simp
  next
    case False
    let ?c = "fst (check_incr rl k c)"
    have step: "searching rl start ?c" "code c < code ?c"
      using searching_step [OF assms(1,2) Suc.prems(1) assms(5) _ assms(3,4)] b False by auto
    with Suc.prems(2) have "code v - code ?c < int n" by simp
    from Suc.IH [OF step(1) this] step b False show ?thesis
      by (cases "ok \<and> snd (check_incr rl k c)") (force simp: Let_def)+
  qed
qed

lemma run_checks_returns:
  assumes "rules_wf rl" and "aligned rl" and "passes rl v" and "earlier start v"
  shows "set ks \<subseteq> set all_checks \<Longrightarrow> searching rl start c \<Longrightarrow> code v - code c < int n \<Longrightarrow>
    \<exists>c' ok'. run_checks n rl ks c ok = Some (Inr (c', ok')) \<and> searching rl start c' \<and>
      code c \<le> code c' \<and> (ok \<and> \<not> ok' \<longrightarrow> code c < code c')"
proof (induction ks arbitrary: c ok)
  case Nil
  then show ?case by simp
next
  case (Cons k ks)
  then obtain c1 ok1 where 1: "run_check n rl k c ok = Some (Inr (c1, ok1))" "searching rl start c1"
    "code c \<le> code c1" "ok \<and> \<not> ok1 \<longrightarrow> code c < code c1"
    using run_check_returns [OF assms, of k c n ok] by auto
  moreover from 1 Cons.prems obtain c2 ok2 where "run_checks n rl ks c1 ok1 = Some (Inr (c2, ok2))"
    "searching rl start c2" "code c1 \<le> code c2" "ok1 \<and> \<not> ok2 \<longrightarrow> code c1 < code c2"
    using Cons.IH [of c1 ok1] by auto
  ultimately show ?case by auto
qed

text \<open>A check that lets the round go on holds afterwards, and spoils none before it.\<close>

lemma run_check_keeps:
  assumes "linked (ranges rl)" and "aligned rl" and "k \<in> set all_checks"
  shows "run_check n rl k c ok = Some (Inr (c', True)) \<Longrightarrow>
    ok \<and> check_valid rl k c' = Inr True \<and>
    (\<forall>j < check_level k. check_valid rl (CheckRange j) c = Inr True \<longrightarrow>
       check_valid rl (CheckRange j) c' = Inr True) \<and>
    (k \<in> {CheckWeekDay, CheckDate} \<longrightarrow> c' = c)"
proof (induction n arbitrary: c ok)
  case 0
  then show ?case by simp
next
  case (Suc n)
  obtain b where b: "check_valid rl k c = Inr b"
    using Suc.prems by (auto split: sum.splits)
  show ?case
  proof (cases b)
    case True
    with b Suc.prems show ?thesis by auto
  next
    case False
    let ?c = "fst (check_incr rl k c)"
    have go: "ok" "snd (check_incr rl k c)" "run_check n rl k ?c True = Some (Inr (c', True))"
      using Suc.prems b False by (auto simp: Let_def split: if_splits)
    then have "k \<notin> {CheckWeekDay, CheckDate}" by (auto simp: check_incr_def)
    moreover have "check_valid rl (CheckRange j) ?c = Inr True" if "j < check_level k" for j
    proof -
      have "part ?c j = r_min (ranges rl ! j)"
        using incr_rule_below [OF assms(1)] check_incr_level [OF assms(3)] that by simp
      moreover have "j \<le> 4" "j < 4" using check_incr_level [OF assms(3), of rl c] that by simp_all
      ultimately show ?thesis
        using range_valid_part [OF assms(1) _ assms(2)] assms(1,2) by (simp add: linked_def aligned_def)
    qed
    ultimately show ?thesis using Suc.IH [OF go(3)] go(1) by auto
  qed
qed

lemma run_checks_ok:
  assumes "linked (ranges rl)" and "aligned rl"
  shows "set ks \<subseteq> set all_checks \<Longrightarrow> run_checks n rl ks c ok = Some (Inr (c', True)) \<Longrightarrow> ok"
proof (induction ks arbitrary: c ok)
  case Nil
  then show ?case by simp
next
  case (Cons k ks)
  then obtain c1 ok1 where 1: "run_check n rl k c ok = Some (Inr (c1, ok1))"
    "run_checks n rl ks c1 ok1 = Some (Inr (c', True))"
    by (auto split: option.splits sum.splits)
  with Cons have "ok1" by simp
  with 1(1) run_check_keeps [OF assms, of k n c ok c1] Cons.prems(1) show ?case by simp
qed

lemma run_checks_ConsE:
  assumes "linked (ranges rl)" and "aligned rl" and "set ks \<subseteq> set all_checks"
    and "run_checks n rl (k # ks) c True = Some (Inr (c', True))"
  obtains c1 where "run_check n rl k c True = Some (Inr (c1, True))"
    "run_checks n rl ks c1 True = Some (Inr (c', True))"
proof -
  obtain c1 ok1 where "run_check n rl k c True = Some (Inr (c1, ok1))"
    "run_checks n rl ks c1 ok1 = Some (Inr (c', True))"
    using assms(4) by (auto split: option.splits sum.splits)
  moreover from this(2) have "ok1" by (rule run_checks_ok [OF assms(1-3)])
  ultimately show ?thesis using that by simp
qed

lemma run_checks_passes:
  assumes "linked (ranges rl)" and "aligned rl"
    and "run_checks n rl all_checks c True = Some (Inr (c', True))"
  shows "passes rl c'"
proof -
  note keep = run_check_keeps [OF assms(1,2)]
  note consE = run_checks_ConsE [OF assms(1,2)]
  obtain c0 c1 c2 c3 c4 c5 where
    "run_check n rl (CheckRange 0) c True = Some (Inr (c0, True))"
    "run_check n rl (CheckRange 1) c0 True = Some (Inr (c1, True))"
    "run_check n rl (CheckRange 2) c1 True = Some (Inr (c2, True))"
    "run_check n rl (CheckRange 3) c2 True = Some (Inr (c3, True))"
    "run_check n rl (CheckRange 4) c3 True = Some (Inr (c4, True))"
    "run_check n rl CheckWeekDay c4 True = Some (Inr (c5, True))"
    "run_check n rl CheckDate c5 True = Some (Inr (c', True))"
    using assms(3) unfolding all_checks_def
    by (elim consE [rotated]) (simp_all add: all_checks_def)
  note runs = this [THEN keep [rotated]]
  have 0: "check_valid rl (CheckRange 0) c0 = Inr True" using runs(1) by (simp add: all_checks_def)
  have 1: "check_valid rl (CheckRange 0) c1 = Inr True" "check_valid rl (CheckRange 1) c1 = Inr True"
    using runs(2) 0 by (simp_all add: all_checks_def check_level_def)
  have 2: "check_valid rl (CheckRange j) c2 = Inr True" if "j \<le> 2" for j
    using runs(3) 1 that by (auto simp: all_checks_def check_level_def le_Suc_eq numeral_2_eq_2)
  have 3: "check_valid rl (CheckRange j) c3 = Inr True" if "j \<le> 3" for j
    using runs(4) 2 that by (cases "j = 3") (auto simp: all_checks_def check_level_def)
  have 4: "check_valid rl (CheckRange j) c4 = Inr True" if "j \<le> 4" for j
    using runs(5) 3 that by (cases "j = 4") (auto simp: all_checks_def check_level_def)
  have 5: "c5 = c4" "check_valid rl CheckWeekDay c5 = Inr True"
    using runs(6) by (auto simp only: all_checks_def list.set insert_iff)
  have 6: "c' = c5" "check_valid rl CheckDate c' = Inr True"
    using runs(7) by (auto simp only: all_checks_def list.set insert_iff)
  have "check_valid rl CheckWeekDay c' = Inr True" using 5(2) 6(1) by (simp only:)
  moreover have "check_valid rl (CheckRange j) c' = Inr True" if "j \<le> 4" for j
    using 4 [OF that] 5(1) 6(1) by (simp only:)
  ultimately show ?thesis using 6(2) by (simp add: passes_def all_checks_def)
qed

lemma search_returns:
  assumes "rules_wf rl" and "aligned rl" and "passes rl v" and "earlier start v" and "c_year v < MAX_YEAR"
  shows "searching rl start c \<Longrightarrow> code v - code c < int n \<Longrightarrow> code v - code c < int m \<Longrightarrow>
    \<exists>c'. search m n rl c = Some (Inr c') \<and> searching rl start c' \<and> passes rl c'"
proof (induction m arbitrary: c)
  case 0
  then show ?case using searching_code [OF assms(1,2) _ assms(3,4)] by force
next
  case (Suc m)
  obtain c1 ok where 1: "run_checks n rl all_checks c True = Some (Inr (c1, ok))"
    "searching rl start c1" "code c \<le> code c1" "\<not> ok \<longrightarrow> code c < code c1"
    using run_checks_returns [OF assms(1-4) _ Suc.prems(1,2), of all_checks True] by auto
  have "upto_from 0 c1 v" using 1(2) assms(3,4) by (simp add: searching_def)
  then have year: "c_year c1 < MAX_YEAR" using assms(5) by (auto simp: upto_from_0 earlier_def)
  show ?case
  proof (cases ok)
    case True
    with 1 year run_checks_passes [OF rules_wf_linked [OF assms(1)] assms(2)] show ?thesis by auto
  next
    case False
    with 1 Suc.prems have "code v - code c1 < int n" "code v - code c1 < int m" by auto
    from Suc.IH [OF 1(2) this] 1 False year show ?thesis by simp
  qed
qed

lemma next_candidate_earliest:
  assumes "parse_timespec ts (c_year start) = Inr rl" and "aligned rl"
    and "c_year start \<le> MAX_YEAR" and "calendar start"
    and "passes rl v" and "earlier start v" and "c_year v < MAX_YEAR"
    and "code v - code start \<le> int fuel"
  shows "\<exists>c. next_candidate fuel ts start = Some (Inr c) \<and> passes rl c \<and> earlier start c \<and>
    (\<forall>w. passes rl w \<and> earlier start w \<longrightarrow> earlier c w \<or> c = w)"
proof -
  have wf: "rules_wf rl" using parse_timespec_wf [OF assms(1,3)] by simp
  note s = searching_start [OF wf assms(2,4,5,6)]
  define c where "c = incr_rule (ranges rl) 0 start"
  have "code start < code c"
    using s assms(4) code_less by (simp add: searching_def c_def)
  with assms(8) have "code v - code c < int fuel" by simp
  from search_returns [OF wf assms(2,5-7) s [folded c_def] this this]
  show ?thesis using assms(1) by (auto simp: next_candidate_def c_def searching_def upto_from_0)
qed

section \<open>Properties\<close>

text \<open>C3: When every step of a schedule starts on its range's first value, \<open>calcNext\<close> returns,
  with fuel for the minutes up to any later time of the schedule before 2099, the earliest time
  after the start that passes all the checks.\<close>

theorem calcNext_earliest:
  assumes "parse_timespec ts (c_year start) = Inr rl" and "aligned rl"
    and "c_year start \<le> MAX_YEAR" and "calendar start"
    and "passes rl v" and "earlier start v" and "c_year v < MAX_YEAR"
    and "code v - code start \<le> int fuel"
  shows "\<exists>c. next_candidate fuel ts start = Some (Inr c) \<and> passes rl c \<and> earlier start c \<and>
    (\<forall>w. passes rl w \<and> earlier start w \<longrightarrow> earlier c w \<or> c = w)"
  by (rule next_candidate_earliest [OF assms])

definition workday_start :: candidate where
  "workday_start = \<lparr>c_year = 2024, c_mon = 3, c_mday = 1, c_hour = 18, c_min = 30\<rparr>"

definition workday_rules :: cron_rules where
  "workday_rules = \<lparr>ranges = [\<lparr>r_min = 0, r_max = 59, r_each = 30, r_partn = 4\<rparr>,
      \<lparr>r_min = 9, r_max = 18, r_each = 1, r_partn = 3\<rparr>, \<lparr>r_min = 1, r_max = 31, r_each = 1, r_partn = 2\<rparr>,
      \<lparr>r_min = 1, r_max = 12, r_each = 1, r_partn = 1\<rparr>,
      \<lparr>r_min = 2024, r_max = 2099, r_each = 1, r_partn = 0\<rparr>],
    week_days_of = [False, True, True, True, True, True, False]\<rparr>"

lemma workday_parse: "parse_timespec ''*/30 9-18 * * 1-5 *'' 2024 = Inr workday_rules"
  by code_simp

lemma workday_aligned: "aligned workday_rules"
  by (simp add: aligned_def all_le_4 all_less_4 workday_rules_def smod_int_alt_def)

lemma workday_passes:
  "passes workday_rules \<lparr>c_year = 2024, c_mon = 3, c_mday = 4, c_hour = 9, c_min = 0\<rparr>"
  by code_simp

theorem calcNext_earliest_witness:
  "\<exists>c. next_candidate 5000 ''*/30 9-18 * * 1-5 *'' workday_start = Some (Inr c) \<and>
    passes workday_rules c \<and> earlier workday_start c \<and>
    (\<forall>w. passes workday_rules w \<and> earlier workday_start w \<longrightarrow> earlier c w \<or> c = w)"
proof (rule calcNext_earliest [OF _ workday_aligned])
  show "parse_timespec ''*/30 9-18 * * 1-5 *'' (c_year workday_start) = Inr workday_rules"
    using workday_parse by (simp add: workday_start_def)
  show "passes workday_rules \<lparr>c_year = 2024, c_mon = 3, c_mday = 4, c_hour = 9, c_min = 0\<rparr>"
    by (rule workday_passes)
qed (simp_all add: workday_start_def MAX_YEAR_def calendar_def earlier_def code_def)

text \<open>A year range that ends is wrapped to its beginning.\<close>

lemma incr_year:
  assumes "linked (ranges rl)" and "k \<in> set all_checks" and "c_year c \<le> r_max (ranges rl ! 4)"
  shows "c_year (fst (check_incr rl k c)) \<le> r_max (ranges rl ! 4)"
proof -
  have i: "check_level k \<le> 4" "fst (check_incr rl k c) = incr_rule (ranges rl) (check_level k) c"
    using check_incr_level [OF assms(2), of rl c] by simp_all
  show ?thesis
    using incr_rule_parts [OF assms(1) _ i(1), of 4 c] assms(3)
    unfolding i(2) by (auto simp: cand_get_def)
qed

lemma run_check_year:
  assumes "linked (ranges rl)" and "k \<in> set all_checks"
  shows "c_year c \<le> r_max (ranges rl ! 4) \<Longrightarrow> run_check n rl k c ok = Some (Inr (c', ok')) \<Longrightarrow>
    c_year c' \<le> r_max (ranges rl ! 4)"
proof (induction n arbitrary: c ok)
  case 0
  then show ?case by simp
next
  case (Suc n)
  from Suc.prems(2) Suc.IH [OF incr_year [OF assms Suc.prems(1)]] show ?case
    using Suc.prems(1) incr_year [OF assms Suc.prems(1)]
    by (auto simp: Let_def split: sum.splits if_splits)
qed

lemma run_checks_year:
  assumes "linked (ranges rl)"
  shows "set ks \<subseteq> set all_checks \<Longrightarrow> c_year c \<le> r_max (ranges rl ! 4) \<Longrightarrow>
    run_checks n rl ks c ok = Some (Inr (c', ok')) \<Longrightarrow> c_year c' \<le> r_max (ranges rl ! 4)"
proof (induction ks arbitrary: c ok)
  case Nil
  then show ?case by simp
next
  case (Cons k ks)
  obtain c1 ok1 where 1: "run_check n rl k c ok = Some (Inr (c1, ok1))"
    "run_checks n rl ks c1 ok1 = Some (Inr (c', ok'))"
    using Cons.prems(3) by (auto split: option.splits sum.splits)
  have "c_year c1 \<le> r_max (ranges rl ! 4)"
    using run_check_year [OF assms _ Cons.prems(2) 1(1)] Cons.prems(1) by simp
  with Cons.IH [of c1 ok1] Cons.prems(1) 1(2) show ?case by simp
qed

lemma run_checks_no_error:
  assumes "linked (ranges rl)" and "aligned rl"
  shows "set ks \<subseteq> set all_checks \<Longrightarrow> run_checks n rl ks c ok \<noteq> Some (Inl e)"
proof (induction ks arbitrary: c ok)
  case Nil
  then show ?case by simp
next
  case (Cons k ks)
  have "check_valid rl k c \<noteq> Inl e" for c
    using Cons.prems range_valid_part [OF assms(1) _ assms(2)]
    by (cases k) (auto simp: all_checks_def check_valid_def)
  then have "run_check m rl k c ok \<noteq> Some (Inl e)" for m c ok
    by (induction m arbitrary: c ok) (auto simp: Let_def split: sum.splits)
  with Cons show ?case by (auto split: option.splits sum.splits)
qed

text \<open>C22: A schedule with aligned steps (no step is 0 and each range but that of the year starts at a
  multiple of its step) that no time satisfies and whose years end before 2099 is not rejected: the
  overflow of the year goes back to the first year of its range, and the search, run under the
  lock of the job queue, never returns, however long it runs.\<close>

theorem impossible_schedule_hangs:
  assumes "parse_timespec ts (c_year start) = Inr rl" and "aligned rl" and "c_year start \<le> MAX_YEAR"
    and "r_max (ranges rl ! 4) < MAX_YEAR" and "\<forall>c. \<not> passes rl c"
  shows "next_candidate fuel ts start = None"
proof -
  have wf: "rules_wf rl" "c_year start \<le> r_min (ranges rl ! 4)"
    using parse_timespec_wf [OF assms(1,3)] by simp_all
  note rl = rules_wf_linked [OF wf(1)]
  have search: "search m n rl c = None" if "c_year c \<le> r_max (ranges rl ! 4)" for m n c
    using that
  proof (induction m arbitrary: c)
    case 0
    then show ?case by simp
  next
    case (Suc m)
    show ?case
    proof (cases "run_checks n rl all_checks c True")
      case (Some r)
      then obtain c' ok where r: "run_checks n rl all_checks c True = Some (Inr (c', ok))"
        using run_checks_no_error [OF rl assms(2), of all_checks] by (cases r) auto
      moreover have "\<not> ok"
        using r run_checks_passes [OF rl assms(2)] assms(5) by (cases ok) auto
      moreover have "c_year c' \<le> r_max (ranges rl ! 4)"
        using run_checks_year [OF rl _ Suc.prems r] by simp
      ultimately show ?thesis using Suc.IH assms(4) by simp
    qed simp
  qed
  have "r_min (ranges rl ! 4) \<le> r_max (ranges rl ! 4)" using rl by (simp add: linked_def)
  then have "c_year (incr_rule (ranges rl) 0 start) \<le> r_max (ranges rl ! 4)"
    using incr_rule_parts [OF rl, of 4 0 start] wf(2) by (auto simp: cand_get_def)
  from search [OF this] assms(1) show ?thesis by (simp add: next_candidate_def)
qed

definition feb30_rules :: cron_rules where
  "feb30_rules = \<lparr>ranges = [\<lparr>r_min = 0, r_max = 0, r_each = 1, r_partn = 4\<rparr>,
      \<lparr>r_min = 0, r_max = 0, r_each = 1, r_partn = 3\<rparr>, \<lparr>r_min = 30, r_max = 30, r_each = 1, r_partn = 2\<rparr>,
      \<lparr>r_min = 2, r_max = 2, r_each = 1, r_partn = 1\<rparr>,
      \<lparr>r_min = 2030, r_max = 2030, r_each = 1, r_partn = 0\<rparr>],
    week_days_of = replicate 7 True\<rparr>"

lemma feb30_parse: "parse_timespec ''0 0 30 2 * 2030'' 2024 = Inr feb30_rules"
  by code_simp

lemma feb30_aligned: "aligned feb30_rules"
  by (simp add: aligned_def all_le_4 all_less_4 feb30_rules_def smod_int_alt_def)

lemma feb30_never: "\<not> passes feb30_rules c"
proof
  assume *: "passes feb30_rules c"
  have "linked (ranges feb30_rules)" by (simp add: linked_def all_le_4 feb30_rules_def)
  from passes_within [OF this feb30_aligned *] have "c_mday c = 30" "c_mon c = 2"
    by (simp_all add: within_def all_le_4 cand_get_def feb30_rules_def)
  moreover from * have "date_valid c" by (simp add: passes_def all_checks_def check_valid_def)
  ultimately show False
    by (auto simp: date_valid_def days_per_month_valid split: if_splits)
qed

theorem impossible_schedule_hangs_witness:
  "\<forall>fuel. next_candidate fuel ''0 0 30 2 * 2030'' workday_start = None"
proof
  fix fuel
  show "next_candidate fuel ''0 0 30 2 * 2030'' workday_start = None"
  proof (rule impossible_schedule_hangs [OF _ feb30_aligned])
    show "parse_timespec ''0 0 30 2 * 2030'' (c_year workday_start) = Inr feb30_rules"
      using feb30_parse by (simp add: workday_start_def)
    show "\<forall>c. \<not> passes feb30_rules c" using feb30_never by blast
  qed (simp_all add: workday_start_def MAX_YEAR_def feb30_rules_def)
qed

text \<open>A step that no value of the minute range is on.\<close>

lemma step_without_value_hangs:
  assumes "parse_timespec ts (c_year start) = Inr rl" and "c_year start \<le> MAX_YEAR"
    and "r_each (ranges rl ! 0) \<noteq> 0"
    and "\<forall>x. r_min (ranges rl ! 0) \<le> x \<and> x \<le> r_max (ranges rl ! 0) \<longrightarrow> x smod r_each (ranges rl ! 0) \<noteq> 0"
  shows "next_candidate fuel ts start = None"
proof -
  have "check_valid rl (CheckRange 0) c = Inr False" for c
    using assms(3,4) by (auto simp: check_valid_def range_valid_def Let_def)
  then have "run_check n rl (CheckRange 0) c True = None" for n c
    by (induction n arbitrary: c) (auto simp: check_incr_def Let_def)
  then have "search m n rl c = None" for m n c
    by (cases m) (simp_all add: all_checks_def)
  with assms(1) show ?thesis by (simp add: next_candidate_def)
qed

definition minute_rules :: cron_rules where
  "minute_rules = \<lparr>ranges = [\<lparr>r_min = 5, r_max = 6, r_each = 7, r_partn = 4\<rparr>,
      \<lparr>r_min = 0, r_max = 23, r_each = 1, r_partn = 3\<rparr>, \<lparr>r_min = 1, r_max = 31, r_each = 1, r_partn = 2\<rparr>,
      \<lparr>r_min = 1, r_max = 12, r_each = 1, r_partn = 1\<rparr>,
      \<lparr>r_min = 2024, r_max = 2099, r_each = 1, r_partn = 0\<rparr>], week_days_of = replicate 7 True\<rparr>"

lemma minute_step_parse: "parse_timespec ''5-6/7 * * * * *'' 2024 = Inr minute_rules"
  by code_simp

lemma minute_step_hangs: "next_candidate fuel ''5-6/7 * * * * *'' workday_start = None"
proof (rule step_without_value_hangs)
  show "parse_timespec ''5-6/7 * * * * *'' (c_year workday_start) = Inr minute_rules"
    using minute_step_parse by (simp add: workday_start_def)
  have "x = 5 \<or> x = 6" if "5 \<le> x" "x \<le> 6" for x :: int using that by linarith
  then show "\<forall>x. r_min (ranges minute_rules ! 0) \<le> x \<and> x \<le> r_max (ranges minute_rules ! 0) \<longrightarrow>
      x smod r_each (ranges minute_rules ! 0) \<noteq> 0"
    by (force simp: minute_rules_def smod_int_alt_def)
qed (simp_all add: workday_start_def MAX_YEAR_def minute_rules_def)

text \<open>Without the alignment a reset leaves a part off its step and the check is not repeated: every
  fifth day in June is found on June 1.  A step of zero divides by zero.  A year that has begun
  gives a time in the past.\<close>

lemma reset_off_step:
  "next_candidate 100 ''0 0 */5 6 * *'' workday_start =
     Some (Inr \<lparr>c_year = 2024, c_mon = 6, c_mday = 1, c_hour = 0, c_min = 0\<rparr>)"
  by code_simp

lemma zero_step: "next_candidate 100 ''1-59/0 * * * * *'' workday_start = Some (Inl DivisionByZero)"
  by code_simp

lemma past_time:
  "next_candidate 100 ''0 0 1 1 * 2024'' workday_start =
     Some (Inr \<lparr>c_year = 2024, c_mon = 1, c_mday = 1, c_hour = 0, c_min = 0\<rparr>)"
  by code_simp

end
