(* ===== verification/TimeProvider.thy ===== *)
theory TimeProvider
  imports Prelude
begin

text \<open>
  \<open>components/system/src/time_provider.cc\<close>: the state the waiting threads share, the waits
  with their wake-ups, the handlers of a time change, and the monitor of the system clock.
  What happens outside while a thread is blocked is a list of wake-ups; a wait that needs more
  of them than there are has not returned (\<open>None\<close>).
\<close>

section \<open>State\<close>

datatype tp_state = TP_Wait | TP_TimeChange | TP_Interrupt

text \<open>A \<open>TimeChangedCb\<close> is a \<open>std::function\<close>: the type of the callable it holds, which is
  all \<open>unsubscribe\<close> compares, and which callable of that type it is.\<close>

record callback =
  target_type :: string
  target :: nat

record time_provider =
  tp_state_of :: tp_state
  handlers :: "callback list"

definition tp_new :: time_provider where
  "tp_new = \<lparr>tp_state_of = TP_Wait, handlers = []\<rparr>"

definition interruptWait :: "time_provider \<Rightarrow> time_provider" where
  "interruptWait tp = tp\<lparr>tp_state_of := TP_Interrupt\<rparr>"

definition subscribe :: "callback \<Rightarrow> time_provider \<Rightarrow> time_provider" where
  "subscribe cb tp = tp\<lparr>handlers := handlers tp @ [cb]\<rparr>"

definition unsubscribe :: "callback \<Rightarrow> time_provider \<Rightarrow> time_provider" where
  "unsubscribe cb tp =
     tp\<lparr>handlers := filter (\<lambda>innerCb. target_type cb \<noteq> target_type innerCb) (handlers tp)\<rparr>"

text \<open>The result lists the calls made, in order.\<close>

definition onTimeChanged :: "int \<Rightarrow> time_provider \<Rightarrow> time_provider \<times> (callback \<times> int) list" where
  "onTimeChanged oldTime tp =
     (tp\<lparr>tp_state_of := TP_TimeChange\<rparr>, map (\<lambda>cb. (cb, oldTime)) (handlers tp))"

section \<open>Waiting\<close>

text \<open>One wake-up of a blocked thread: what another thread stored into \<open>_state\<close> meanwhile,
  whether the condition variable reports a timeout, and the clock read afterwards.\<close>

record wake =
  w_set :: "tp_state option"
  w_timeout :: bool
  w_now :: int

definition stored :: "tp_state \<Rightarrow> wake \<Rightarrow> tp_state" where
  "stored s w = (case w_set w of Some s' \<Rightarrow> s' | None \<Rightarrow> s)"

text \<open>The result of a wait: the state it returns, and the wake-ups that are still to come.\<close>

fun wait_loop :: "tp_state \<Rightarrow> wake list \<Rightarrow> (tp_state \<times> wake list) option" where
  "wait_loop s [] = None"
| "wait_loop s (w # ws) =
     (let s1 = stored s w
      in if s1 = TP_TimeChange \<or> s1 = TP_Interrupt then Some (s1, ws) else wait_loop s1 ws)"

definition tp_wait :: "wake list \<Rightarrow> (tp_state \<times> wake list) option" where
  "tp_wait ws = wait_loop TP_Wait ws"

fun waitFor_loop :: "int \<Rightarrow> tp_state \<Rightarrow> wake list \<Rightarrow> (tp_state \<times> wake list) option" where
  "waitFor_loop deadline s [] = None"
| "waitFor_loop deadline s (w # ws) =
     (let s1 = (if w_timeout w then TP_Wait else stored s w)
      in if deadline > w_now w \<and> s1 \<noteq> TP_Interrupt then waitFor_loop deadline s1 ws
         else Some (s1, ws))"

definition waitFor :: "int \<Rightarrow> int \<Rightarrow> wake list \<Rightarrow> (tp_state \<times> wake list) option" where
  "waitFor current duration ws = waitFor_loop (current + duration) TP_Wait ws"

definition waitUntil :: "tp_state \<Rightarrow> int \<Rightarrow> int \<Rightarrow> wake list \<Rightarrow> (tp_state \<times> wake list) option" where
  "waitUntil s current time ws =
     (if time \<le> current then Some (s, ws) else waitFor current (time - current) ws)"

text \<open>\<open>sleep\<close> waits on a mutex of its own and drops the result.\<close>

definition tp_sleep :: "int \<Rightarrow> int \<Rightarrow> wake list \<Rightarrow> wake list option" where
  "tp_sleep current duration ws = map_option snd (waitFor current duration ws)"

section \<open>The monitor of the system clock\<close>

text \<open>The polls made until the stop flag is seen: a timeout with the clock read after it, a
  readable timer with the result of \<open>read\<close> and whether \<open>errno\<close> was \<open>ECANCELED\<close>, or a
  failed poll.  The result: the exception that ends the thread, if any, the provider, and the
  handler calls made.\<close>

datatype poll_event = PollTimeout int | PollReady int bool | PollFailed

fun monitor_loop :: "int \<Rightarrow> time_provider \<Rightarrow> poll_event list \<Rightarrow>
    cpp_error option \<times> time_provider \<times> (callback \<times> int) list" where
  "monitor_loop oldTime tp [] = (None, tp, [])"
| "monitor_loop oldTime tp (PollTimeout t # es) = monitor_loop t tp es"
| "monitor_loop oldTime tp (PollReady retRead canceled # es) =
     (if retRead < 0
      then (if \<not> canceled then (Some RuntimeError, tp, [])
            else (let (tp1, calls1) = onTimeChanged oldTime tp;
                      (e, tp2, calls2) = monitor_loop oldTime tp1 es
                  in (e, tp2, calls1 @ calls2)))
      else monitor_loop oldTime tp es)"
| "monitor_loop oldTime tp (PollFailed # es) = (Some RuntimeError, tp, [])"

definition sysTimeChangeMonitor :: "int \<Rightarrow> int \<Rightarrow> time_provider \<Rightarrow> poll_event list \<Rightarrow>
    cpp_error option \<times> time_provider \<times> (callback \<times> int) list" where
  "sysTimeChangeMonitor retSettime now tp es =
     (if retSettime < 0 then (Some RuntimeError, tp, []) else monitor_loop now tp es)"

section \<open>Lemmas\<close>

definition after_wake :: "tp_state \<Rightarrow> wake \<Rightarrow> tp_state" where
  "after_wake s w = (if w_timeout w then TP_Wait else stored s w)"

definition state_at :: "tp_state \<Rightarrow> wake list \<Rightarrow> nat \<Rightarrow> tp_state" where
  "state_at s ws k = foldl after_wake s (take k ws)"

lemma state_at_0 [simp]: "state_at s ws 0 = s"
  by (simp add: state_at_def)

lemma state_at_Suc [simp]: "state_at s (w # ws) (Suc k) = state_at (after_wake s w) ws k"
  by (simp add: state_at_def)

text \<open>The wake-up that ends a wait.\<close>

definition ends_wait :: "int \<Rightarrow> tp_state \<Rightarrow> wake list \<Rightarrow> nat \<Rightarrow> bool" where
  "ends_wait d s ws n \<longleftrightarrow> w_now (ws ! n) \<ge> d \<or> state_at s ws (Suc n) = TP_Interrupt"

lemma waitFor_loop_Some:
  "waitFor_loop d s ws = Some r \<longleftrightarrow>
     (\<exists>n < length ws. ends_wait d s ws n \<and> (\<forall>m < n. \<not> ends_wait d s ws m) \<and>
        r = (state_at s ws (Suc n), drop (Suc n) ws))"
proof (induction ws arbitrary: s)
  case Nil
  then show ?case by simp
next
  case (Cons w ws)
  have shift: "ends_wait d s (w # ws) (Suc n) = ends_wait d (after_wake s w) ws n" for n
    by (simp add: ends_wait_def)
  have now: "ends_wait d s (w # ws) 0 \<longleftrightarrow> w_now w \<ge> d \<or> after_wake s w = TP_Interrupt"
    by (simp add: ends_wait_def)
  show ?case
  proof (cases "ends_wait d s (w # ws) 0")
    case True
    then have "waitFor_loop d s (w # ws) = Some (after_wake s w, ws)"
      by (auto simp: now after_wake_def Let_def)
    moreover have "(\<exists>n < length (w # ws). ends_wait d s (w # ws) n \<and>
        (\<forall>m < n. \<not> ends_wait d s (w # ws) m) \<and> r = (state_at s (w # ws) (Suc n), drop (Suc n) (w # ws)))
      \<longleftrightarrow> r = (after_wake s w, ws)"
      using True by (simp add: Ex_less_Suc2 All_less_Suc2)
    ultimately show ?thesis by auto
  next
    case False
    then have loop: "waitFor_loop d s (w # ws) = waitFor_loop d (after_wake s w) ws"
      by (auto simp: now after_wake_def Let_def)
    show ?thesis
      unfolding loop Cons.IH using False
      by (simp add: Ex_less_Suc2 All_less_Suc2 shift)
  qed
qed

section \<open>Properties\<close>

text \<open>C34: A wait for a duration returns at the first wake-up at which the clock has reached the
  deadline or the wait was interrupted, and at no other; time changes and spurious wake-ups
  before that do not end it.\<close>

theorem waitFor_correct:
  "waitFor current duration ws = Some (s', rest) \<longleftrightarrow>
     (\<exists>n < length ws.
        (w_now (ws ! n) \<ge> current + duration \<or> state_at TP_Wait ws (Suc n) = TP_Interrupt) \<and>
        (\<forall>m < n. w_now (ws ! m) < current + duration \<and> state_at TP_Wait ws (Suc m) \<noteq> TP_Interrupt) \<and>
        s' = state_at TP_Wait ws (Suc n) \<and> rest = drop (Suc n) ws)"
  unfolding waitFor_def waitFor_loop_Some ends_wait_def by (auto simp: not_le)

theorem waitFor_correct_witness:
  "waitFor 100 10 [\<lparr>w_set = Some TP_TimeChange, w_timeout = False, w_now = 105\<rparr>,
     \<lparr>w_set = None, w_timeout = True, w_now = 110\<rparr>] = Some (TP_Wait, [])"
  unfolding waitFor_correct
  by (simp add: Ex_less_Suc2 All_less_Suc2 state_at_def after_wake_def stored_def)

lemma waitFor_deadline:
  assumes "waitFor current duration ws = Some (s', rest)" and "s' \<noteq> TP_Interrupt"
  shows "\<exists>w \<in> set ws. w_now w \<ge> current + duration"
  using assms unfolding waitFor_def waitFor_loop_Some ends_wait_def by auto

text \<open>A subscription history: the handlers called on a time change are the subscribed ones, in
  order, that no later \<open>unsubscribe\<close> of a callable of the same type removed.\<close>

datatype sub_op = Sub callback | Unsub callback

fun run_sub_ops :: "sub_op list \<Rightarrow> time_provider \<Rightarrow> time_provider" where
  "run_sub_ops [] tp = tp"
| "run_sub_ops (Sub cb # ops) tp = run_sub_ops ops (subscribe cb tp)"
| "run_sub_ops (Unsub cb # ops) tp = run_sub_ops ops (unsubscribe cb tp)"

definition removed_later :: "callback \<Rightarrow> sub_op list \<Rightarrow> bool" where
  "removed_later cb ops \<longleftrightarrow> (\<exists>cb'. Unsub cb' \<in> set ops \<and> target_type cb' = target_type cb)"

fun live_subs :: "sub_op list \<Rightarrow> callback list" where
  "live_subs [] = []"
| "live_subs (Sub cb # ops) = (if removed_later cb ops then live_subs ops else cb # live_subs ops)"
| "live_subs (Unsub cb # ops) = live_subs ops"

lemma run_sub_ops_handlers:
  "handlers (run_sub_ops ops tp) =
     filter (\<lambda>cb. \<not> removed_later cb ops) (handlers tp) @ live_subs ops"
proof (induction ops arbitrary: tp rule: live_subs.induct)
  case 1
  show ?case by (simp add: removed_later_def)
next
  case (2 cb ops)
  then show ?case by (simp add: subscribe_def removed_later_def)
next
  case (3 cb ops)
  have "removed_later c (Unsub cb # ops) \<longleftrightarrow> target_type cb = target_type c \<or> removed_later c ops" for c
    by (auto simp: removed_later_def)
  then show ?case by (simp add: 3 unsubscribe_def conj_commute)
qed

text \<open>A time change calls the handlers whose subscription was not followed by an
  \<open>unsubscribe\<close> of any callable of the same type, in the order of subscription, each with the
  old time.  Two handlers of one type cannot be told apart: removing one removes both.\<close>

theorem subscription_history:
  "snd (onTimeChanged oldTime (run_sub_ops ops tp_new)) = map (\<lambda>cb. (cb, oldTime)) (live_subs ops)"
  by (simp add: onTimeChanged_def run_sub_ops_handlers tp_new_def)

end
