(* ===== verification/CronQueue.thy ===== *)
theory CronQueue
  imports CronNext TimeProvider Containers
begin

text \<open>
  The jobs and the daemon of \<open>components/system/src/cron.cc\<close>: the queue sorted by execution
  time, adding and removing jobs, and one wake-up of the worker.  Every operation runs under the
  queue's mutex, so each is one step; the last section takes the steps of \<open>stop\<close> and of the
  worker apart, where they interleave.  \<open>localtime_r\<close> and \<open>mktime\<close> depend on the time zone
  and are parameters; so is the running of the callbacks, on a world with a clock.
\<close>

section \<open>Jobs\<close>

record 'cb cron_job =
  job_name :: string
  timespec :: string
  next_time :: int
  job_cb :: 'cb
  job_id :: int

record 'r world =
  clock :: int
  rest :: 'r

text \<open>The time zone, and the number of steps a search may take.\<close>

record zone =
  localtime :: "int \<Rightarrow> candidate option"
  mktime :: "candidate \<Rightarrow> int"
  steps :: nat

text \<open>An operation returns, loops for ever, is killed by a signal, or touches freed memory.\<close>

datatype 'a outcome = Returns 'a | Never | Killed | UseAfterFree

text \<open>\<open>calcNext\<close>: \<open>Inl ()\<close> is an exception, which every caller catches the same way.\<close>

definition calcNext :: "zone \<Rightarrow> string \<Rightarrow> int \<Rightarrow> (unit + int) outcome" where
  "calcNext z ts now =
     (case localtime z now of None \<Rightarrow> Returns (Inl ())
      | Some start \<Rightarrow>
          (case next_candidate (steps z) ts start of
             None \<Rightarrow> Never
           | Some (Inl e) \<Rightarrow> if e = DivisionByZero then Killed else Returns (Inl ())
           | Some (Inr c) \<Rightarrow> Returns (Inr (mktime z c))))"

text \<open>\<open>operator<\<close>\<close>

definition job_lt :: "'cb cron_job \<Rightarrow> 'cb cron_job \<Rightarrow> bool" where
  "job_lt lhs rhs \<longleftrightarrow> next_time lhs < next_time rhs"

interpretation jobs: strict_weak_order "job_lt :: 'cb cron_job \<Rightarrow> 'cb cron_job \<Rightarrow> bool"
  unfolding job_lt_def by (rule key_strict_weak_order)

section \<open>The daemon\<close>

record 'cb cron =
  queue :: "'cb cron_job list"
  working :: bool
  next_job_id :: int

definition invalidJobId :: int where "invalidJobId = - 1"

definition cron_new :: "'cb cron" where
  "cron_new = \<lparr>queue = [], working = False, next_job_id = 1\<rparr>"

text \<open>An empty \<open>std::function\<close> is \<open>None\<close>.\<close>

definition addJob :: "zone \<Rightarrow> int \<Rightarrow> string \<Rightarrow> string \<Rightarrow> 'cb option \<Rightarrow> 'cb cron \<Rightarrow> ('cb cron \<times> int) outcome" where
  "addJob z now name ts cb st =
     (case cb of None \<Rightarrow> Returns (st, invalidJobId)
      | Some f \<Rightarrow>
          (case calcNext z ts now of
             Returns (Inl _) \<Rightarrow> Returns (st, invalidJobId)
           | Returns (Inr t) \<Rightarrow>
               (let job = \<lparr>job_name = name, timespec = ts, next_time = t, job_cb = f,
                           job_id = next_job_id st\<rparr>
                in Returns (st\<lparr>queue := list_sort job_lt (queue st @ [job]),
                               next_job_id := next_job_id st + 1\<rparr>, job_id job))
           | Never \<Rightarrow> Never
           | Killed \<Rightarrow> Killed
           | UseAfterFree \<Rightarrow> UseAfterFree))"

definition jobExecutionTime :: "int \<Rightarrow> 'cb cron \<Rightarrow> int" where
  "jobExecutionTime jid st =
     (case find (\<lambda>job. job_id job = jid) (queue st) of Some job \<Rightarrow> next_time job | None \<Rightarrow> 0)"

definition unsafeRemoveJob :: "int \<Rightarrow> 'cb cron_job list \<Rightarrow> 'cb cron_job list" where
  "unsafeRemoveJob jid q = filter (\<lambda>job. job_id job \<noteq> jid) q"

definition removeJob :: "int \<Rightarrow> 'cb cron \<Rightarrow> 'cb cron" where
  "removeJob jid st = st\<lparr>queue := unsafeRemoveJob jid (queue st)\<rparr>"

definition start :: "'cb cron \<Rightarrow> 'cb cron \<times> bool" where
  "start st = (if working st then (st, False) else (st\<lparr>working := True\<rparr>, True))"

definition stop_flag :: "'cb cron \<Rightarrow> 'cb cron" where
  "stop_flag st = (if \<not> working st then st else st\<lparr>working := False\<rparr>)"

section \<open>One wake-up of the worker\<close>

text \<open>The loop over the queue with what is behind and before the iterator.  It ends with the
  \<open>return\<close> that ends the thread, with an exception of a callback, which the worker catches outside of the loop, or at
  the end of the queue.  Removing the current job frees the node the iterator is on; the loop then advances it.
  A callback is \<open>None\<close> when it throws.\<close>

datatype 'q loop_end = WorkerReturns 'q | CallbackThrows 'q | QueueDone 'q

fun due_loop :: "zone \<Rightarrow> ('cb \<Rightarrow> 'r world \<Rightarrow> bool option \<times> 'r world) \<Rightarrow> tp_state \<Rightarrow> int \<Rightarrow>
    'cb cron_job list \<Rightarrow> 'cb cron_job list \<Rightarrow> 'r world \<Rightarrow>
    'cb cron_job list loop_end outcome \<times> 'r world" where
  "due_loop z run state current passed [] w = (Returns (QueueDone passed), w)"
| "due_loop z run state current passed (job # js) w =
     (if next_time job \<le> current
      then (let (again, w1) = (if state \<noteq> TP_TimeChange then run (job_cb job) w else (Some True, w))
            in case again of
                 None \<Rightarrow> (Returns (CallbackThrows (passed @ job # js)), w1)
               | Some goes_on \<Rightarrow>
                   if \<not> goes_on then (Returns (WorkerReturns (unsafeRemoveJob (job_id job) (passed @ job # js))), w1)
                   else (case calcNext z (timespec job) (clock w1) of
                           Returns (Inr t) \<Rightarrow>
                             due_loop z run state current (passed @ [job\<lparr>next_time := t\<rparr>]) js w1
                         | Returns (Inl _) \<Rightarrow> (UseAfterFree, w1)
                         | Never \<Rightarrow> (Never, w1)
                         | Killed \<Rightarrow> (Killed, w1)
                         | UseAfterFree \<Rightarrow> (UseAfterFree, w1)))
      else due_loop z run state current (passed @ [job]) js w)"

text \<open>What the worker does with the queue once the wait is over; the Boolean says whether the
  thread goes on.\<close>

definition worker_wakes :: "zone \<Rightarrow> ('cb \<Rightarrow> 'r world \<Rightarrow> bool option \<times> 'r world) \<Rightarrow> tp_state \<Rightarrow>
    'cb cron \<Rightarrow> 'r world \<Rightarrow> ('cb cron \<times> bool) outcome \<times> 'r world" where
  "worker_wakes z run state st w =
     (case due_loop z run state (clock w) [] (queue st) w of
        (Returns (WorkerReturns q), w') \<Rightarrow> (Returns (st\<lparr>queue := q\<rparr>, False), w')
      | (Returns (CallbackThrows q), w') \<Rightarrow> (Returns (st\<lparr>queue := q\<rparr>, True), w')
      | (Returns (QueueDone q), w') \<Rightarrow> (Returns (st\<lparr>queue := list_sort job_lt q\<rparr>, True), w')
      | (Never, w') \<Rightarrow> (Never, w')
      | (Killed, w') \<Rightarrow> (Killed, w')
      | (UseAfterFree, w') \<Rightarrow> (UseAfterFree, w'))"

text \<open>One round of \<open>while (_working)\<close>, with the wake-ups of its wait; \<open>None\<close> is a worker that
  is still asleep.  The lock is released while it sleeps: \<open>st\<close> is the queue after the wait, and
  the time waited for is that of the front job before it.\<close>

definition worker_round :: "zone \<Rightarrow> ('cb \<Rightarrow> 'r world \<Rightarrow> bool option \<times> 'r world) \<Rightarrow> tp_state \<Rightarrow> wake list \<Rightarrow>
    'cb cron \<Rightarrow> 'cb cron \<Rightarrow> 'r world \<Rightarrow> 'r world \<Rightarrow> (('cb cron \<times> bool) outcome \<times> 'r world) option" where
  "worker_round z run s0 ws before st w0 w =
     (if \<not> working before then Some (Returns (before, False), w0)
      else (case queue before of
              [] \<Rightarrow> (case tp_wait ws of None \<Rightarrow> None | Some _ \<Rightarrow> Some (Returns (st, True), w))
            | front # _ \<Rightarrow>
                (case waitUntil s0 (clock w0) (next_time front) ws of None \<Rightarrow> None
                 | Some (state, _) \<Rightarrow> Some (worker_wakes z run state st w))))"

section \<open>The invariant\<close>

definition cron_inv :: "'cb cron \<Rightarrow> bool" where
  "cron_inv st \<longleftrightarrow> sorted_by job_lt (queue st) \<and> distinct (map job_id (queue st)) \<and>
     (\<forall>job \<in> set (queue st). 1 \<le> job_id job \<and> job_id job < next_job_id st) \<and> 1 \<le> next_job_id st"

lemma mset_map_list_sort: "mset (map f (list_sort lt xs)) = mset (map f xs)"
  by (simp add: mset_list_sort)

lemma distinct_list_sort: "distinct (map f (list_sort lt xs)) \<longleftrightarrow> distinct (map f xs)"
  using mset_map_list_sort mset_eq_imp_distinct_iff by blast

lemma cron_inv_new: "cron_inv cron_new"
  by (simp add: cron_inv_def cron_new_def)

lemma cron_inv_addJob:
  assumes "cron_inv st" and "addJob z now name ts cb st = Returns (st', r)"
  shows "cron_inv st'"
proof -
  consider "st' = st" | t f where "st' = st\<lparr>queue := list_sort job_lt (queue st @
      [\<lparr>job_name = name, timespec = ts, next_time = t, job_cb = f, job_id = next_job_id st\<rparr>]),
      next_job_id := next_job_id st + 1\<rparr>"
    using assms(2) by (auto simp: addJob_def Let_def split: option.splits outcome.splits sum.splits)
  then show ?thesis
  proof cases
    case 2
    with assms(1) show ?thesis
      by (auto simp: cron_inv_def distinct_list_sort jobs.sorted_list_sort)
  qed (use assms(1) in simp)
qed

lemma cron_inv_removeJob: "cron_inv st \<Longrightarrow> cron_inv (removeJob jid st)"
  by (auto simp: cron_inv_def removeJob_def unsafeRemoveJob_def sorted_wrt_filter distinct_map_filter)

text \<open>The loop keeps the jobs and changes at most their times.\<close>

lemma due_loop_ids:
  "due_loop z run state current passed js w = (Returns (QueueDone q), w') \<Longrightarrow>
     map job_id q = map job_id (passed @ js)"
proof (induction js arbitrary: passed w)
  case Nil
  then show ?case by simp
next
  case (Cons job js)
  from Cons.prems obtain passed' w1 where
    "due_loop z run state current passed' js w1 = (Returns (QueueDone q), w')"
    "map job_id passed' = map job_id (passed @ [job])"
    by (auto simp: Let_def split: if_splits outcome.splits sum.splits prod.splits option.splits)
  with Cons.IH [of passed' w1] show ?case by simp
qed

lemma unsafeRemoveJob_set: "set (unsafeRemoveJob jid q) = {job \<in> set q. job_id job \<noteq> jid}"
  by (auto simp: unsafeRemoveJob_def)

lemma cron_inv_sorted:
  assumes "cron_inv st" and "map job_id q = map job_id (queue st)"
  shows "cron_inv (st\<lparr>queue := list_sort job_lt q\<rparr>)"
proof -
  have ids: "job_id ` set q = job_id ` set (queue st)" using assms(2) by (metis set_map)
  have "\<forall>i \<in> job_id ` set q. 1 \<le> i \<and> i < next_job_id st"
    unfolding ids using assms(1) by (simp add: cron_inv_def)
  moreover have "distinct (map job_id q)" unfolding assms(2) using assms(1) by (simp add: cron_inv_def)
  ultimately show ?thesis
    using assms(1) by (simp add: cron_inv_def distinct_list_sort jobs.sorted_list_sort)
qed

text \<open>A due job that fails or cannot be rescheduled ends the loop; if there is none, every due job
  runs once, in the order of the queue, and is given the time after the one its run left.\<close>

definition runs :: "('cb \<Rightarrow> 'r world \<Rightarrow> bool option \<times> 'r world) \<Rightarrow> 'cb cron_job list \<Rightarrow> 'r world \<Rightarrow> 'r world" where
  "runs run js w = fold (\<lambda>job w. snd (run (job_cb job) w)) js w"

definition after_due :: "('cb \<Rightarrow> 'r world \<Rightarrow> bool option \<times> 'r world) \<Rightarrow> tp_state \<Rightarrow> int \<Rightarrow> 'cb cron_job list \<Rightarrow>
    'r world \<Rightarrow> 'r world" where
  "after_due run state current js w =
     (if state = TP_TimeChange then w else runs run (filter (\<lambda>job. next_time job \<le> current) js) w)"

text \<open>Job by job: one that is due has the time \<open>calcNext\<close> gives for its schedule from the clock as
  the callbacks up to and with its own left it; any other is as it was.\<close>

definition rescheduled :: "zone \<Rightarrow> ('cb \<Rightarrow> 'r world \<Rightarrow> bool option \<times> 'r world) \<Rightarrow> tp_state \<Rightarrow> int \<Rightarrow>
    'r world \<Rightarrow> 'cb cron_job list \<Rightarrow> 'cb cron_job list \<Rightarrow> bool" where
  "rescheduled z run state current w js q \<longleftrightarrow> length q = length js \<and>
     (\<forall>i < length js.
        if next_time (js ! i) \<le> current
        then \<exists>t. calcNext z (timespec (js ! i)) (clock (after_due run state current (take (Suc i) js) w)) = Returns (Inr t) \<and>
               q ! i = (js ! i)\<lparr>next_time := t\<rparr>
        else q ! i = js ! i)"

lemma rescheduled_Nil [simp]: "rescheduled z run state current w [] []"
  by (simp add: rescheduled_def)

lemma after_due_Cons: "after_due run state current (job # js) w = after_due run state current js (after_due run state current [job] w)"
  by (simp add: after_due_def runs_def)

lemma rescheduled_Cons:
  "rescheduled z run state current w (job # js) (job' # q) \<longleftrightarrow>
     (if next_time job \<le> current
      then \<exists>t. calcNext z (timespec job) (clock (after_due run state current [job] w)) = Returns (Inr t) \<and> job' = job\<lparr>next_time := t\<rparr>
      else job' = job) \<and>
     rescheduled z run state current (after_due run state current [job] w) js q"
  unfolding rescheduled_def by (auto simp: All_less_Suc2 after_due_Cons [of _ _ _ job "take _ _"])

lemma rescheduled_ids: "rescheduled z run state current w js q \<Longrightarrow> map job_id q = map job_id js"
  unfolding rescheduled_def by (intro nth_equalityI) (auto split: if_splits)

lemma rescheduled_kept:
  assumes "rescheduled z run state current w js q"
  shows "{job \<in> set js. \<not> next_time job \<le> current} \<subseteq> set q"
  using assms unfolding rescheduled_def by (force simp: in_set_conv_nth)

lemma due_loop_all:
  "\<forall>job \<in> set js. next_time job \<le> current \<longrightarrow>
      (\<forall>w. fst (run (job_cb job) w) = Some True) \<and> (\<forall>now. \<exists>t. calcNext z (timespec job) now = Returns (Inr t)) \<Longrightarrow>
    \<exists>q. due_loop z run state current passed js w = (Returns (QueueDone (passed @ q)), after_due run state current js w) \<and>
      rescheduled z run state current w js q"
proof (induction js arbitrary: passed w)
  case Nil
  show ?case by (simp add: after_due_def runs_def)
next
  case (Cons job js)
  define w1 where "w1 = after_due run state current [job] w"
  from Cons.prems have rest: "\<forall>job \<in> set js. next_time job \<le> current \<longrightarrow>
      (\<forall>w. fst (run (job_cb job) w) = Some True) \<and> (\<forall>now. \<exists>t. calcNext z (timespec job) now = Returns (Inr t))" by simp
  show ?case
  proof (cases "next_time job \<le> current")
    case True
    with Cons.prems obtain t where t: "calcNext z (timespec job) (clock w1) = Returns (Inr t)" by fastforce
    obtain q where q: "due_loop z run state current (passed @ [job\<lparr>next_time := t\<rparr>]) js w1 =
      (Returns (QueueDone ((passed @ [job\<lparr>next_time := t\<rparr>]) @ q)), after_due run state current js w1)"
      "rescheduled z run state current w1 js q"
      using Cons.IH [OF rest, of "passed @ [job\<lparr>next_time := t\<rparr>]" w1] by blast
    have ran: "(if state \<noteq> TP_TimeChange then run (job_cb job) w else (Some True, w)) = (Some True, w1)"
      using Cons.prems True by (simp add: w1_def after_due_def runs_def prod_eq_iff)
    have "due_loop z run state current passed (job # js) w =
      (Returns (QueueDone (passed @ job\<lparr>next_time := t\<rparr> # q)), after_due run state current js w1)"
      using True t q(1) by (simp only: due_loop.simps if_True ran Let_def prod.case outcome.case sum.case option.case
          simp_thms if_False) simp
    moreover have "rescheduled z run state current w (job # js) (job\<lparr>next_time := t\<rparr> # q)"
      using True t q(2) by (simp add: rescheduled_Cons flip: w1_def)
    ultimately show ?thesis unfolding after_due_Cons [of _ _ _ job js] w1_def by blast
  next
    case False
    have w1: "w1 = w" using False by (simp add: w1_def after_due_def runs_def)
    obtain q where q: "due_loop z run state current (passed @ [job]) js w =
      (Returns (QueueDone ((passed @ [job]) @ q)), after_due run state current js w)" "rescheduled z run state current w js q"
      using Cons.IH [OF rest, of "passed @ [job]" w] by blast
    moreover have "rescheduled z run state current w (job # js) (job # q)"
      using False q(2) w1 by (simp add: rescheduled_Cons flip: w1_def)
    ultimately show ?thesis using False unfolding after_due_Cons [of _ _ _ job js] w1_def [symmetric] w1 by force
  qed
qed

lemma due_loop_false:
  assumes "next_time job \<le> current" and "state \<noteq> TP_TimeChange" and "fst (run (job_cb job) w) = Some False"
  shows "due_loop z run state current passed (job # js) w =
    (Returns (WorkerReturns (unsafeRemoveJob (job_id job) (passed @ job # js))), snd (run (job_cb job) w))"
  using assms by (cases "run (job_cb job) w") (simp add: Let_def)

lemma jobExecutionTime_none: "j \<notin> job_id ` set (queue st) \<Longrightarrow> jobExecutionTime j st = 0"
  by (auto simp: jobExecutionTime_def find_Some_iff split: option.split)

lemma jobExecutionTime_member:
  assumes "cron_inv st" and "job \<in> set (queue st)"
  shows "jobExecutionTime (job_id job) st = next_time job"
proof (cases "find (\<lambda>job'. job_id job' = job_id job) (queue st)")
  case None
  with assms(2) show ?thesis by (auto simp: find_None_iff)
next
  case (Some job')
  then have "job' \<in> set (queue st)" "job_id job' = job_id job" by (auto simp: find_Some_iff)
  moreover have "inj_on job_id (set (queue st))" using assms(1) by (simp add: cron_inv_def distinct_map)
  ultimately have "job' = job" using assms(2) by (metis inj_onD)
  with Some show ?thesis by (simp add: jobExecutionTime_def)
qed

section \<open>Properties of the queue\<close>

text \<open>\<open>addJob\<close> either returns a new identifier, whose execution time is the one calculated,
  with the other jobs untouched, or \<open>invalidJobId\<close> with nothing changed; the queue stays sorted
  by time and the identifiers positive and distinct.\<close>

theorem addJob_correct:
  assumes "cron_inv st" and "addJob z now name ts cb st = Returns (st', jid)"
  shows "cron_inv st' \<and>
    (if jid = invalidJobId then st' = st
     else (\<exists>t. calcNext z ts now = Returns (Inr t) \<and> jobExecutionTime jid st' = t) \<and>
       jid \<notin> job_id ` set (queue st) \<and>
       (\<forall>j. j \<noteq> jid \<longrightarrow> jobExecutionTime j st' = jobExecutionTime j st))"
proof (cases "jid = invalidJobId")
  case True
  moreover have "st' = st"
    using assms True
    by (auto simp: addJob_def Let_def cron_inv_def invalidJobId_def
        split: option.splits outcome.splits sum.splits)
  ultimately show ?thesis using assms(1) by simp
next
  case False
  then obtain f t where t: "calcNext z ts now = Returns (Inr t)" "jid = next_job_id st"
    "st' = st\<lparr>queue := list_sort job_lt (queue st @
      [\<lparr>job_name = name, timespec = ts, next_time = t, job_cb = f, job_id = next_job_id st\<rparr>]),
      next_job_id := next_job_id st + 1\<rparr>"
    using assms(2) by (auto simp: addJob_def Let_def split: option.splits outcome.splits sum.splits)
  have inv: "cron_inv st'" by (rule cron_inv_addJob [OF assms])
  have set': "set (queue st') = insert \<lparr>job_name = name, timespec = ts, next_time = t, job_cb = f,
      job_id = next_job_id st\<rparr> (set (queue st))" using t(3) by simp
  have "jid \<notin> job_id ` set (queue st)" using assms(1) t(2) by (auto simp: cron_inv_def)
  moreover have "jobExecutionTime jid st' = t" using jobExecutionTime_member [OF inv, of "\<lparr>job_name = name, timespec = ts, next_time = t, job_cb = f,
      job_id = next_job_id st\<rparr>"] by (simp add: set' t(2))
  moreover have "jobExecutionTime j st' = jobExecutionTime j st" if "j \<noteq> jid" for j
  proof (cases "j \<in> job_id ` set (queue st)")
    case True
    then obtain job where "job \<in> set (queue st)" "job_id job = j" by blast
    with jobExecutionTime_member [OF inv, of job] jobExecutionTime_member [OF assms(1), of job] set'
    show ?thesis by auto
  next
    case False
    with that t(2) have "j \<notin> job_id ` set (queue st')" by (auto simp: set')
    with False show ?thesis by (simp add: jobExecutionTime_none)
  qed
  ultimately show ?thesis using False inv t(1) by auto
qed

definition utc_zone :: zone where
  "utc_zone = \<lparr>localtime = (\<lambda>t. Some \<lparr>c_year = 2024, c_mon = 3, c_mday = 1, c_hour = t div 3600,
       c_min = t mod 3600 div 60\<rparr>),
     mktime = (\<lambda>c. c_hour c * 3600 + c_min c * 60), steps = 100\<rparr>"

lemma utc_calcNext: "calcNext utc_zone ''30 * * * * *'' 3600 = Returns (Inr 5400)"
  by code_simp

theorem addJob_correct_witness:
  "\<exists>st' jid. addJob utc_zone 3600 ''a'' ''30 * * * * *'' (Some ()) cron_new = Returns (st', jid) \<and>
    cron_inv st' \<and> jid = 1 \<and> jobExecutionTime jid st' = 5400"
proof -
  obtain st' where st': "addJob utc_zone 3600 ''a'' ''30 * * * * *'' (Some ()) cron_new = Returns (st', 1)"
    by (simp add: addJob_def utc_calcNext Let_def cron_new_def)
  from addJob_correct [OF cron_inv_new st'] show ?thesis
    using st' by (auto simp: utc_calcNext invalidJobId_def)
qed

text \<open>C10: When the wait ends without a time change, every job that is due runs exactly once, in
  the order of the queue; after a time change none runs.  In both cases, if every due job returns
  true and its schedule has a next time, each due job is given the time \<open>calcNext\<close> finds from the
  clock its run left, the others are as they were, and the queue is sorted again.\<close>

theorem worker_performs_due:
  assumes "cron_inv st"
    and "\<forall>job \<in> set (queue st). next_time job \<le> clock w \<longrightarrow>
      (\<forall>w. fst (run (job_cb job) w) = Some True) \<and> (\<forall>now. \<exists>t. calcNext z (timespec job) now = Returns (Inr t))"
  shows "\<exists>st' q. worker_wakes z run state st w = (Returns (st', True),
      if state = TP_TimeChange then w
      else runs run (filter (\<lambda>job. next_time job \<le> clock w) (queue st)) w) \<and>
    queue st' = list_sort job_lt q \<and> rescheduled z run state (clock w) w (queue st) q \<and>
    cron_inv st' \<and> job_id ` set (queue st') = job_id ` set (queue st) \<and>
    {job \<in> set (queue st). \<not> next_time job \<le> clock w} \<subseteq> set (queue st')"
proof -
  obtain q where q: "due_loop z run state (clock w) [] (queue st) w = (Returns (QueueDone q),
      after_due run state (clock w) (queue st) w)" "rescheduled z run state (clock w) w (queue st) q"
    using due_loop_all [OF assms(2), where state = state and passed = "[]" and w = w] by auto
  note ids = rescheduled_ids [OF q(2)]
  then have "job_id ` set q = job_id ` set (queue st)" by (metis set_map)
  with q cron_inv_sorted [OF assms(1) ids] rescheduled_kept [OF q(2)]
  show ?thesis by (auto simp: worker_wakes_def after_due_def)
qed

definition log_run :: "nat \<Rightarrow> nat list world \<Rightarrow> bool option \<times> nat list world" where
  "log_run cb w = (Some True, w\<lparr>rest := rest w @ [cb]\<rparr>)"

definition two_jobs :: "nat cron" where
  "two_jobs = \<lparr>queue = [\<lparr>job_name = ''a'', timespec = ''30 * * * * *'', next_time = 60, job_cb = 7, job_id = 1\<rparr>,
      \<lparr>job_name = ''b'', timespec = ''30 * * * * *'', next_time = 9000, job_cb = 8, job_id = 2\<rparr>],
    working = True, next_job_id = 3\<rparr>"

definition noon_zone :: zone where
  "noon_zone = \<lparr>localtime = (\<lambda>t. Some \<lparr>c_year = 2024, c_mon = 3, c_mday = 1, c_hour = 12, c_min = 0\<rparr>),
     mktime = (\<lambda>c. c_hour c * 3600 + c_min c * 60), steps = 100\<rparr>"

lemma noon_calcNext: "calcNext noon_zone ''30 * * * * *'' now = Returns (Inr 45000)"
proof -
  have "next_candidate 100 ''30 * * * * *'' \<lparr>c_year = 2024, c_mon = 3, c_mday = 1, c_hour = 12, c_min = 0\<rparr> =
    Some (Inr \<lparr>c_year = 2024, c_mon = 3, c_mday = 1, c_hour = 12, c_min = 30\<rparr>)" by code_simp
  then show ?thesis by (simp add: calcNext_def noon_zone_def)
qed

lemma two_jobs_inv: "cron_inv two_jobs"
  by (simp add: cron_inv_def two_jobs_def job_lt_def)

theorem worker_performs_due_witness:
  "\<exists>st'. worker_wakes noon_zone log_run TP_Wait two_jobs \<lparr>clock = 100, rest = []\<rparr> =
      (Returns (st', True), \<lparr>clock = 100, rest = [7]\<rparr>) \<and> cron_inv st' \<and> jobExecutionTime 1 st' = 45000"
proof -
  let ?w = "\<lparr>clock = 100, rest = []\<rparr>"
  obtain st' q where "worker_wakes noon_zone log_run TP_Wait two_jobs ?w = (Returns (st', True), \<lparr>clock = 100, rest = [7]\<rparr>)"
    "queue st' = list_sort job_lt q" "rescheduled noon_zone log_run TP_Wait 100 ?w (queue two_jobs) q" "cron_inv st'"
    using worker_performs_due [OF two_jobs_inv, of ?w log_run noon_zone TP_Wait]
    by (auto simp: two_jobs_def log_run_def noon_calcNext runs_def)
  moreover from this(3) obtain j q' where "q = j # q'" by (cases q) (auto simp: rescheduled_def two_jobs_def)
  with calculation(3) have "j \<in> set q" "job_id j = 1" "next_time j = 45000"
    by (auto simp: rescheduled_Cons two_jobs_def noon_calcNext)
  ultimately show ?thesis using jobExecutionTime_member [of st' j] by auto
qed

text \<open>A due job that returns false is removed, and with it the worker ends: the jobs behind it
  are not run, now or later, although the daemon still counts as working, so that \<open>start\<close>
  refuses to start it again.\<close>

theorem false_job_ends_worker:
  assumes "cron_inv st" and "working st" and "queue st = job # js" and "next_time job \<le> clock w"
    and "state \<noteq> TP_TimeChange" and "fst (run (job_cb job) w) = Some False"
  shows "\<exists>st'. worker_wakes z run state st w = (Returns (st', False), snd (run (job_cb job) w)) \<and>
    queue st' = js \<and> working st' \<and> start st' = (st', False)"
proof -
  have "unsafeRemoveJob (job_id job) (job # js) = js"
  proof -
    have "job_id job \<notin> job_id ` set js" using assms(1,3) by (simp add: cron_inv_def)
    then show ?thesis by (simp add: unsafeRemoveJob_def filter_id_conv) (metis image_eqI)
  qed
  then show ?thesis
    using due_loop_false [where job = job and run = run and w = w and z = z and state = state
        and passed = "[]" and js = js and current = "clock w"] assms
    by (simp add: worker_wakes_def start_def)
qed

theorem false_job_ends_worker_witness:
  "\<exists>st'. worker_wakes noon_zone (\<lambda>cb w. (Some False, w)) TP_Wait two_jobs \<lparr>clock = 9000, rest = ()\<rparr> =
      (Returns (st', False), \<lparr>clock = 9000, rest = ()\<rparr>) \<and>
    queue st' = tl (queue two_jobs) \<and> working st' \<and> start st' = (st', False)"
  using false_job_ends_worker [OF two_jobs_inv, where run = "\<lambda>cb w. (Some False, w)" and z = noon_zone
      and w = "\<lparr>clock = 9000, rest = ()\<rparr>" and state = TP_Wait]
  by (simp add: two_jobs_def)

text \<open>A job that has run and has no next time, as every job of a single year once the year is over,
  is removed while the loop stands on it.\<close>

lemma expired_job_use_after_free:
  assumes "queue st = job # js" and "next_time job \<le> clock w" and "run (job_cb job) w = (Some True, w1)"
    and "calcNext z (timespec job) (clock w1) = Returns (Inl ())" and "state \<noteq> TP_TimeChange"
  shows "fst (worker_wakes z run state st w) = UseAfterFree"
  using assms by (simp add: worker_wakes_def Let_def)

text \<open>A job that throws keeps its time: the worker waits for it no longer and runs it again, without a pause, and
  the jobs behind it do not run.\<close>

lemma throwing_job_runs_again:
  assumes "queue st = job # js" and "next_time job \<le> clock w" and "run (job_cb job) w = (None, w1)"
    and "state \<noteq> TP_TimeChange" and "clock w \<le> now"
  shows "worker_wakes z run state st w = (Returns (st, True), w1)" and "waitUntil state now (next_time job) ws = Some (state, ws)"
  using assms by (simp_all add: worker_wakes_def waitUntil_def)

text \<open>A year range is read against the current year: once its first year is over, the schedule is refused, and a job that
  has it is removed.\<close>

lemma year_range_expires:
  "(case parse_timespec ''0 0 1 1 * 2024-2026'' 2024 of Inl _ \<Rightarrow> False | Inr _ \<Rightarrow> True) \<and>
   parse_timespec ''0 0 1 1 * 2024-2026'' 2025 = Inl Unsatisfiable"
  by code_simp

text \<open>A one-time job that is due in its year is found due again at once: its next time is the one
  it just ran for.\<close>

lemma one_time_job_repeats:
  "next_candidate 100 ''0 0 1 3 * 2024'' \<lparr>c_year = 2024, c_mon = 3, c_mday = 1, c_hour = 0, c_min = 0\<rparr> =
    Some (Inr \<lparr>c_year = 2024, c_mon = 3, c_mday = 1, c_hour = 0, c_min = 0\<rparr>)"
  by code_simp

end
