(* ===== verification/CronDaemon.thy ===== *)
theory CronDaemon
  imports CronQueue
begin

text \<open>
  The parts of the cron daemon together (\<open>cron.cc\<close>, \<open>time_provider.cc\<close>): a job is added, the daemon is started, and
  its worker waits for one time after the other.  The schedules are those of all years, since the year range of
  a schedule starts with the year in which it is read.
\<close>

section \<open>Schedules of every year\<close>

definition every_year :: "string \<Rightarrow> bool" where
  "every_year ts \<longleftrightarrow> (case string_split ts CHR '' '' of [_, _, _, _, _, p5] \<Rightarrow> p5 = ''*'' | _ \<Rightarrow> False)"

definition with_year :: "int \<Rightarrow> cron_rules \<Rightarrow> cron_rules" where
  "with_year y rl = rl\<lparr>ranges := (ranges rl)[4 := \<lparr>r_min = y, r_max = MAX_YEAR, r_each = 1, r_partn = 0\<rparr>]\<rparr>"

lemma parse_every_year:
  assumes "every_year ts" "parse_timespec ts y = Inr rl"
  shows "parse_timespec ts y' = Inr (with_year y' rl)" and "with_year y rl = rl"
proof -
  from assms(1) obtain p0 p1 p2 p3 p4 where p: "string_split ts CHR '' '' = [p0, p1, p2, p3, p4, ''*'']"
    by (auto simp: every_year_def split: list.splits)
  have star: "InRange ''*'' i MAX_YEAR 0 = Inr \<lparr>r_min = i, r_max = MAX_YEAR, r_each = 1, r_partn = 0\<rparr>" for i
    by (simp add: InRange_def parse_each_def parse_range_def MAX_YEAR_def)
  show "parse_timespec ts y' = Inr (with_year y' rl)" "with_year y rl = rl"
    using assms(2) by (auto simp: parse_timespec_def p star with_year_def split: sum.splits)
qed

lemma year_rule_valid:
  "range_valid \<lparr>r_min = y, r_max = MAX_YEAR, r_each = 1, r_partn = 0\<rparr> v = Inr (y \<le> c_year v \<and> c_year v \<le> MAX_YEAR)"
  by (simp add: range_valid_def Let_def cand_get_def smod_int_alt_def)

lemma passes_with_year:
  assumes "with_year y rl = rl" "length (ranges rl) = 5" "y \<le> c_year v" "y' \<le> c_year v"
  shows "passes (with_year y' rl) v \<longleftrightarrow> passes rl v"
proof -
  have year: "ranges rl ! 4 = \<lparr>r_min = y, r_max = MAX_YEAR, r_each = 1, r_partn = 0\<rparr>"
    using arg_cong [OF assms(1), of "\<lambda>r. ranges r ! 4"] assms(2) by (simp add: with_year_def)
  have "check_valid (with_year y' rl) k v = check_valid rl k v" for k
  proof (cases "k = CheckRange 4")
    case True
    then show ?thesis using assms(2-4) by (simp add: check_valid_def with_year_def year year_rule_valid)
  next
    case False
    then show ?thesis by (cases k) (simp_all add: check_valid_def with_year_def)
  qed
  then show ?thesis by (simp add: passes_def)
qed

lemma aligned_with_year: "aligned rl \<Longrightarrow> length (ranges rl) = 5 \<Longrightarrow> aligned (with_year y rl)"
  by (simp add: aligned_def all_le_4 all_less_4 with_year_def)

lemma earlier_irrefl [simp]: "\<not> earlier c c"
  by (simp add: earlier_def)

section \<open>The minutes of a schedule, one after the other\<close>

text \<open>Between two times of a schedule, neighbours or not, the search finds the next one.\<close>

lemma next_of_schedule:
  assumes "every_year ts" "parse_timespec ts y = Inr rl" "aligned rl" "calendar c" "y \<le> c_year c"
    and "passes rl d" "earlier c d" "c_year d < MAX_YEAR" "code d - code c \<le> int fuel"
    and none: "\<forall>v. passes rl v \<and> earlier c v \<longrightarrow> \<not> earlier v d"
  shows "next_candidate fuel ts c = Some (Inr d)"
proof -
  have later: "c_year c \<le> c_year v" if "earlier c v" for v using that by (auto simp: earlier_def)
  have y: "c_year c \<le> MAX_YEAR" "y \<le> MAX_YEAR" using later [OF assms(7)] assms(5,8) by auto
  note parse = parse_every_year [OF assms(1,2)]
  have len: "length (ranges rl) = 5" using parse_timespec_wf [OF assms(2) y(2)] by (simp add: rules_wf_def)
  have same: "passes (with_year (c_year c) rl) v \<longleftrightarrow> passes rl v" if "earlier c v" for v
    using passes_with_year [OF parse(2) len] later [OF that] assms(5) by simp
  from next_candidate_earliest [OF parse(1) aligned_with_year [OF assms(3) len] y(1) assms(4) _ assms(7-9)]
  obtain b where b: "next_candidate fuel ts c = Some (Inr b)" "passes (with_year (c_year c) rl) b" "earlier c b"
    "earlier b d \<or> b = d" using same [OF assms(7)] assms(6,7) by blast
  with none same [OF b(3)] show ?thesis by blast
qed

text \<open>\<open>chain\<close>: each time is the one the search finds from the one before it.\<close>

fun chain :: "nat \<Rightarrow> string \<Rightarrow> candidate \<Rightarrow> candidate list \<Rightarrow> bool" where
  "chain fuel ts c [] \<longleftrightarrow> True"
| "chain fuel ts c (d # ds) \<longleftrightarrow> next_candidate fuel ts c = Some (Inr d) \<and> chain fuel ts d ds"

lemma schedule_chain:
  assumes "every_year ts" "parse_timespec ts y = Inr rl" "aligned rl" "passes rl e" "c_year e < MAX_YEAR" "y \<le> MAX_YEAR"
  shows "sorted_wrt earlier (c # ds) \<Longrightarrow> calendar c \<Longrightarrow> y \<le> c_year c \<Longrightarrow> code e - code c \<le> int fuel \<Longrightarrow>
    \<forall>v. v \<in> set ds \<longleftrightarrow> passes rl v \<and> earlier c v \<and> (earlier v e \<or> v = e) \<Longrightarrow> chain fuel ts c ds"
proof (induction ds arbitrary: c)
  case Nil
  then show ?case by simp
next
  case (Cons d ds)
  note members = Cons.prems(5)
  have d: "passes rl d" "earlier c d" "earlier d e \<or> d = e" using members by auto
  have sorted: "\<forall>v \<in> set ds. earlier d v" using Cons.prems(1) by simp
  have "rules_wf rl" using parse_timespec_wf [OF assms(2,6)] by simp
  note cal = passes_calendar [OF this assms(3)]
  have codes: "code c < code d" "code d \<le> code e"
    using code_less [OF d(2) Cons.prems(2) cal] code_less [of d e] cal d assms(4) by auto
  have year: "c_year c \<le> c_year d" "c_year d < MAX_YEAR" using d(2,3) assms(5) by (auto simp: earlier_def)
  have "\<not> earlier v d" if "passes rl v" "earlier c v" for v
  proof
    assume v: "earlier v d"
    then have "earlier v e" using d(3) earlier_trans by blast
    with that members have "v \<in> set (d # ds)" by blast
    with v sorted show False using earlier_trans [of d v d] by auto
  qed
  then have "next_candidate fuel ts c = Some (Inr d)"
    using next_of_schedule [OF assms(1-3) Cons.prems(2,3) d(1,2) year(2)] codes Cons.prems(4) by simp
  moreover have "chain fuel ts d ds"
  proof (rule Cons.IH)
    show "\<forall>v. v \<in> set ds \<longleftrightarrow> passes rl v \<and> earlier d v \<and> (earlier v e \<or> v = e)"
    proof (intro allI iffI)
      fix v assume "v \<in> set ds"
      with members sorted show "passes rl v \<and> earlier d v \<and> (earlier v e \<or> v = e)" by auto
    next
      fix v assume v: "passes rl v \<and> earlier d v \<and> (earlier v e \<or> v = e)"
      with members earlier_trans [OF d(2)] have "v \<in> set (d # ds)" by blast
      with v show "v \<in> set ds" by auto
    qed
    show "code e - code d \<le> int fuel" using codes(1) Cons.prems(4) by simp
  qed (use Cons.prems cal [OF d(1)] year(1) in auto)
  ultimately show ?case by simp
qed

section \<open>The daemon at work\<close>

text \<open>Rounds of the worker, each woken when the clock shows the next of the given times.\<close>

fun daemon_runs :: "zone \<Rightarrow> ('cb \<Rightarrow> 'r world \<Rightarrow> bool option \<times> 'r world) \<Rightarrow> int list \<Rightarrow> 'cb cron \<Rightarrow> 'r world \<Rightarrow>
    (('cb cron \<times> bool) outcome \<times> 'r world) option" where
  "daemon_runs z run [] st w = Some (Returns (st, True), w)"
| "daemon_runs z run (t # ts) st w =
     (case worker_round z run TP_Wait [\<lparr>w_set = None, w_timeout = True, w_now = t\<rparr>] st st w (w\<lparr>clock := t\<rparr>) of
        Some (Returns (st1, True), w1) \<Rightarrow> daemon_runs z run ts st1 w1
      | r \<Rightarrow> r)"

text \<open>A daemon with one job.\<close>

definition serves :: "string \<Rightarrow> 'cb \<Rightarrow> int \<Rightarrow> 'cb cron \<Rightarrow> bool" where
  "serves ts cb t st \<longleftrightarrow> working st \<and> (\<exists>job. queue st = [job] \<and> timespec job = ts \<and> job_cb job = cb \<and> job_id job = 1 \<and> next_time job = t)"

lemma round_performs:
  assumes "serves ts cb (mktime z c) st" "mktime z c \<le> t" "localtime z t = Some c"
    and "\<forall>w. fst (run cb w) = Some True \<and> localtime z (clock (snd (run cb w))) = localtime z (clock w)"
    and "next_candidate (steps z) ts c = Some (Inr d)"
  shows "\<exists>st1. worker_round z run TP_Wait [\<lparr>w_set = None, w_timeout = True, w_now = t\<rparr>] st st w (w\<lparr>clock := t\<rparr>) =
    Some (Returns (st1, True), snd (run cb (w\<lparr>clock := t\<rparr>))) \<and> serves ts cb (mktime z d) st1"
proof -
  from assms(1) obtain job where job: "working st" "queue st = [job]" "timespec job = ts" "job_cb job = cb" "job_id job = 1"
    "next_time job = mktime z c" by (auto simp: serves_def)
  obtain w1 where w1: "run cb (w\<lparr>clock := t\<rparr>) = (Some True, w1)" "localtime z (clock w1) = Some c"
    using assms(4) [rule_format, of "w\<lparr>clock := t\<rparr>"] assms(3) by (cases "run cb (w\<lparr>clock := t\<rparr>)") simp
  have "calcNext z ts (clock w1) = Returns (Inr (mktime z d))" using w1(2) assms(5) by (simp add: calcNext_def)
  with w1 job assms(2) show ?thesis
    by (simp add: worker_round_def waitUntil_def waitFor_def worker_wakes_def serves_def)
qed

lemma daemon_follows_chain:
  assumes run: "\<forall>w. fst (run cb w) = Some True \<and> localtime z (clock (snd (run cb w))) = localtime z (clock w)"
  shows "serves ts cb (mktime z c) st \<Longrightarrow> chain (steps z) ts c cs \<Longrightarrow>
    list_all2 (\<lambda>t c. mktime z c \<le> t \<and> localtime z t = Some c) wakes (butlast (c # cs)) \<Longrightarrow>
    \<exists>st'. daemon_runs z run wakes st w = Some (Returns (st', True), fold (\<lambda>t w. snd (run cb (w\<lparr>clock := t\<rparr>))) wakes w) \<and>
      serves ts cb (mktime z (last (c # cs))) st'"
proof (induction cs arbitrary: c st wakes w)
  case Nil
  then show ?case by simp
next
  case (Cons d ds)
  then obtain t wakes1 where t: "wakes = t # wakes1" "mktime z c \<le> t" "localtime z t = Some c"
    "list_all2 (\<lambda>t c. mktime z c \<le> t \<and> localtime z t = Some c) wakes1 (butlast (d # ds))"
    by (auto simp: list_all2_Cons2)
  from Cons.prems(2) have d: "next_candidate (steps z) ts c = Some (Inr d)" "chain (steps z) ts d ds" by simp_all
  from round_performs [where run = run and cb = cb and w = w, OF Cons.prems(1) t(2,3) run d(1)] obtain st1 where
    "worker_round z run TP_Wait [\<lparr>w_set = None, w_timeout = True, w_now = t\<rparr>] st st w (w\<lparr>clock := t\<rparr>) =
      Some (Returns (st1, True), snd (run cb (w\<lparr>clock := t\<rparr>)))" "serves ts cb (mktime z d) st1" by blast
  with Cons.IH [OF _ d(2) t(4)] show ?case by (simp add: t(1))
qed

lemma added_job_served:
  assumes "calcNext z ts now = Returns (Inr t)"
  shows "\<exists>st. addJob z now name ts (Some cb) cron_new = Returns (st, 1) \<and> serves ts cb t (fst (start st))"
  using assms by (simp add: addJob_def Let_def cron_new_def start_def serves_def)

text \<open>C4: A job added to a daemon and started with it is performed at each minute of its schedule up to any later one
  and at no other time, whenever within the minute the worker is woken; then the worker waits for that one.  This is for
  schedules of every year whose ranges are aligned with their steps, for callbacks that always return true and leave
  the clock in the minute it is in, in a time zone where the times have a unique name, with fuel for the minutes up
  to the last, which is before 2099.\<close>

theorem daemon_follows_schedule:
  assumes "every_year ts" and "parse_timespec ts (c_year s) = Inr rl" and "aligned rl"
    and "localtime z now = Some s" and "calendar s"
    and "passes rl e" and "earlier s e" and "c_year e < MAX_YEAR" and "code e - code s \<le> int (steps z)"
    and "sorted_wrt earlier cs" and "\<forall>v. v \<in> set cs \<longleftrightarrow> passes rl v \<and> earlier s v \<and> (earlier v e \<or> v = e)"
    and "list_all2 (\<lambda>t c. mktime z c \<le> t \<and> localtime z t = Some c) wakes (butlast cs)"
    and "\<forall>w. fst (run cb w) = Some True \<and> localtime z (clock (snd (run cb w))) = localtime z (clock w)"
  shows "\<exists>st st'. addJob z now name ts (Some cb) cron_new = Returns (st, 1) \<and>
    daemon_runs z run wakes (fst (start st)) w = Some (Returns (st', True), fold (\<lambda>t w. snd (run cb (w\<lparr>clock := t\<rparr>))) wakes w) \<and>
    jobExecutionTime 1 st' = mktime z e"
proof -
  have y: "c_year s \<le> MAX_YEAR" using assms(7,8) by (auto simp: earlier_def)
  have sorted: "sorted_wrt earlier (s # cs)" using assms(10,11) by simp
  note chained = schedule_chain [OF assms(1-3,6,8) y sorted assms(5) _ assms(9,11)]
  obtain c cs' where cs: "cs = c # cs'" using assms(6,7,11) by (cases cs) auto
  have "last cs = e"
  proof (rule ccontr)
    assume other: "last cs \<noteq> e"
    have split: "cs = butlast cs @ [last cs]" using cs by simp
    have "e \<in> set cs" using assms(6,7,11) by blast
    with other split have "e \<in> set (butlast cs)" by (metis Un_iff empty_iff empty_set insertE list.simps(15) set_append)
    with assms(10) split have "earlier e (last cs)" by (metis list.set_intros(1) sorted_wrt_append)
    moreover have "earlier (last cs) e" using other assms(11) cs by (metis last_in_set list.distinct(1))
    ultimately show False using earlier_trans [of e "last cs" e] by simp
  qed
  moreover have "calcNext z ts now = Returns (Inr (mktime z c))"
    using chained assms(4) by (simp add: calcNext_def cs)
  then obtain st where st: "addJob z now name ts (Some cb) cron_new = Returns (st, 1)" "serves ts cb (mktime z c) (fst (start st))"
    using added_job_served [of z ts now "mktime z c" name cb] by blast
  have "chain (steps z) ts c cs'" using chained by (simp add: cs)
  from daemon_follows_chain [where run = run and cb = cb and w = w, OF assms(13) st(2) this] assms(12)
  obtain st' where "daemon_runs z run wakes (fst (start st)) w = Some (Returns (st', True), fold (\<lambda>t w. snd (run cb (w\<lparr>clock := t\<rparr>))) wakes w)"
    "serves ts cb (mktime z (last cs)) st'" by (auto simp: cs)
  ultimately show ?thesis using st(1) by (auto simp: serves_def jobExecutionTime_def)
qed

text \<open>Every full hour, from half past six in the evening until nine.\<close>

definition evening_zone :: zone where
  "evening_zone = \<lparr>localtime = (\<lambda>t. Some \<lparr>c_year = 2024, c_mon = 3, c_mday = 1, c_hour = t div 3600, c_min = t mod 3600 div 60\<rparr>),
     mktime = (\<lambda>c. c_hour c * 3600 + c_min c * 60), steps = 200\<rparr>"

definition hourly_rules :: cron_rules where
  "hourly_rules = \<lparr>ranges = [\<lparr>r_min = 0, r_max = 0, r_each = 1, r_partn = 4\<rparr>,
      \<lparr>r_min = 0, r_max = 23, r_each = 1, r_partn = 3\<rparr>, \<lparr>r_min = 1, r_max = 31, r_each = 1, r_partn = 2\<rparr>,
      \<lparr>r_min = 1, r_max = 12, r_each = 1, r_partn = 1\<rparr>, \<lparr>r_min = 2024, r_max = 2099, r_each = 1, r_partn = 0\<rparr>],
    week_days_of = [True, True, True, True, True, True, True]\<rparr>"

abbreviation "evening h \<equiv> \<lparr>c_year = 2024, c_mon = 3, c_mday = 1, c_hour = h, c_min = 0\<rparr>"

lemma hourly_passes:
  assumes "c_year v = 2024" "c_mon v = 3" "c_mday v = 1" "0 \<le> c_hour v" "c_hour v \<le> 23"
  shows "passes hourly_rules v \<longleftrightarrow> c_min v = 0"
proof -
  have "week_day 1 3 2024 = Inr 5" "days_per_month 3 2024 = 31" by code_simp+
  with assms show ?thesis
    by (simp add: passes_def all_checks_def check_valid_def range_valid_def hourly_rules_def cand_get_def week_valid_def
        date_valid_def smod_int_alt_def Let_def) arith
qed

theorem daemon_follows_schedule_witness:
  "\<exists>st st'. addJob evening_zone 66600 ''tick'' ''0 * * * * *'' (Some 7) cron_new = Returns (st, 1) \<and>
    daemon_runs evening_zone log_run [68400, 72030] (fst (start st)) \<lparr>clock = 66600, rest = []\<rparr> =
      Some (Returns (st', True), \<lparr>clock = 72030, rest = [7, 7]\<rparr>) \<and>
    jobExecutionTime 1 st' = 75600"
proof -
  let ?s = "\<lparr>c_year = 2024, c_mon = 3, c_mday = 1, c_hour = 18, c_min = 30\<rparr>"
  let ?cs = "[evening 19, evening 20, evening 21]"
  have p: "parse_timespec ''0 * * * * *'' (c_year ?s) = Inr hourly_rules" by code_simp
  have e: "every_year ''0 * * * * *''" by code_simp
  have al: "aligned hourly_rules" by (simp add: aligned_def all_le_4 all_less_4 hourly_rules_def smod_int_alt_def)
  have member: "v \<in> set ?cs \<longleftrightarrow> passes hourly_rules v \<and> earlier ?s v \<and> (earlier v (evening 21) \<or> v = evening 21)" for v
  proof (cases "c_year v = 2024 \<and> c_mon v = 3 \<and> c_mday v = 1 \<and> 18 \<le> c_hour v \<and> c_hour v \<le> 21")
    case True
    then have "c_hour v \<in> {18, 19, 20, 21}" by auto
    with True hourly_passes [of v] show ?thesis by (cases v) (auto simp: earlier_def)
  next
    case False
    have "\<not> (earlier ?s v \<and> (earlier v (evening 21) \<or> v = evening 21))"
    proof
      assume v: "earlier ?s v \<and> (earlier v (evening 21) \<or> v = evening 21)"
      then have "c_year v = 2024" by (auto simp: earlier_def)
      moreover from v this have "c_mon v = 3" by (auto simp: earlier_def)
      moreover from v calculation have "c_mday v = 1" by (auto simp: earlier_def)
      moreover from v calculation have "18 \<le> c_hour v \<and> c_hour v \<le> 21" by (auto simp: earlier_def)
      ultimately show False using False by simp
    qed
    moreover have "v \<notin> set ?cs" using False by auto
    ultimately show ?thesis by simp
  qed
  have now: "localtime evening_zone 66600 = Some ?s" by (simp add: evening_zone_def)
  have last: "passes hourly_rules (evening 21)" "earlier ?s (evening 21)" "c_year (evening 21) < MAX_YEAR"
    "code (evening 21) - code ?s \<le> int (steps evening_zone)"
    by (simp_all add: hourly_passes earlier_def MAX_YEAR_def code_def evening_zone_def)
  have order: "calendar ?s" "sorted_wrt earlier ?cs" by (simp_all add: calendar_def earlier_def)
  have woken: "list_all2 (\<lambda>t c. mktime evening_zone c \<le> t \<and> localtime evening_zone t = Some c) [68400, 72030] (butlast ?cs)"
    by (simp add: evening_zone_def)
  have ticks: "\<forall>w. fst (log_run 7 w) = Some True \<and> localtime evening_zone (clock (snd (log_run 7 w))) = localtime evening_zone (clock w)"
    by (simp add: log_run_def)
  have all: "\<forall>v. v \<in> set ?cs \<longleftrightarrow> passes hourly_rules v \<and> earlier ?s v \<and> (earlier v (evening 21) \<or> v = evening 21)"
    using member by blast
  have "mktime evening_zone (evening 21) = 75600" by (simp add: evening_zone_def)
  moreover have "fold (\<lambda>t w. snd (log_run 7 (w\<lparr>clock := t\<rparr>))) [68400, 72030] \<lparr>clock = 66600, rest = []\<rparr> = \<lparr>clock = 72030, rest = [7, 7]\<rparr>"
    by (simp add: log_run_def)
  moreover note daemon_follows_schedule [where run = log_run and cb = 7 and w = "\<lparr>clock = 66600, rest = []\<rparr>" and name = "''tick''",
      OF e p al now order(1) last order(2) all woken ticks]
  ultimately show ?thesis by (simp only:)
qed

end
