(* ===== verification/CronStop.thy ===== *)
theory CronStop
  imports TimeProvider
begin

text \<open>
  \<open>CronImpl::stop\<close> and \<open>CronImpl::worker\<close> of \<open>components/system/src/cron.cc\<close> step by step,
  for a daemon without jobs, where the worker waits until it is interrupted.  The program
  counters stand between the accesses to the shared state: the flag \<open>_working\<close>, the queue's
  mutex, and \<open>_state\<close> of the time provider with its condition variable.
\<close>

datatype worker_pc =
    W_Check    \<comment> \<open>before \<open>while (_working)\<close>\<close>
  | W_Lock     \<comment> \<open>before taking \<open>_queueMutex\<close>\<close>
  | W_Reset    \<comment> \<open>in \<open>wait\<close>, before \<open>_state = State::Wait\<close>\<close>
  | W_Pred     \<comment> \<open>holding the mutex, before the predicate of the wait\<close>
  | W_Blocked  \<comment> \<open>asleep on the condition variable, the mutex released\<close>
  | W_Wake     \<comment> \<open>notified, before taking the mutex again\<close>
  | W_Done

datatype stop_pc =
    S_Lock     \<comment> \<open>before taking \<open>_queueMutex\<close>\<close>
  | S_Clear    \<comment> \<open>holding it, before \<open>_working = false\<close> and the unlock\<close>
  | S_State    \<comment> \<open>in \<open>interruptWait\<close>, before \<open>_state = State::Interrupt\<close>\<close>
  | S_Notify   \<comment> \<open>before \<open>notify_all\<close>\<close>
  | S_Join     \<comment> \<open>before \<open>_jobThread.join()\<close> returns\<close>
  | S_Done

record shared =
  wpc :: worker_pc
  spc :: stop_pc
  flag :: bool
  held :: bool
  pstate :: tp_state

inductive cstep :: "shared \<Rightarrow> shared \<Rightarrow> bool" where
  enter: "wpc s = W_Check \<Longrightarrow> flag s \<Longrightarrow> cstep s (s\<lparr>wpc := W_Lock\<rparr>)"
| leave: "wpc s = W_Check \<Longrightarrow> \<not> flag s \<Longrightarrow> cstep s (s\<lparr>wpc := W_Done\<rparr>)"
| lock: "wpc s = W_Lock \<Longrightarrow> \<not> held s \<Longrightarrow> cstep s (s\<lparr>wpc := W_Reset, held := True\<rparr>)"
| reset: "wpc s = W_Reset \<Longrightarrow> cstep s (s\<lparr>wpc := W_Pred, pstate := TP_Wait\<rparr>)"
| ready: "wpc s = W_Pred \<Longrightarrow> pstate s \<noteq> TP_Wait \<Longrightarrow> cstep s (s\<lparr>wpc := W_Check, held := False\<rparr>)"
| block: "wpc s = W_Pred \<Longrightarrow> pstate s = TP_Wait \<Longrightarrow> cstep s (s\<lparr>wpc := W_Blocked, held := False\<rparr>)"
| relock: "wpc s = W_Wake \<Longrightarrow> \<not> held s \<Longrightarrow> cstep s (s\<lparr>wpc := W_Pred, held := True\<rparr>)"
| stop_lock: "spc s = S_Lock \<Longrightarrow> \<not> held s \<Longrightarrow> cstep s (s\<lparr>spc := S_Clear, held := True\<rparr>)"
| stop_clear: "spc s = S_Clear \<Longrightarrow> cstep s (s\<lparr>spc := S_State, flag := False, held := False\<rparr>)"
| stop_state: "spc s = S_State \<Longrightarrow> cstep s (s\<lparr>spc := S_Notify, pstate := TP_Interrupt\<rparr>)"
| stop_notify: "spc s = S_Notify \<Longrightarrow>
    cstep s (s\<lparr>spc := S_Join, wpc := (if wpc s = W_Blocked then W_Wake else wpc s)\<rparr>)"
| stop_join: "spc s = S_Join \<Longrightarrow> wpc s = W_Done \<Longrightarrow> cstep s (s\<lparr>spc := S_Done\<rparr>)"

code_pred cstep .

inductive_cases cstep_cases: "cstep s s'"

definition stop_begins :: "worker_pc \<Rightarrow> shared" where
  "stop_begins pc = \<lparr>wpc = pc, spc = S_Lock, flag = True, held = False, pstate = TP_Wait\<rparr>"

definition stuck :: "shared \<Rightarrow> bool" where
  "stuck s \<longleftrightarrow> spc s \<noteq> S_Done \<and> (\<forall>s'. \<not> cstep s s')"

section \<open>A lost wake-up\<close>

text \<open>C33: A \<open>stop\<close> that runs between the worker's look at \<open>_working\<close> and its wait is lost: the
  worker overwrites the interrupt with \<open>State::Wait\<close> and sleeps, and \<open>stop\<close> joins it for ever.\<close>

theorem stop_can_deadlock:
  "\<exists>s. cstep\<^sup>*\<^sup>* (stop_begins W_Check) s \<and> spc s = S_Join \<and> wpc s = W_Blocked \<and> stuck s"
proof (intro exI conjI)
  let ?s = "\<lambda>w s f h p. \<lparr>wpc = w, spc = s, flag = f, held = h, pstate = p\<rparr>"
  have "cstep (?s W_Check S_Lock True False TP_Wait) (?s W_Lock S_Lock True False TP_Wait)"
    using cstep.enter [of "?s W_Check S_Lock True False TP_Wait"] by simp
  moreover have "cstep (?s W_Lock S_Lock True False TP_Wait) (?s W_Lock S_Clear True True TP_Wait)"
    using cstep.stop_lock [of "?s W_Lock S_Lock True False TP_Wait"] by simp
  moreover have "cstep (?s W_Lock S_Clear True True TP_Wait) (?s W_Lock S_State False False TP_Wait)"
    using cstep.stop_clear [of "?s W_Lock S_Clear True True TP_Wait"] by simp
  moreover have "cstep (?s W_Lock S_State False False TP_Wait) (?s W_Lock S_Notify False False TP_Interrupt)"
    using cstep.stop_state [of "?s W_Lock S_State False False TP_Wait"] by simp
  moreover have "cstep (?s W_Lock S_Notify False False TP_Interrupt) (?s W_Lock S_Join False False TP_Interrupt)"
    using cstep.stop_notify [of "?s W_Lock S_Notify False False TP_Interrupt"] by simp
  moreover have "cstep (?s W_Lock S_Join False False TP_Interrupt) (?s W_Reset S_Join False True TP_Interrupt)"
    using cstep.lock [of "?s W_Lock S_Join False False TP_Interrupt"] by simp
  moreover have "cstep (?s W_Reset S_Join False True TP_Interrupt) (?s W_Pred S_Join False True TP_Wait)"
    using cstep.reset [of "?s W_Reset S_Join False True TP_Interrupt"] by simp
  moreover have "cstep (?s W_Pred S_Join False True TP_Wait) (?s W_Blocked S_Join False False TP_Wait)"
    using cstep.block [of "?s W_Pred S_Join False True TP_Wait"] by simp
  ultimately show "cstep\<^sup>*\<^sup>* (stop_begins W_Check) (?s W_Blocked S_Join False False TP_Wait)"
    unfolding stop_begins_def by (meson converse_rtranclp_into_rtranclp rtranclp.rtrancl_refl)
  show "stuck (?s W_Blocked S_Join False False TP_Wait)"
    by (auto simp: stuck_def elim: cstep_cases)
qed simp_all

section \<open>Stopping a worker that sleeps\<close>

text \<open>The states of a stop that finds the worker asleep.\<close>

definition stopping :: "shared \<Rightarrow> bool" where
  "stopping s \<longleftrightarrow>
     (case spc s of
        S_Lock \<Rightarrow> wpc s = W_Blocked \<and> flag s \<and> \<not> held s \<and> pstate s = TP_Wait
      | S_Clear \<Rightarrow> wpc s = W_Blocked \<and> held s
      | S_State \<Rightarrow> wpc s = W_Blocked \<and> \<not> flag s \<and> \<not> held s
      | S_Notify \<Rightarrow> wpc s = W_Blocked \<and> \<not> flag s \<and> \<not> held s \<and> pstate s = TP_Interrupt
      | S_Join \<Rightarrow> \<not> flag s \<and> pstate s = TP_Interrupt \<and>
          (wpc s = W_Wake \<and> \<not> held s \<or> wpc s = W_Pred \<and> held s \<or> wpc s = W_Check \<or> wpc s = W_Done)
      | S_Done \<Rightarrow> wpc s = W_Done)"

definition rank :: "shared \<Rightarrow> nat" where
  "rank s =
     (case spc s of S_Lock \<Rightarrow> 8 | S_Clear \<Rightarrow> 7 | S_State \<Rightarrow> 6 | S_Notify \<Rightarrow> 5
      | S_Join \<Rightarrow> (case wpc s of W_Wake \<Rightarrow> 4 | W_Pred \<Rightarrow> 3 | W_Check \<Rightarrow> 2 | _ \<Rightarrow> 1)
      | S_Done \<Rightarrow> 0)"

lemma stopping_step: "stopping s \<Longrightarrow> cstep s s' \<Longrightarrow> stopping s' \<and> rank s' < rank s"
  by (erule cstep_cases) (auto simp: stopping_def rank_def split: stop_pc.splits)

lemma stopping_not_stuck:
  assumes "stopping s" and "spc s \<noteq> S_Done"
  shows "\<exists>s'. cstep s s'"
proof (cases "spc s")
  case S_Join
  with assms consider "wpc s = W_Wake" "\<not> held s" | "wpc s = W_Pred" "pstate s \<noteq> TP_Wait"
    | "wpc s = W_Check" "\<not> flag s" | "wpc s = W_Done"
    by (force simp: stopping_def)
  then show ?thesis
    by cases (use S_Join in \<open>auto intro: cstep.intros\<close>)
qed (use assms in \<open>auto simp: stopping_def intro: cstep.intros\<close>)

lemma stopping_terminates:
  "stopping s \<Longrightarrow> \<exists>s'. cstep\<^sup>*\<^sup>* s s' \<and> spc s' = S_Done \<and> wpc s' = W_Done"
proof (induction "rank s" arbitrary: s rule: less_induct)
  case less
  show ?case
  proof (cases "spc s = S_Done")
    case True
    with less.prems show ?thesis by (auto simp: stopping_def)
  next
    case False
    then obtain s1 where s1: "cstep s s1" using stopping_not_stuck less.prems by blast
    then obtain s' where "cstep\<^sup>*\<^sup>* s1 s'" "spc s' = S_Done" "wpc s' = W_Done"
      using less.hyps stopping_step less.prems by blast
    with s1 show ?thesis by (meson converse_rtranclp_into_rtranclp)
  qed
qed

lemma stopping_reachable: "cstep\<^sup>*\<^sup>* s s' \<Longrightarrow> stopping s \<Longrightarrow> stopping s' \<and> rank s' \<le> rank s"
  by (induction rule: rtranclp_induct) (auto dest: stopping_step)

text \<open>A \<open>stop\<close> that finds the worker asleep always succeeds: no interleaving gets stuck, each
  step uses up one of eight, and when none is left both \<open>stop\<close> and the worker have ended.\<close>

theorem stop_of_sleeping_worker:
  assumes "cstep\<^sup>*\<^sup>* (stop_begins W_Blocked) s"
  shows "\<not> stuck s \<and> rank s \<le> 8 \<and> (\<forall>s'. cstep s s' \<longrightarrow> rank s' < rank s) \<and>
    (\<exists>s'. cstep\<^sup>*\<^sup>* s s' \<and> spc s' = S_Done \<and> wpc s' = W_Done)"
proof -
  have "stopping (stop_begins W_Blocked)" "rank (stop_begins W_Blocked) = 8"
    by (simp_all add: stopping_def rank_def stop_begins_def)
  with stopping_reachable [OF assms] have s: "stopping s" "rank s \<le> 8" by auto
  with stopping_step stopping_not_stuck stopping_terminates show ?thesis
    unfolding stuck_def by blast
qed

theorem stop_of_sleeping_worker_witness:
  "\<not> stuck (stop_begins W_Blocked) \<and> (\<exists>s'. cstep\<^sup>*\<^sup>* (stop_begins W_Blocked) s' \<and> wpc s' = W_Done)"
  using stop_of_sleeping_worker [of "stop_begins W_Blocked"] by auto

end
