(* ===== verification/FsPath.thy ===== *)
theory FsPath
  imports Prelude
begin

text \<open>
  The functions of \<open>components/system/src/fsutils.cc\<close> that only compute with the text of a
  path: \<open>basename\<close>, \<open>dirname\<close>, \<open>extension\<close>, \<open>parent\<close>, \<open>hasParent\<close>,
  \<open>isValidFilename\<close>, and the text of a \<open>Path\<close> under \<open>append\<close> and \<open>+=\<close>.
\<close>

section \<open>Operations\<close>

text \<open>\<open>if (!f.empty() && f[f.size() - 1] == '/') f.erase(f.size() - 1)\<close>\<close>

definition drop_slash :: "string \<Rightarrow> string" where
  "drop_slash f = (if f \<noteq> [] \<and> last f = CHR ''/'' then butlast f else f)"

abbreviation find_last_of :: "char \<Rightarrow> string \<Rightarrow> nat option" where
  "find_last_of c \<equiv> find_last (\<lambda>x. x = c)"

definition basename :: "string \<Rightarrow> string" where
  "basename filename =
     (if filename = ''/'' then filename
      else (let f = drop_slash filename
            in case find_last_of CHR ''/'' f of Some pos \<Rightarrow> drop (pos + 1) f | None \<Rightarrow> f))"

definition dirname :: "string \<Rightarrow> string" where
  "dirname filename =
     (if filename = ''/'' then filename
      else (let f = drop_slash filename
            in case find_last_of CHR ''/'' f of
                 Some pos \<Rightarrow> (if pos \<noteq> 0 then take pos f else ''/'')
               | None \<Rightarrow> []))"

text \<open>\<open>isdir\<close> asks the file system; its answer is the argument.\<close>

definition extension :: "bool \<Rightarrow> string \<Rightarrow> string" where
  "extension isdir filename =
     (if \<not> isdir
      then (let f = basename filename
            in case find_last_of CHR ''.'' f of Some pos \<Rightarrow> drop (pos + 1) f | None \<Rightarrow> [])
      else [])"

definition parent :: "string \<Rightarrow> string" where
  "parent filename =
     (if filename = ''/'' then filename
      else (case find_last_of CHR ''/'' filename of
              Some pos \<Rightarrow> (if pos \<noteq> 0 then take pos filename else ''/'')
            | None \<Rightarrow> []))"

definition hasParent :: "string \<Rightarrow> bool" where
  "hasParent filename = (let parentDir = parent filename in \<not> (parentDir = [] \<or> parentDir = ''/''))"

text \<open>\<open>std::isalnum\<close> in the C locale.\<close>

definition is_alnum :: "char \<Rightarrow> bool" where
  "is_alnum c \<longleftrightarrow> is_digit c \<or> (65 \<le> (of_char c :: nat) \<and> (of_char c :: nat) \<le> 90) \<or>
     (97 \<le> (of_char c :: nat) \<and> (of_char c :: nat) \<le> 122)"

fun valid_chars :: "string \<Rightarrow> bool" where
  "valid_chars [] = True"
| "valid_chars (c # cs) =
     (if \<not> is_alnum c \<and> \<not> (c = CHR ''_'' \<or> c = CHR ''-'' \<or> c = CHR '','' \<or> c = CHR ''.'') then False
      else valid_chars cs)"

definition isValidFilename :: "string \<Rightarrow> bool" where
  "isValidFilename value = (if value = [] then False else valid_chars value)"

text \<open>\<open>Path::append\<close> on the text of the path.\<close>

definition path_append :: "string \<Rightarrow> string \<Rightarrow> string" where
  "path_append value other =
     (if other = [] then value
      else
        (let otherPos = find_first (\<lambda>c. c \<noteq> CHR ''/'') other;
             valuePos = find_last (\<lambda>c. c \<noteq> CHR ''/'') value
         in if valuePos = None \<and> otherPos = None then ''/''
            else
              (let value1 = (case valuePos of
                      Some p \<Rightarrow> if value \<noteq> [] then take (p + 1) value @ ''/'' else value
                    | None \<Rightarrow> value);
                   appendPart = (case otherPos of
                      None \<Rightarrow> []
                    | Some p \<Rightarrow>
                        (let p1 = (if value1 = [] \<and> other ! 0 = CHR ''/'' \<and> p > 0 then p - 1 else p)
                         in drop p1 other))
               in value1 @ appendPart)))"

definition path_plus :: "string \<Rightarrow> string \<Rightarrow> string" where
  "path_plus value other = (if other \<noteq> [] then value @ other else value)"

section \<open>Lemmas\<close>

lemma find_last_of_None: "find_last_of c s = None \<longleftrightarrow> c \<notin> set s"
  by (auto simp: str_simps)

lemma split_last_of:
  assumes "find_last_of c s = Some i"
  obtains ys zs where "s = ys @ c # zs" "c \<notin> set zs" "i = length ys"
  using split_at_last [OF assms] by metis

lemma find_last_of_hit: "c \<notin> set zs \<Longrightarrow> find_last_of c (ys @ c # zs) = Some (length ys)"
  by (rule find_last_hit) auto

text \<open>What \<open>basename\<close> and \<open>dirname\<close> compute for a name in a directory, and for one without.\<close>

lemma drop_slash_id: "n \<noteq> [] \<Longrightarrow> CHR ''/'' \<notin> set n \<Longrightarrow> drop_slash (d @ n) = d @ n"
  using last_in_set by (force simp: drop_slash_def)

lemma drop_slash_slash: "drop_slash (s @ ''/'') = s"
  by (simp add: drop_slash_def)

lemma append_neq_slash: "n \<noteq> [] \<Longrightarrow> CHR ''/'' \<notin> set n \<Longrightarrow> d @ n \<noteq> ''/''"
  by (auto simp: append_eq_Cons_conv)

lemma basename_join:
  assumes "n \<noteq> []" and "CHR ''/'' \<notin> set n"
  shows "basename (d @ CHR ''/'' # n) = n" and "basename ((d @ CHR ''/'' # n) @ ''/'') = n"
proof -
  have d: "d @ CHR ''/'' # n \<noteq> ''/''" "(d @ CHR ''/'' # n) @ ''/'' \<noteq> ''/''"
    using assms(1) by (auto simp: append_eq_Cons_conv)
  have f: "find_last_of CHR ''/'' (d @ CHR ''/'' # n) = Some (length d)"
    by (rule find_last_of_hit [OF assms(2)])
  have "drop_slash (d @ CHR ''/'' # n) = d @ CHR ''/'' # n"
    using drop_slash_id [OF assms, of "d @ ''/''"] by simp
  with d(1) f show "basename (d @ CHR ''/'' # n) = n" by (simp add: basename_def)
  show "basename ((d @ CHR ''/'' # n) @ ''/'') = n"
    unfolding basename_def using d(2) f drop_slash_slash [of "d @ CHR ''/'' # n"] by simp
qed

lemma dirname_join:
  assumes "n \<noteq> []" and "CHR ''/'' \<notin> set n"
  shows "dirname (d @ CHR ''/'' # n) = (if d = [] then ''/'' else d)"
    and "dirname ((d @ CHR ''/'' # n) @ ''/'') = (if d = [] then ''/'' else d)"
proof -
  have d: "d @ CHR ''/'' # n \<noteq> ''/''" "(d @ CHR ''/'' # n) @ ''/'' \<noteq> ''/''"
    using assms(1) by (auto simp: append_eq_Cons_conv)
  have f: "find_last_of CHR ''/'' (d @ CHR ''/'' # n) = Some (length d)"
    by (rule find_last_of_hit [OF assms(2)])
  have "drop_slash (d @ CHR ''/'' # n) = d @ CHR ''/'' # n"
    using drop_slash_id [OF assms, of "d @ ''/''"] by simp
  with d(1) f show "dirname (d @ CHR ''/'' # n) = (if d = [] then ''/'' else d)"
    by (simp add: dirname_def)
  show "dirname ((d @ CHR ''/'' # n) @ ''/'') = (if d = [] then ''/'' else d)"
    unfolding dirname_def using d(2) f drop_slash_slash [of "d @ CHR ''/'' # n"] by simp
qed

lemma dirname_shorter:
  assumes "p \<noteq> []" and "p \<noteq> ''/''"
  shows "length (dirname p) < length p"
proof -
  have le: "length (drop_slash p) \<le> length p" by (simp add: drop_slash_def)
  show ?thesis
  proof (cases "find_last_of CHR ''/'' (drop_slash p)")
    case None
    with assms show ?thesis by (simp add: dirname_def)
  next
    case (Some pos)
    then obtain ys zs where s: "drop_slash p = ys @ CHR ''/'' # zs" "pos = length ys"
      by (rule split_last_of)
    show ?thesis
    proof (cases "pos = 0")
      case True
      have "1 < length p"
      proof (rule ccontr)
        assume "\<not> 1 < length p"
        with assms(1) obtain c where "p = [c]" by (cases p) auto
        with s(1) assms(2) show False
          by (auto simp: drop_slash_def Cons_eq_append_conv split: if_splits)
      qed
      with True Some assms(2) show ?thesis by (simp add: dirname_def)
    next
      case False
      with Some s le assms(2) show ?thesis by (simp add: dirname_def)
    qed
  qed
qed

section \<open>Properties\<close>

text \<open>The name of an entry in a directory, with or without one slash behind it, is taken apart
  into that directory and that name; a name alone is in the empty directory.\<close>

theorem path_split:
  assumes "n \<noteq> []" and "CHR ''/'' \<notin> set n" and "f \<in> {p, p @ ''/''}"
  shows "(p = d @ CHR ''/'' # n \<longrightarrow> basename f = n \<and> dirname f = (if d = [] then ''/'' else d)) \<and>
    (p = n \<longrightarrow> basename f = n \<and> dirname f = [])"
proof -
  have n: "n \<noteq> ''/''" "n @ ''/'' \<noteq> ''/''" using assms(1,2) by (auto simp: append_eq_Cons_conv)
  have ds: "drop_slash n = n" "drop_slash (n @ ''/'') = n"
    using drop_slash_id [OF assms(1,2), of "[]"] drop_slash_slash by simp_all
  have "find_last_of CHR ''/'' n = None" using assms(2) find_last_of_None by blast
  with n ds have "basename f = n \<and> dirname f = []" if "p = n"
    using assms(3) that by (auto simp: basename_def dirname_def)
  moreover have "basename f = n \<and> dirname f = (if d = [] then ''/'' else d)" if "p = d @ CHR ''/'' # n"
    using assms(3) that basename_join [OF assms(1,2), of d] dirname_join [OF assms(1,2), of d] by auto
  ultimately show ?thesis by blast
qed

theorem path_split_witness:
  "basename ''/usr/lib/'' = ''lib'' \<and> dirname ''/usr/lib/'' = ''/usr''"
  using path_split [of "''lib''" "''/usr/lib/''" "''/usr/lib''" "''/usr''"] by simp

text \<open>A path and a name that hold more than slashes.\<close>

lemma append_parts:
  assumes "v \<noteq> []" "last v \<noteq> CHR ''/''" and "r \<noteq> []" "hd r \<noteq> CHR ''/''"
  shows "path_append (v @ replicate i CHR ''/'') (replicate j CHR ''/'' @ r) = v @ ''/'' @ r"
proof -
  have v: "v = butlast v @ [last v]" using assms(1) by simp
  have "find_last (\<lambda>c. c \<noteq> CHR ''/'') (butlast v @ last v # replicate i CHR ''/'') = Some (length (butlast v))"
    using assms(2) by (intro find_last_hit) auto
  moreover have "butlast v @ last v # replicate i CHR ''/'' = v @ replicate i CHR ''/''"
    using v by (metis append.assoc append_Cons append_Nil)
  ultimately have vp: "find_last (\<lambda>c. c \<noteq> CHR ''/'') (v @ replicate i CHR ''/'') = Some (length v - 1)"
    by simp
  have r: "r = hd r # tl r" using assms(3) by simp
  have "find_first (\<lambda>c. c \<noteq> CHR ''/'') (replicate j CHR ''/'' @ hd r # tl r) = Some j"
    using find_first_hit [of "replicate j CHR ''/''" "\<lambda>c. c \<noteq> CHR ''/''" "hd r" "tl r"] assms(4) by simp
  with r have op: "find_first (\<lambda>c. c \<noteq> CHR ''/'') (replicate j CHR ''/'' @ r) = Some j" by simp
  have "take (length v - 1 + 1) (v @ replicate i CHR ''/'') = v" using assms(1) by simp
  with vp op assms(1,3) show ?thesis by (simp add: path_append_def Let_def)
qed

text \<open>Appending a name to a path leaves exactly one slash between the two, however many either
  had there, and appending in two steps is appending the appended.\<close>

theorem path_append_correct:
  assumes "v \<noteq> []" "last v \<noteq> CHR ''/''" and "r \<noteq> []" "hd r \<noteq> CHR ''/''" "last r \<noteq> CHR ''/''"
    and "t \<noteq> []" "hd t \<noteq> CHR ''/''"
  shows "path_append (v @ replicate i CHR ''/'') (replicate j CHR ''/'' @ r) = v @ ''/'' @ r \<and>
    path_append (path_append v r) t = path_append v (path_append r t)"
proof -
  have "path_append v r = v @ ''/'' @ r" "path_append r t = r @ ''/'' @ t"
    using append_parts [OF assms(1-4), of 0 0] append_parts [OF assms(3,5,6,7), of 0 0] by simp_all
  moreover have "path_append (v @ ''/'' @ r) t = (v @ ''/'' @ r) @ ''/'' @ t"
    using append_parts [of "v @ ''/'' @ r" t 0 0] assms by simp
  moreover have "path_append v (r @ ''/'' @ t) = v @ ''/'' @ (r @ ''/'' @ t)"
    using append_parts [of v "r @ ''/'' @ t" 0 0] assms by simp
  ultimately show ?thesis using append_parts [OF assms(1-4)] by simp
qed

theorem path_append_correct_witness:
  "path_append ''/var/'' ''///log'' = ''/var/log''"
  using path_append_correct [of "''/var''" "''log''" "''x''" 1 3] by (simp add: numeral_eq_Suc)

lemma append_slashes: "path_append (replicate i CHR ''/'') (replicate (Suc j) CHR ''/'') = ''/''"
proof -
  have "find_last (\<lambda>c. c \<noteq> CHR ''/'') (replicate i CHR ''/'') = None"
    "find_first (\<lambda>c. c \<noteq> CHR ''/'') (replicate (Suc j) CHR ''/'') = None"
    unfolding find_last_None find_first_None by simp_all
  then show ?thesis by (simp add: path_append_def)
qed

lemma valid_chars_no_slash: "valid_chars s \<Longrightarrow> CHR ''/'' \<notin> set s"
proof -
  have "\<not> is_alnum (CHR ''/'')" by (simp add: is_alnum_def is_digit_def)
  then show "valid_chars s \<Longrightarrow> CHR ''/'' \<notin> set s"
    by (induction s) (auto split: if_splits)
qed

text \<open>A valid file name stays in its directory.\<close>

lemma valid_filename_in_directory:
  assumes "isValidFilename n" and "d \<noteq> []" "last d \<noteq> CHR ''/''"
  shows "dirname (path_append d n) = d \<and> basename (path_append d n) = n"
proof -
  have n: "n \<noteq> []" "CHR ''/'' \<notin> set n"
    using assms(1) valid_chars_no_slash by (auto simp: isValidFilename_def split: if_splits)
  then have "hd n \<noteq> CHR ''/''" using hd_in_set by fastforce
  with append_parts [OF assms(2,3) n(1), of 0 0] have "path_append d n = d @ CHR ''/'' # n" by simp
  with basename_join [OF n, of d] dirname_join [OF n, of d] assms(2) show ?thesis by simp
qed

end
