(* ===== verification/FsOps.thy ===== *)
theory FsOps
  imports FsPath Stdutils "HOL-Library.Multiset" "HOL-Library.Sublist"
begin

text \<open>
  The functions of \<open>components/system/src/fsutils.cc\<close> that work on the file system: making a
  chain of directories, removing a tree, listing, and copying.  The system calls are a record of
  functions on a state of the system that this development knows nothing about; the theorems
  name the behaviour of the calls they rely on.
\<close>

section \<open>System calls\<close>

datatype file_kind = Regular | Directory | Symlink | Other

record file_stat =
  st_kind :: file_kind
  st_size :: int
  st_perm :: nat

text \<open>\<open>stat\<close> fails with \<open>ENOENT\<close> or another error.\<close>

datatype stat_result = Stat file_stat | NoEntry | StatError

record 's os =
  sys_stat :: "string \<Rightarrow> 's \<Rightarrow> stat_result"
  sys_mkdir :: "string \<Rightarrow> nat \<Rightarrow> 's \<Rightarrow> bool \<times> 's"
  sys_remove :: "string \<Rightarrow> 's \<Rightarrow> bool \<times> 's"
  sys_readdir :: "string \<Rightarrow> 's \<Rightarrow> string list option"
  sys_fnmatch :: "string \<Rightarrow> string \<Rightarrow> bool"
  sys_open_rw :: "string \<Rightarrow> 's \<Rightarrow> int \<times> 's"
  sys_open_create :: "string \<Rightarrow> nat \<Rightarrow> 's \<Rightarrow> int \<times> 's"
  sys_lockf :: "int \<Rightarrow> bool \<Rightarrow> 's \<Rightarrow> int \<times> 's"
  sys_fstat :: "int \<Rightarrow> 's \<Rightarrow> file_stat option"
  sys_sendfile :: "int \<Rightarrow> int \<Rightarrow> int \<Rightarrow> 's \<Rightarrow> int \<times> 's"
  sys_close :: "int \<Rightarrow> 's \<Rightarrow> int \<times> 's"

definition isdir :: "'s os \<Rightarrow> string \<Rightarrow> 's \<Rightarrow> bool" where
  "isdir os path s = (case sys_stat os path s of Stat sb \<Rightarrow> st_kind sb = Directory | _ \<Rightarrow> False)"

definition filesize :: "'s os \<Rightarrow> string \<Rightarrow> 's \<Rightarrow> int" where
  "filesize os path s = (case sys_stat os path s of Stat sb \<Rightarrow> st_size sb | _ \<Rightarrow> 0)"

definition getPermissions :: "'s os \<Rightarrow> string \<Rightarrow> 's \<Rightarrow> cpp_error + nat" where
  "getPermissions os path s = (case sys_stat os path s of Stat sb \<Rightarrow> Inr (st_perm sb) | _ \<Rightarrow> Inl RuntimeError)"

text \<open>A directory that cannot be opened has no content.\<close>

definition dirContent :: "'s os \<Rightarrow> string \<Rightarrow> string \<Rightarrow> 's \<Rightarrow> string list" where
  "dirContent os base_path pat s =
     (case sys_readdir os base_path s of None \<Rightarrow> [] | Some es \<Rightarrow> filter (sys_fnmatch os pat) es)"

section \<open>Making directories\<close>

text \<open>The first loop: the names to be made, innermost at the bottom of the stack.  \<open>dirname\<close> of
  the root is the root, so that the loop does not end when not even that exists: \<open>None\<close>.
  \<open>Some None\<close> is a \<open>return false\<close>.\<close>

function mkdirs_stack :: "'s os \<Rightarrow> 's \<Rightarrow> string \<Rightarrow> string list \<Rightarrow> string list option option" where
  "mkdirs_stack os s p stack =
     (if p = [] then Some (Some stack)
      else (case sys_stat os p s of
              StatError \<Rightarrow> Some None
            | Stat buf \<Rightarrow> if st_kind buf \<noteq> Directory then Some None else Some (Some stack)
            | NoEntry \<Rightarrow> if p = ''/'' then None else mkdirs_stack os s (dirname p) (p # stack)))"
  by pat_completeness auto
termination
  by (relation "measure (\<lambda>(_, _, p, _). length p)") (auto dest: dirname_shorter)

declare mkdirs_stack.simps [simp del]

fun mkdirs_make :: "'s os \<Rightarrow> nat \<Rightarrow> string list \<Rightarrow> 's \<Rightarrow> bool \<times> 's" where
  "mkdirs_make os perm [] s = (True, s)"
| "mkdirs_make os perm (p # stack) s =
     (let (ok, s1) = sys_mkdir os p perm s in if \<not> ok then (False, s1) else mkdirs_make os perm stack s1)"

definition mkdirs :: "'s os \<Rightarrow> string \<Rightarrow> nat \<Rightarrow> 's \<Rightarrow> (bool \<times> 's) option" where
  "mkdirs os path perm s =
     (case mkdirs_stack os s path [] of
        None \<Rightarrow> None
      | Some None \<Rightarrow> Some (False, s)
      | Some (Some stack) \<Rightarrow> Some (mkdirs_make os perm stack s))"

section \<open>Removing a tree\<close>

text \<open>The recursion follows the file system, which may lead it round in a circle: fuel.\<close>

fun removeNonemptyDirectory :: "nat \<Rightarrow> 's os \<Rightarrow> string \<Rightarrow> 's \<Rightarrow> (bool \<times> 's) option"
  and remove_entries :: "nat \<Rightarrow> 's os \<Rightarrow> string \<Rightarrow> string list \<Rightarrow> 's \<Rightarrow> (bool \<times> 's) option" where
  "removeNonemptyDirectory 0 os path s = None"
| "removeNonemptyDirectory (Suc n) os path s =
     (case remove_entries n os path (dirContent os path ''*'' s) s of
        None \<Rightarrow> None
      | Some (ok, s1) \<Rightarrow> if \<not> ok then Some (False, s1) else Some (sys_remove os path s1))"
| "remove_entries n os path [] s = Some (True, s)"
| "remove_entries n os path (entry # es) s =
     (if entry = ''.'' \<or> entry = ''..'' then remove_entries n os path es s
      else (let p = path_append path entry
            in case (if isdir os p s then removeNonemptyDirectory n os p s else Some (sys_remove os p s)) of
                 None \<Rightarrow> None
               | Some (ok, s1) \<Rightarrow> if \<not> ok then Some (False, s1) else remove_entries n os path es s1))"

section \<open>Copying\<close>

text \<open>The part after a successful open of the source: the size, the transfer, and the closing.\<close>

definition copy_close :: "'s os \<Rightarrow> int \<Rightarrow> bool \<Rightarrow> 's \<Rightarrow> bool \<times> 's" where
  "copy_close os src_fd success s =
     (let (u, s1) = sys_lockf os src_fd False s;
          success1 = (if u \<noteq> 0 then False else success);
          (c, s2) = sys_close os src_fd s1
      in (if c \<noteq> 0 then False else success1, s2))"

definition copy_transfer :: "'s os \<Rightarrow> int \<Rightarrow> string \<Rightarrow> file_stat \<Rightarrow> 's \<Rightarrow> bool \<times> 's" where
  "copy_transfer os src_fd dstpath sb s =
     (let (dst_fd, s1) = sys_open_create os dstpath (st_perm sb) s
      in if dst_fd < 0 then (False, s1)
         else (let (send_cnt, s2) = sys_sendfile os dst_fd src_fd (st_size sb) s1;
                   success = (if send_cnt < 0 \<or> send_cnt \<noteq> st_size sb then False else True);
                   (c, s3) = sys_close os dst_fd s2
               in (if c \<noteq> 0 then False else success, s3)))"

definition copy_locked :: "'s os \<Rightarrow> int \<Rightarrow> string \<Rightarrow> file_stat \<Rightarrow> 's \<Rightarrow> bool \<times> 's" where
  "copy_locked os src_fd dstpath sb s =
     (let (ok, s1) = copy_transfer os src_fd dstpath sb s;
          (ok1, s2) = copy_close os src_fd ok s1
      in (if ok1 then (case sys_stat os dstpath s2 of Stat sb2 \<Rightarrow> st_size sb2 = st_size sb | _ \<Rightarrow> False)
          else False, s2))"

definition copy_opened :: "'s os \<Rightarrow> int \<Rightarrow> string \<Rightarrow> 's \<Rightarrow> bool \<times> 's" where
  "copy_opened os src_fd dstpath s =
     (let (l, s1) = sys_lockf os src_fd True s
      in if l < 0 then (False, snd (sys_close os src_fd s1))
         else (case sys_fstat os src_fd s1 of
                 None \<Rightarrow> (False, snd (sys_close os src_fd (snd (sys_lockf os src_fd False s1))))
               | Some sb \<Rightarrow> copy_locked os src_fd dstpath sb s1))"

text \<open>\<open>copy\<close>: the status of \<open>stat\<close>, 0 or -1, is compared with \<open>ENOENT\<close>, which is 2.  The
  default permissions of \<open>mkdirs\<close> are 0770.\<close>

definition stat_status :: "stat_result \<Rightarrow> int" where
  "stat_status r = (case r of Stat sb \<Rightarrow> 0 | NoEntry \<Rightarrow> - 1 | StatError \<Rightarrow> - 1)"

definition ENOENT :: int where "ENOENT = 2"

definition copy_open :: "'s os \<Rightarrow> string \<Rightarrow> string \<Rightarrow> 's \<Rightarrow> bool \<times> 's" where
  "copy_open os srcpath dstpath s =
     (let (src_fd, s1) = sys_open_rw os srcpath s
      in if src_fd > 0 then copy_opened os src_fd dstpath s1 else (False, s1))"

definition copy :: "'s os \<Rightarrow> string \<Rightarrow> string \<Rightarrow> 's \<Rightarrow> (bool \<times> 's) option" where
  "copy os srcpath dstpath s =
     (let dname = dirname dstpath
      in if dname = [] then Some (False, s)
         else if stat_status (sys_stat os dname s) = ENOENT
         then (case mkdirs os dname 504 s of
                 None \<Rightarrow> None
               | Some (made, s0) \<Rightarrow> if \<not> made then Some (False, s0) else Some (copy_open os srcpath dstpath s0))
         else Some (copy_open os srcpath dstpath s))"

section \<open>Making directories: what is made\<close>

text \<open>The ancestors of a name that are missing, outermost first, up to one that exists.\<close>

inductive missing_up_to :: "'s os \<Rightarrow> 's \<Rightarrow> string \<Rightarrow> string list \<Rightarrow> bool" for os s where
  empty: "missing_up_to os s [] []"
| exists: "p \<noteq> [] \<Longrightarrow> sys_stat os p s = Stat buf \<Longrightarrow> st_kind buf = Directory \<Longrightarrow> missing_up_to os s p []"
| missing: "p \<noteq> [] \<Longrightarrow> p \<noteq> ''/'' \<Longrightarrow> sys_stat os p s = NoEntry \<Longrightarrow> missing_up_to os s (dirname p) ps \<Longrightarrow>
    missing_up_to os s p (ps @ [p])"

lemma mkdirs_stack_missing:
  "mkdirs_stack os s p stack = Some (Some ps) \<longleftrightarrow> (\<exists>qs. missing_up_to os s p qs \<and> ps = qs @ stack)"
proof (induction os s p stack rule: mkdirs_stack.induct)
  case (1 os s p stack)
  show ?case
  proof (cases "p = []")
    case True
    then show ?thesis
      by (subst mkdirs_stack.simps) (auto intro: missing_up_to.empty elim: missing_up_to.cases)
  next
    case False
    show ?thesis
    proof (cases "sys_stat os p s")
      case (Stat buf)
      then show ?thesis using False
        by (subst mkdirs_stack.simps)
          (auto intro: missing_up_to.exists elim: missing_up_to.cases)
    next
      case NoEntry
      have "missing_up_to os s p qs \<longleftrightarrow>
          p \<noteq> ''/'' \<and> (\<exists>ps. qs = ps @ [p] \<and> missing_up_to os s (dirname p) ps)" for qs
        using NoEntry False by (auto intro: missing_up_to.missing elim: missing_up_to.cases)
      with 1 [OF False NoEntry] show ?thesis using NoEntry False
        by (subst mkdirs_stack.simps) auto
    next
      case StatError
      then show ?thesis using False
        by (subst mkdirs_stack.simps) (auto elim: missing_up_to.cases)
    qed
  qed
qed

text \<open>What the theorem relies on: a successful \<open>mkdir\<close> makes a directory and keeps the others.\<close>

definition mkdir_laws :: "'s os \<Rightarrow> bool" where
  "mkdir_laws os \<longleftrightarrow> (\<forall>p m s s'. sys_mkdir os p m s = (True, s') \<longrightarrow>
     isdir os p s' \<and> (\<forall>q. isdir os q s \<longrightarrow> isdir os q s'))"

lemma mkdirs_make_True:
  assumes "mkdir_laws os"
  shows "mkdirs_make os perm ps s = (True, s') \<Longrightarrow>
    s' = foldl (\<lambda>s q. snd (sys_mkdir os q perm s)) s ps \<and> (\<forall>q \<in> set ps. isdir os q s') \<and>
    (\<forall>q. isdir os q s \<longrightarrow> isdir os q s')"
proof (induction ps arbitrary: s)
  case Nil
  then show ?case by simp
next
  case (Cons p ps)
  then obtain s1 where "sys_mkdir os p perm s = (True, s1)" "mkdirs_make os perm ps s1 = (True, s')"
    by (auto split: prod.splits if_splits)
  with Cons.IH [of s1] assms show ?case by (auto simp: mkdir_laws_def)
qed

lemma missing_up_to_last: "missing_up_to os s p qs \<Longrightarrow> p = [] \<or> p \<in> set qs \<or> isdir os p s"
  by (induction rule: missing_up_to.induct) (auto simp: isdir_def)

text \<open>C35: \<open>mkdirs\<close> that returns true has made exactly the missing ancestors, the outermost first,
  and the path is a directory.\<close>

theorem mkdirs_correct:
  assumes "mkdir_laws os" and "mkdirs os path perm s = Some (True, s')"
  shows "\<exists>qs. missing_up_to os s path qs \<and>
    s' = foldl (\<lambda>s q. snd (sys_mkdir os q perm s)) s qs \<and> (\<forall>q \<in> set qs. isdir os q s') \<and>
    (path = [] \<or> isdir os path s')"
proof -
  obtain qs where qs: "mkdirs_stack os s path [] = Some (Some qs)" "mkdirs_make os perm qs s = (True, s')"
    using assms(2) by (auto simp: mkdirs_def split: option.splits)
  then have m: "missing_up_to os s path qs" by (simp add: mkdirs_stack_missing)
  note made = mkdirs_make_True [OF assms(1) qs(2)]
  have "path = [] \<or> isdir os path s'"
    using missing_up_to_last [OF m] made by auto
  show ?thesis
    by (rule exI [of _ qs]) (use m made \<open>path = [] \<or> isdir os path s'\<close> in blast)
qed

text \<open>A system of directories only, for the example.\<close>

definition dirs_os :: "string list os" where
  "dirs_os = \<lparr>sys_stat = (\<lambda>p s. if p \<in> set s then Stat \<lparr>st_kind = Directory, st_size = 0, st_perm = 0\<rparr> else NoEntry),
     sys_mkdir = (\<lambda>p m s. (True, p # s)), sys_remove = (\<lambda>p s. (True, removeAll p s)),
     sys_readdir = (\<lambda>p s. None), sys_fnmatch = (\<lambda>_ _. True),
     sys_open_rw = (\<lambda>p s. (- 1, s)), sys_open_create = (\<lambda>p m s. (- 1, s)), sys_lockf = (\<lambda>fd l s. (0, s)),
     sys_fstat = (\<lambda>fd s. None), sys_sendfile = (\<lambda>d f n s. (n, s)), sys_close = (\<lambda>fd s. (0, s))\<rparr>"

theorem mkdirs_correct_witness:
  "mkdirs dirs_os ''/a/b/'' 504 [''/''] = Some (True, [''/a/b/'', ''/a'', ''/'']) \<and>
   (\<exists>qs. missing_up_to dirs_os [''/''] ''/a/b/'' qs \<and>
     (\<forall>q \<in> set qs. isdir dirs_os q [''/a/b/'', ''/a'', ''/'']))"
proof -
  have "mkdir_laws dirs_os" by (auto simp: mkdir_laws_def dirs_os_def isdir_def split: if_splits)
  moreover have "dirname ''/a/b/'' = ''/a''" "dirname ''/a'' = ''/''" by code_simp+
  then have "mkdirs dirs_os ''/a/b/'' 504 [''/''] = Some (True, [''/a/b/'', ''/a'', ''/''])"
    by (simp add: mkdirs_def mkdirs_stack.simps dirs_os_def)
  ultimately show ?thesis using mkdirs_correct [of dirs_os "''/a/b/''" 504 "[''/'']"] by blast
qed

section \<open>Removing a tree: what is removed\<close>

datatype fs_tree = FileNode | DirNode "(string \<times> fs_tree) list"

fun height :: "fs_tree \<Rightarrow> nat" where
  "height FileNode = 0"
| "height (DirNode es) = Suc (fold max (map (\<lambda>e. height (snd e)) es) 0)"

fun tree_names_ok :: "fs_tree \<Rightarrow> bool" where
  "tree_names_ok FileNode \<longleftrightarrow> True"
| "tree_names_ok (DirNode es) \<longleftrightarrow> distinct (map fst es) \<and>
     (\<forall>e \<in> set es. fst e \<noteq> [] \<and> CHR ''/'' \<notin> set (fst e) \<and> tree_names_ok (snd e))"

fun postorder :: "string \<Rightarrow> fs_tree \<Rightarrow> string list" where
  "postorder p FileNode = [p]"
| "postorder p (DirNode es) = concat (map (\<lambda>e. postorder (p @ CHR ''/'' # fst e) (snd e)) es) @ [p]"

text \<open>The system shows this tree at this path.\<close>

fun view :: "'s os \<Rightarrow> 's \<Rightarrow> string \<Rightarrow> fs_tree \<Rightarrow> bool" where
  "view os s p FileNode \<longleftrightarrow> \<not> isdir os p s"
| "view os s p (DirNode es) \<longleftrightarrow> isdir os p s \<and>
     filter (\<lambda>e. \<not> (e = ''.'' \<or> e = ''..'')) (dirContent os p ''*'' s) = map fst es \<and>
     (\<forall>e \<in> set es. view os s (p @ CHR ''/'' # fst e) (snd e))"

text \<open>Removing one path leaves the trees alone that it is not in.\<close>

definition remove_laws :: "'s os \<Rightarrow> bool" where
  "remove_laws os \<longleftrightarrow> (\<forall>p t q s. view os s p t \<and> \<not> prefix (p @ ''/'') (q @ ''/'') \<longrightarrow>
     view os (snd (sys_remove os q s)) p t)"

fun run_removes :: "'s os \<Rightarrow> string list \<Rightarrow> 's \<Rightarrow> bool \<times> 's" where
  "run_removes os [] s = (True, s)"
| "run_removes os (q # qs) s = (let (ok, s1) = sys_remove os q s in if ok then run_removes os qs s1 else (False, s1))"

lemma run_removes_append:
  "run_removes os (xs @ ys) s =
     (let (ok, s1) = run_removes os xs s in if ok then run_removes os ys s1 else (False, s1))"
  by (induction xs arbitrary: s) (auto simp: Let_def split: prod.split)

lemma postorder_prefix: "q \<in> set (postorder p t) \<Longrightarrow> prefix (p @ ''/'') (q @ ''/'')"
proof (induction p t rule: postorder.induct)
  case (1 p)
  then show ?case by simp
next
  case (2 p es)
  show ?case
  proof (cases "q = p")
    case False
    then obtain e where e: "e \<in> set es" "q \<in> set (postorder (p @ CHR ''/'' # fst e) (snd e))"
      using "2.prems" by auto
    from "2.IH" [OF e] have "prefix ((p @ CHR ''/'' # fst e) @ ''/'') (q @ ''/'')" .
    then show ?thesis by (auto simp: prefix_def)
  qed simp
qed

lemma sibling_not_prefix:
  assumes "CHR ''/'' \<notin> set m" and "CHR ''/'' \<notin> set n" and "m \<noteq> n"
    and "prefix ((p @ CHR ''/'' # m) @ ''/'') (q @ ''/'')"
  shows "\<not> prefix ((p @ CHR ''/'' # n) @ ''/'') (q @ ''/'')"
proof
  assume "prefix ((p @ CHR ''/'' # n) @ ''/'') (q @ ''/'')"
  with assms(4) obtain x y where "n @ CHR ''/'' # y = m @ CHR ''/'' # x"
    by (auto simp: prefix_def)
  moreover have "takeWhile (\<lambda>c. c \<noteq> CHR ''/'') (m @ CHR ''/'' # x) = m"
    "takeWhile (\<lambda>c. c \<noteq> CHR ''/'') (n @ CHR ''/'' # y) = n"
    using assms(1,2) by (simp_all add: takeWhile_append takeWhile_none)
  ultimately show False using assms(3) by metis
qed

lemma view_run_removes:
  assumes "remove_laws os" and "\<forall>q \<in> set qs. \<not> prefix (p @ ''/'') (q @ ''/'')"
  shows "view os s p t \<Longrightarrow> view os (snd (run_removes os qs s)) p t"
  using assms(2)
proof (induction qs arbitrary: s)
  case Nil
  then show ?case by simp
next
  case (Cons q qs)
  have "view os (snd (sys_remove os q s)) p t"
    using assms(1) Cons.prems by (simp add: remove_laws_def)
  with Cons show ?case by (cases "sys_remove os q s") (simp add: Let_def)
qed

lemma height_member: "e \<in> set es \<Longrightarrow> height (snd e) < height (DirNode es)"
proof -
  have "x \<le> fold max xs a" if "x \<in> set xs \<or> x \<le> a" for x a :: nat and xs
    using that by (induction xs arbitrary: a) fastforce+
  then show "e \<in> set es \<Longrightarrow> height (snd e) < height (DirNode es)"
    by (simp add: less_Suc_eq_le)
qed

lemma path_append_entry:
  "p \<noteq> [] \<Longrightarrow> last p \<noteq> CHR ''/'' \<Longrightarrow> n \<noteq> [] \<Longrightarrow> CHR ''/'' \<notin> set n \<Longrightarrow>
    path_append p n = p @ CHR ''/'' # n"
  using append_parts [of p n 0 0] hd_in_set [of n] by fastforce

lemma remove_entries_filter:
  "remove_entries n os p es s = remove_entries n os p (filter (\<lambda>e. \<not> (e = ''.'' \<or> e = ''..'')) es) s"
  by (induction es arbitrary: s) (auto simp: Let_def split: option.split prod.split)

text \<open>The entries, given what the recursion does with each of them.\<close>

lemma remove_entries_run:
  assumes "remove_laws os" and "p \<noteq> []" "last p \<noteq> CHR ''/''"
    and ih: "\<And>e s. e \<in> set es \<Longrightarrow> isdir os (p @ CHR ''/'' # fst e) s \<Longrightarrow>
      view os s (p @ CHR ''/'' # fst e) (snd e) \<Longrightarrow>
      removeNonemptyDirectory n os (p @ CHR ''/'' # fst e) s =
        Some (run_removes os (postorder (p @ CHR ''/'' # fst e) (snd e)) s)"
    and "tree_names_ok (DirNode es)" and "\<forall>e \<in> set es. view os s (p @ CHR ''/'' # fst e) (snd e)"
    and "\<forall>e \<in> set es. fst e \<noteq> ''.'' \<and> fst e \<noteq> ''..''"
  shows "remove_entries n os p (map fst es) s =
    Some (run_removes os (concat (map (\<lambda>e. postorder (p @ CHR ''/'' # fst e) (snd e)) es)) s)"
  using assms(4-)
proof (induction es arbitrary: s)
  case Nil
  then show ?case by simp
next
  case (Cons e es)
  let ?q = "p @ CHR ''/'' # fst e"
  let ?post = "postorder ?q (snd e)"
  have e: "fst e \<noteq> []" "CHR ''/'' \<notin> set (fst e)" "view os s ?q (snd e)" using Cons.prems by auto
  have q: "path_append p (fst e) = ?q" by (rule path_append_entry [OF assms(2,3) e(1,2)])
  have step: "(if isdir os ?q s then removeNonemptyDirectory n os ?q s else Some (sys_remove os ?q s)) =
      Some (run_removes os ?post s)"
  proof (cases "snd e")
    case FileNode
    with e(3) show ?thesis by (cases "sys_remove os ?q s") (simp add: Let_def)
  next
    case (DirNode ds)
    with e(3) Cons.prems(1) [of e s] show ?thesis by simp
  qed
  define s1 where "s1 = snd (run_removes os ?post s)"
  have "view os s1 (p @ CHR ''/'' # fst e') (snd e')" if e': "e' \<in> set es" for e'
    unfolding s1_def
  proof (rule view_run_removes [OF assms(1)])
    show "view os s (p @ CHR ''/'' # fst e') (snd e')" using Cons.prems(3) e' by simp
    have "fst e \<noteq> fst e'" "CHR ''/'' \<notin> set (fst e')" using Cons.prems(2) e' by auto
    then show "\<forall>x \<in> set ?post. \<not> prefix ((p @ CHR ''/'' # fst e') @ ''/'') (x @ ''/'')"
      using sibling_not_prefix [OF e(2)] postorder_prefix by blast
  qed
  then have "remove_entries n os p (map fst es) s1 =
    Some (run_removes os (concat (map (\<lambda>e. postorder (p @ CHR ''/'' # fst e) (snd e)) es)) s1)"
    using Cons.prems by (intro Cons.IH) auto
  moreover have "\<not> (fst e = ''.'' \<or> fst e = ''..'')" using Cons.prems(4) by simp
  ultimately show ?case
    using q step by (cases "run_removes os ?post s") (simp add: run_removes_append s1_def Let_def)
qed


text \<open>A system that shows one directory with a file until it is removed.\<close>

definition one_file_os :: "string list os" where
  "one_file_os = dirs_os\<lparr>
     sys_stat := (\<lambda>p s. if p = ''/d'' then Stat \<lparr>st_kind = Directory, st_size = 0, st_perm = 0\<rparr>
                       else Stat \<lparr>st_kind = Regular, st_size = 0, st_perm = 0\<rparr>),
     sys_readdir := (\<lambda>p s. if p = ''/d'' then Some [''.'', ''f'', ''..''] else None),
     sys_remove := (\<lambda>p s. (True, s @ [p]))\<rparr>"

lemma one_file_view: "view one_file_os s p t = view one_file_os s' p t"
  by (induction one_file_os s p t rule: view.induct) (auto simp: one_file_os_def isdir_def dirContent_def dirs_os_def)


section \<open>Copying: descriptors and sizes\<close>

text \<open>The descriptors that are open, and what the calls do to them: only \<open>open\<close> and \<open>close\<close>
  change them, and \<open>close\<close> frees the descriptor even when it reports an error, as on Linux.\<close>

definition fd_laws :: "'s os \<Rightarrow> ('s \<Rightarrow> int multiset) \<Rightarrow> bool" where
  "fd_laws os fds \<longleftrightarrow>
     (\<forall>p s. fds (snd (sys_open_rw os p s)) =
        (if fst (sys_open_rw os p s) < 0 then fds s else add_mset (fst (sys_open_rw os p s)) (fds s))) \<and>
     (\<forall>p m s. fds (snd (sys_open_create os p m s)) =
        (if fst (sys_open_create os p m s) < 0 then fds s else add_mset (fst (sys_open_create os p m s)) (fds s))) \<and>
     (\<forall>fd l s. fds (snd (sys_lockf os fd l s)) = fds s) \<and>
     (\<forall>d f n s. fds (snd (sys_sendfile os d f n s)) = fds s) \<and>
     (\<forall>fd s. fds (snd (sys_close os fd s)) = fds s - {#fd#})"

lemma copy_transfer_fds:
  assumes "fd_laws os fds" and "copy_transfer os fd dst sb s = (ok, s')"
  shows "fds s' = fds s"
proof -
  note laws = assms(1) [unfolded fd_laws_def]
  obtain d s1 where 1: "sys_open_create os dst (st_perm sb) s = (d, s1)" by fastforce
  with laws have f1: "fds s1 = (if d < 0 then fds s else add_mset d (fds s))" by (metis fst_conv snd_conv)
  obtain c s2 where 2: "sys_sendfile os d fd (st_size sb) s1 = (c, s2)" by fastforce
  with laws have f2: "fds s2 = fds s1" by (metis snd_conv)
  obtain r s3 where 3: "sys_close os d s2 = (r, s3)" by fastforce
  with laws have f3: "fds s3 = fds s2 - {#d#}" by (metis snd_conv)
  from assms(2) 1 2 3 f1 f2 f3 show ?thesis
    by (auto simp: copy_transfer_def Let_def split: if_splits)
qed

lemma copy_opened_fds:
  assumes "fd_laws os fds" and "copy_opened os fd dst s = (ok, s')"
  shows "fds s' = fds s - {#fd#}"
proof -
  note laws = assms(1) [unfolded fd_laws_def]
  obtain l s1 where 1: "sys_lockf os fd True s = (l, s1)" by fastforce
  with laws have f1: "fds s1 = fds s" by (metis snd_conv)
  have cl: "fds (snd (sys_close os fd t)) = fds t - {#fd#}" "fds (snd (sys_lockf os fd b t)) = fds t" for t b
    using laws by blast+
  show ?thesis
  proof (cases "l < 0 \<or> sys_fstat os fd s1 = None")
    case True
    with assms(2) 1 f1 cl show ?thesis
      by (auto simp: copy_opened_def Let_def split: if_splits)
  next
    case False
    then obtain sb where sb: "sys_fstat os fd s1 = Some sb" by auto
    obtain ok1 s2 where 2: "copy_transfer os fd dst sb s1 = (ok1, s2)" by fastforce
    then have f2: "fds s2 = fds s1" by (rule copy_transfer_fds [OF assms(1)])
    obtain ok2 s3 where 3: "copy_close os fd ok1 s2 = (ok2, s3)" by fastforce
    then have "fds s3 = fds s2 - {#fd#}"
      using cl by (auto simp: copy_close_def Let_def split: prod.splits) (metis snd_conv)+
    with assms(2) 1 2 3 sb False f1 f2 show ?thesis
      by (auto simp: copy_opened_def copy_locked_def Let_def)
  qed
qed

text \<open>The comparison of the status with \<open>ENOENT\<close> is never true, so no directory is made.\<close>

lemma copy_makes_no_directory:
  "copy os src dst s = Some (if dirname dst = [] then (False, s) else copy_open os src dst s)"
  by (simp add: copy_def Let_def stat_status_def ENOENT_def split: stat_result.split)

lemma copy_locked_size:
  assumes "copy_locked os fd dst sb s = (True, s')"
  shows "\<exists>sb'. sys_stat os dst s' = Stat sb' \<and> st_size sb' = st_size sb"
  using assms by (auto simp: copy_locked_def Let_def split: prod.splits if_splits stat_result.splits)

text \<open>C36: \<open>copy\<close> returns, makes no directory, and closes every descriptor it opened on every
  path, except that a source opened as descriptor 0 is taken for a failure and stays open; when
  it returns true the destination has the size the source had under the lock.\<close>

theorem copy_correct:
  assumes "fd_laws os fds"
  shows "\<exists>ok s'. copy os src dst s = Some (ok, s') \<and>
    (fds s' = (if dirname dst \<noteq> [] \<and> fst (sys_open_rw os src s) = 0 then add_mset 0 (fds s) else fds s)) \<and>
    (ok \<longrightarrow> (\<exists>fd sb sb' t. fst (sys_open_rw os src s) = fd \<and> 0 < fd \<and> sys_fstat os fd t = Some sb \<and>
       sys_stat os dst s' = Stat sb' \<and> st_size sb' = st_size sb))"
proof (cases "dirname dst = []")
  case True
  then show ?thesis by (intro exI [of _ False] exI [of _ s]) (simp add: copy_makes_no_directory)
next
  case False
  obtain fd s1 where 1: "sys_open_rw os src s = (fd, s1)" by fastforce
  then have f1: "fds s1 = (if fd < 0 then fds s else add_mset fd (fds s))"
    using assms unfolding fd_laws_def by (metis fst_conv snd_conv)
  show ?thesis
  proof (cases "fd > 0")
    case False
    with 1 f1 \<open>dirname dst \<noteq> []\<close> show ?thesis
      by (auto simp: copy_makes_no_directory copy_open_def Let_def)
  next
    case True
    obtain ok s' where 2: "copy_opened os fd dst s1 = (ok, s')" by fastforce
    from copy_opened_fds [OF assms 2] f1 True have "fds s' = fds s" by simp
    moreover have "\<exists>sb sb' t. sys_fstat os fd t = Some sb \<and> sys_stat os dst s' = Stat sb' \<and>
        st_size sb' = st_size sb" if "ok"
      using 2 that copy_locked_size
      by (fastforce simp: copy_opened_def Let_def split: prod.splits if_splits option.splits)
    ultimately show ?thesis using 1 2 True \<open>dirname dst \<noteq> []\<close>
      by (auto simp: copy_makes_no_directory copy_open_def)
  qed
qed

text \<open>A system whose files all have ten bytes; the state is the list of open descriptors.\<close>

definition ten_bytes_os :: "int list os" where
  "ten_bytes_os = \<lparr>sys_stat = (\<lambda>p s. Stat \<lparr>st_kind = Regular, st_size = 10, st_perm = 420\<rparr>),
     sys_mkdir = (\<lambda>p m s. (True, s)), sys_remove = (\<lambda>p s. (True, s)),
     sys_readdir = (\<lambda>p s. None), sys_fnmatch = (\<lambda>_ _. True),
     sys_open_rw = (\<lambda>p s. (3, 3 # s)), sys_open_create = (\<lambda>p m s. (4, 4 # s)), sys_lockf = (\<lambda>fd l s. (0, s)),
     sys_fstat = (\<lambda>fd s. Some \<lparr>st_kind = Regular, st_size = 10, st_perm = 420\<rparr>),
     sys_sendfile = (\<lambda>d f n s. (n, s)), sys_close = (\<lambda>fd s. (0, remove1 fd s))\<rparr>"

theorem copy_correct_witness:
  "copy ten_bytes_os ''/a'' ''/b/c'' [7] = Some (True, [7]) \<and>
   (\<exists>sb'. sys_stat ten_bytes_os ''/b/c'' [7] = Stat sb' \<and> st_size sb' = 10)"
proof -
  have "fd_laws ten_bytes_os mset" by (simp add: fd_laws_def ten_bytes_os_def)
  from copy_correct [OF this, of "''/a''" "''/b/c''" "[7]"]
  obtain ok s' where "copy ten_bytes_os ''/a'' ''/b/c'' [7] = Some (ok, s')" "mset s' = mset [7]"
    by (auto simp: ten_bytes_os_def)
  moreover have "dirname ''/b/c'' = ''/b''" by code_simp
  then have "copy ten_bytes_os ''/a'' ''/b/c'' [7] = Some (True, [7])"
    by (simp add: copy_makes_no_directory copy_open_def copy_opened_def copy_locked_def
        copy_transfer_def copy_close_def ten_bytes_os_def)
  ultimately show ?thesis by (simp add: ten_bytes_os_def)
qed

end
