(* ===== verification/Getopt.thy ===== *)
theory Getopt
  imports Optional Stdutils
begin

text \<open>
  \<open>components/system/src/getopt_wrapper.cc\<close> and
  \<open>include/common/system/getopt_wrapper.hh\<close>: the described options, the check for duplicates,
  the option string and the help text built from them, and the loop over the results of
  \<open>getopt_long\<close>, which belongs to the C library: the list of its results is an argument.
\<close>

section \<open>Described options\<close>

datatype arg = ArgNone | ArgOptional | ArgRequired

record desc_option =
  longName :: string
  shortName :: char
  argType :: arg
  description :: string

text \<open>\<open>operator==\<close> of \<open>DescOption\<close>: either name is the same.\<close>

definition desc_eq :: "desc_option \<Rightarrow> desc_option \<Rightarrow> bool" where
  "desc_eq a b \<longleftrightarrow> shortName a = shortName b \<or> longName a = longName b"

definition systemOpts :: "desc_option list" where
  "systemOpts = [\<lparr>longName = ''help'', shortName = CHR ''h'', argType = ArgOptional,
                  description = ''This help''\<rparr>]"

text \<open>The counts over the two maps: for every name, its occurrences beyond the first.\<close>

definition extra :: "'a list \<Rightarrow> nat" where
  "extra ns = sum_list (map (\<lambda>n. count_list ns n - 1) (remdups ns))"

definition checkForDuplicates :: "desc_option list \<Rightarrow> cpp_error + unit" where
  "checkForDuplicates opts =
     (let errcnt = length (filter (\<lambda>systemOpt. find (desc_eq systemOpt) opts \<noteq> None) systemOpts)
            + extra (map shortName opts) + extra (map longName opts)
      in if errcnt \<noteq> 0 then Inl InvalidArgument else Inr ())"

section \<open>The wrapper\<close>

record getopt_wrapper =
  optString :: string
  helpString :: string
  options :: "desc_option list"

definition opt_text :: "desc_option \<Rightarrow> string" where
  "opt_text opt = shortName opt #
     (case argType opt of ArgOptional \<Rightarrow> ''::'' | ArgRequired \<Rightarrow> '':'' | ArgNone \<Rightarrow> [])"

definition tab :: char where "tab = CHR 0x09"
definition newline :: char where "newline = CHR 0x0A"

definition help_text :: "desc_option \<Rightarrow> string" where
  "help_text opt = '' -'' @ [shortName opt] @ '' '' @
     (case argType opt of
        ArgOptional \<Rightarrow> ''['' @ longName opt @ '' argument]''
      | ArgRequired \<Rightarrow> ''<'' @ longName opt @ '' argument>''
      | ArgNone \<Rightarrow> [tab]) @
     [tab] @ ''--'' @ longName opt @ [tab, tab] @ description opt @ [newline]"

definition setOptions :: "desc_option list \<Rightarrow> cpp_error + getopt_wrapper" where
  "setOptions opts =
     (case checkForDuplicates opts of
        Inl e \<Rightarrow> Inl e
      | Inr _ \<Rightarrow> Inr \<lparr>optString = concat (map opt_text (systemOpts @ opts)),
                      helpString = concat (map help_text (systemOpts @ opts)),
                      options = opts @ systemOpts\<rparr>)"

definition GetoptWrapper :: "desc_option list \<Rightarrow> cpp_error + getopt_wrapper" where
  "GetoptWrapper opts = setOptions opts"

definition getHelp :: "getopt_wrapper \<Rightarrow> string" where
  "getHelp w = helpString w"

section \<open>Processing\<close>

record parsed_option =
  p_short :: char
  p_value :: "string option"

datatype process_status = StatusOk parsed_option | BadOption | LastOption

text \<open>One result of \<open>getopt_long\<close>: its value and \<open>optarg\<close>.  The value of an option is its
  short name, as \<open>rawOption\<close> sets it; \<open>char(val)\<close> keeps the low byte.\<close>

definition process_one :: "int \<Rightarrow> string option \<Rightarrow> process_status" where
  "process_one val oarg =
     (if val = 63 \<or> val = 58 then BadOption
      else if val = - 1 then LastOption
      else StatusOk \<lparr>p_short = char_of (nat (val mod 256)), p_value = oarg\<rparr>)"

text \<open>The loop up to the last option; \<open>None\<close> when the results end before it.\<close>

fun process :: "(int \<times> string option) list \<Rightarrow> parsed_option list \<Rightarrow> bool \<Rightarrow>
    (parsed_option list \<times> bool) option" where
  "process [] result failed = None"
| "process ((val, oarg) # rs) result failed =
     (case process_one val oarg of
        LastOption \<Rightarrow> Some (result, failed)
      | StatusOk p \<Rightarrow> process rs (result @ [p]) failed
      | BadOption \<Rightarrow> process rs result True)"

section \<open>Duplicates\<close>

lemma extra_0: "extra ns = 0 \<longleftrightarrow> distinct ns"
proof
  assume *: "extra ns = 0"
  show "distinct ns"
  proof (rule ccontr)
    assume "\<not> distinct ns"
    then obtain xs ys zs y where "ns = xs @ [y] @ ys @ [y] @ zs" by (blast dest: not_distinct_decomp)
    then have "y \<in> set ns" "count_list ns y - 1 \<noteq> 0" by simp_all
    with * show False by (auto simp: extra_def sum_list_eq_0_iff)
  qed
next
  have "distinct ns \<Longrightarrow> count_list ns n \<le> 1" for n
    by (induction ns) (auto simp: count_list_0_iff)
  then show "distinct ns \<Longrightarrow> extra ns = 0"
    by (simp add: extra_def sum_list_eq_0_iff)
qed

lemma extra_pos: "0 < extra ns \<longleftrightarrow> \<not> distinct ns"
  using extra_0 [of ns] by auto

text \<open>The options are accepted exactly when no short name and no long name occurs twice among
  them and the predefined ones.\<close>

theorem duplicates_rejected:
  "(\<exists>w. GetoptWrapper opts = Inr w) \<longleftrightarrow>
     distinct (map shortName (systemOpts @ opts)) \<and> distinct (map longName (systemOpts @ opts))"
proof -
  have "filter (\<lambda>systemOpt. find (desc_eq systemOpt) opts \<noteq> None) systemOpts = [] \<longleftrightarrow>
      CHR ''h'' \<notin> shortName ` set opts \<and> ''help'' \<notin> longName ` set opts"
    by (auto simp: systemOpts_def desc_eq_def find_None_iff image_iff)
  then have "checkForDuplicates opts = Inr () \<longleftrightarrow>
      CHR ''h'' \<notin> shortName ` set opts \<and> ''help'' \<notin> longName ` set opts \<and>
      distinct (map shortName opts) \<and> distinct (map longName opts)"
    by (auto simp: checkForDuplicates_def Let_def extra_0 extra_pos)
  moreover have "(\<exists>w. GetoptWrapper opts = Inr w) \<longleftrightarrow> checkForDuplicates opts = Inr ()"
    by (auto simp: GetoptWrapper_def setOptions_def split: sum.splits)
  ultimately show ?thesis by (auto simp: systemOpts_def)
qed

section \<open>The option string\<close>

text \<open>How \<open>getopt\<close> is documented to read its option string: a character, and one or two colons
  behind it.\<close>

fun read_optstring :: "string \<Rightarrow> (char \<times> arg) list" where
  "read_optstring [] = []"
| "read_optstring (c # s) =
     (if take 2 s = ''::'' then (c, ArgOptional) # read_optstring (drop 2 s)
      else if take 1 s = '':'' then (c, ArgRequired) # read_optstring (drop 1 s)
      else (c, ArgNone) # read_optstring s)"

lemma read_optstring_text:
  assumes "s = [] \<or> hd s \<noteq> CHR '':''"
  shows "read_optstring (opt_text opt @ s) = (shortName opt, argType opt) # read_optstring s"
  using assms by (cases "argType opt"; cases s) (simp_all add: opt_text_def numeral_2_eq_2)

lemma read_optstring_concat:
  "\<forall>opt \<in> set opts. shortName opt \<noteq> CHR '':'' \<Longrightarrow>
    read_optstring (concat (map opt_text opts)) = map (\<lambda>opt. (shortName opt, argType opt)) opts"
proof (induction opts)
  case Nil
  then show ?case by simp
next
  case (Cons opt opts)
  have "concat (map opt_text opts) = [] \<or> hd (concat (map opt_text opts)) \<noteq> CHR '':''"
    using Cons.prems by (cases opts) (auto simp: opt_text_def)
  from read_optstring_text [OF this] Cons show ?case by simp
qed

text \<open>The option string tells \<open>getopt\<close> of every option, the predefined first, and whether it
  takes an argument, provided no short name is a colon.\<close>

theorem optstring_roundtrip:
  assumes "GetoptWrapper opts = Inr w" and "\<forall>opt \<in> set opts. shortName opt \<noteq> CHR '':''"
  shows "read_optstring (optString w) =
    map (\<lambda>opt. (shortName opt, argType opt)) (systemOpts @ opts)"
proof -
  have "optString w = concat (map opt_text (systemOpts @ opts))"
    using assms(1) by (auto simp: GetoptWrapper_def setOptions_def split: sum.splits)
  moreover have "\<forall>opt \<in> set (systemOpts @ opts). shortName opt \<noteq> CHR '':''"
    using assms(2) by (auto simp: systemOpts_def)
  ultimately show ?thesis using read_optstring_concat by metis
qed

definition example_opts :: "desc_option list" where
  "example_opts =
     [\<lparr>longName = ''required'', shortName = CHR ''r'', argType = ArgRequired, description = ''Required''\<rparr>,
      \<lparr>longName = ''without'', shortName = CHR ''w'', argType = ArgNone, description = ''None''\<rparr>]"

theorem optstring_roundtrip_witness:
  "\<exists>w. GetoptWrapper example_opts = Inr w \<and> optString w = ''h::r:w'' \<and>
    read_optstring (optString w) = [(CHR ''h'', ArgOptional), (CHR ''r'', ArgRequired), (CHR ''w'', ArgNone)]"
proof -
  have "checkForDuplicates example_opts = Inr ()" by code_simp
  then obtain w where w: "GetoptWrapper example_opts = Inr w" "optString w = ''h::r:w''"
    by (simp add: GetoptWrapper_def setOptions_def opt_text_def systemOpts_def example_opts_def)
  with optstring_roundtrip [OF w(1)] show ?thesis by (simp add: systemOpts_def example_opts_def)
qed

text \<open>All results of \<open>getopt_long\<close> before its end are processed: the options are returned in
  order, and failure is reported exactly when one of them was bad.  An option whose short name
  is a question mark or a colon counts as bad.\<close>

lemma process_run:
  "\<forall>r \<in> set rs. fst r \<noteq> - 1 \<Longrightarrow> process (rs @ (- 1, a) # behind) result failed =
    Some (result @ concat (map (\<lambda>(val, oarg). case process_one val oarg of StatusOk p \<Rightarrow> [p] | _ \<Rightarrow> []) rs),
      failed \<or> (\<exists>r \<in> set rs. fst r = 63 \<or> fst r = 58))"
proof (induction rs arbitrary: result failed)
  case Nil
  show ?case by (simp add: process_one_def)
next
  case (Cons r rs)
  then show ?case by (cases r) (auto simp: process_one_def)
qed

end
