(* ===== verification/SignalManager.thy ===== *)
theory SignalManager
  imports Containers
begin

text \<open>
  \<open>components/system/src/signal_manager.cc\<close>: the handlers by signal number, and the table of
  signal dispositions of the process that \<open>sigaction\<close> keeps.  The mutex makes every operation
  one step.  \<open>sigaction\<close> fails for the signals the system does not let a process change; which
  those are is a parameter.
\<close>

section \<open>State\<close>

text \<open>\<open>sa_handler\<close>: the default, ignoring, the manager's own \<open>GlobalHandler\<close>, or another
  function.\<close>

datatype disposition = SigDefault | SigIgnore | SigGlobal | SigOther nat

record 'h signal_handler =
  oldAction :: disposition
  handler :: 'h

record 'h signal_manager =
  sig_handlers :: "(int, 'h signal_handler) omap"
  dispositions :: "int \<Rightarrow> disposition"

text \<open>\<open>sigaction(signum, &action, nullptr)\<close>: the new table, and whether it returned 0.\<close>

definition sigaction :: "(int \<Rightarrow> bool) \<Rightarrow> int \<Rightarrow> disposition \<Rightarrow> (int \<Rightarrow> disposition) \<Rightarrow> (int \<Rightarrow> disposition) \<times> bool" where
  "sigaction settable signum a d = (if settable signum then (d(signum := a), True) else (d, False))"

section \<open>Operations\<close>

definition registerHandler :: "(int \<Rightarrow> bool) \<Rightarrow> int \<Rightarrow> 'h \<Rightarrow> bool \<Rightarrow> 'h signal_manager \<Rightarrow> 'h signal_manager \<times> bool" where
  "registerHandler settable signum h overwrite m =
     (case map_of (sig_handlers m) signum of
        Some e \<Rightarrow>
          (if overwrite then m\<lparr>sig_handlers := omap_set signum (e\<lparr>handler := h\<rparr>) (sig_handlers m)\<rparr> else m, True)
      | None \<Rightarrow>
          (let old = dispositions m signum
           in if old \<noteq> SigIgnore
              then (let (d, ok) = sigaction settable signum SigGlobal (dispositions m)
                    in if ok
                       then (m\<lparr>dispositions := d,
                               sig_handlers := omap_set signum \<lparr>oldAction = old, handler = h\<rparr> (sig_handlers m)\<rparr>, True)
                       else (m, False))
              else (m, False)))"

definition clearHandler :: "(int \<Rightarrow> bool) \<Rightarrow> int \<Rightarrow> 'h signal_manager \<Rightarrow> 'h signal_manager \<times> bool" where
  "clearHandler settable signum m =
     (case map_of (sig_handlers m) signum of
        Some e \<Rightarrow>
          (m\<lparr>dispositions := fst (sigaction settable signum (oldAction e) (dispositions m)),
             sig_handlers := omap_erase signum (sig_handlers m)\<rparr>, True)
      | None \<Rightarrow> (m, False))"

definition drop_and_set :: "(int \<Rightarrow> bool) \<Rightarrow> disposition \<Rightarrow> int \<Rightarrow> 'h signal_manager \<Rightarrow> 'h signal_manager \<times> bool" where
  "drop_and_set settable a signum m =
     (let isRegistered = (map_of (sig_handlers m) signum \<noteq> None);
          hs = (if isRegistered then omap_erase signum (sig_handlers m) else sig_handlers m)
      in (m\<lparr>sig_handlers := hs, dispositions := fst (sigaction settable signum a (dispositions m))\<rparr>, isRegistered))"

definition maskSignal :: "(int \<Rightarrow> bool) \<Rightarrow> int \<Rightarrow> 'h signal_manager \<Rightarrow> 'h signal_manager \<times> bool" where
  "maskSignal settable signum m = drop_and_set settable SigIgnore signum m"

definition setDefault :: "(int \<Rightarrow> bool) \<Rightarrow> int \<Rightarrow> 'h signal_manager \<Rightarrow> 'h signal_manager \<times> bool" where
  "setDefault settable signum m = drop_and_set settable SigDefault signum m"

text \<open>The handler that a signal with the manager's disposition runs, if there is one.\<close>

definition GlobalHandler :: "int \<Rightarrow> 'h signal_manager \<Rightarrow> 'h option" where
  "GlobalHandler signum m = map_option handler (map_of (sig_handlers m) signum)"

section \<open>Invariant\<close>

text \<open>The manager is the disposition of exactly the signals it has a handler for; what it saved is
  neither itself nor ignoring, and only settable signals are registered.\<close>

definition sig_inv :: "(int \<Rightarrow> bool) \<Rightarrow> 'h signal_manager \<Rightarrow> bool" where
  "sig_inv settable m \<longleftrightarrow> omap_inv (sig_handlers m) \<and>
     (\<forall>s. dispositions m s = SigGlobal \<longleftrightarrow> map_of (sig_handlers m) s \<noteq> None) \<and>
     (\<forall>s e. map_of (sig_handlers m) s = Some e \<longrightarrow>
        settable s \<and> oldAction e \<noteq> SigGlobal \<and> oldAction e \<noteq> SigIgnore)"

datatype 'h sig_op = Register int 'h bool | Clear int | Mask int | Default int

fun run_sig_op :: "(int \<Rightarrow> bool) \<Rightarrow> 'h sig_op \<Rightarrow> 'h signal_manager \<Rightarrow> 'h signal_manager" where
  "run_sig_op st (Register s h ov) m = fst (registerHandler st s h ov m)"
| "run_sig_op st (Clear s) m = fst (clearHandler st s m)"
| "run_sig_op st (Mask s) m = fst (maskSignal st s m)"
| "run_sig_op st (Default s) m = fst (setDefault st s m)"

lemma sig_inv_register: "sig_inv st m \<Longrightarrow> sig_inv st (fst (registerHandler st s h ov m))"
  by (auto simp: sig_inv_def registerHandler_def sigaction_def Let_def map_simps
      split: option.splits if_splits) (metis option.exhaust)+

lemma sig_inv_drop: "sig_inv st m \<Longrightarrow> a \<noteq> SigGlobal \<Longrightarrow> sig_inv st (fst (drop_and_set st a s m))"
  by (auto simp: sig_inv_def drop_and_set_def sigaction_def Let_def map_simps split: if_splits)
    (metis option.exhaust)+

lemma sig_inv_clear: "sig_inv st m \<Longrightarrow> sig_inv st (fst (clearHandler st s m))"
  by (auto simp: sig_inv_def clearHandler_def sigaction_def map_simps split: option.splits if_splits)

lemma sig_inv_op: "sig_inv st m \<Longrightarrow> sig_inv st (run_sig_op st op m)"
  by (cases op) (auto simp: sig_inv_register sig_inv_clear sig_inv_drop maskSignal_def setDefault_def)

section \<open>Properties\<close>

definition sig_new :: "'h signal_manager" where
  "sig_new = \<lparr>sig_handlers = [], dispositions = (\<lambda>_. SigDefault)\<rparr>"

lemma sig_inv_new: "sig_inv st sig_new"
  by (simp add: sig_inv_def sig_new_def)

lemma sig_inv_ops: "sig_inv st m \<Longrightarrow> sig_inv st (fold (run_sig_op st) ops m)"
  by (induction ops arbitrary: m) (auto simp: sig_inv_op)

text \<open>C27: After any history of calls, a signal reaches the manager exactly if a handler is
  registered for it; registering a new one and clearing it gives every disposition back.\<close>

theorem signal_history:
  "let m = fold (run_sig_op st) ops sig_new; r = registerHandler st s h ov m
   in (\<forall>s'. dispositions m s' = SigGlobal \<longleftrightarrow> GlobalHandler s' m \<noteq> None) \<and>
      (snd r \<and> GlobalHandler s m = None \<longrightarrow>
         GlobalHandler s (fst r) = Some h \<and> clearHandler st s (fst r) = (m, True)) \<and>
      (snd r \<and> GlobalHandler s m = Some h0 \<longrightarrow> GlobalHandler s (fst r) = Some (if ov then h else h0))"
proof -
  define m where "m = fold (run_sig_op st) ops (sig_new :: 'a signal_manager)"
  have inv: "sig_inv st m" unfolding m_def by (rule sig_inv_ops [OF sig_inv_new])
  have clear: "clearHandler st s (fst (registerHandler st s h ov m)) = (m, True)"
    if "snd (registerHandler st s h ov m)" and "map_of (sig_handlers m) s = None"
  proof -
    have st: "st s" "fst (registerHandler st s h ov m) = m\<lparr>dispositions := (dispositions m)(s := SigGlobal),
        sig_handlers := omap_set s \<lparr>oldAction = dispositions m s, handler = h\<rparr> (sig_handlers m)\<rparr>"
      using that by (auto simp: registerHandler_def sigaction_def Let_def split: if_splits)
    have o: "omap_inv (sig_handlers m)" using inv by (simp add: sig_inv_def)
    have "omap_erase s (omap_set s e (sig_handlers m)) = sig_handlers m" for e
      using o that(2) by (intro omap_eqI) (auto simp: map_simps)
    then show ?thesis
      using st o by (simp add: clearHandler_def sigaction_def map_simps)
  qed
  have o: "omap_inv (sig_handlers m)" using inv by (simp add: sig_inv_def)
  have new: "GlobalHandler s (fst (registerHandler st s h ov m)) = Some h"
    if "snd (registerHandler st s h ov m)" and "map_of (sig_handlers m) s = None"
    using that o by (auto simp: registerHandler_def sigaction_def GlobalHandler_def Let_def map_simps
        split: if_splits)
  have old: "GlobalHandler s (fst (registerHandler st s h ov m)) = Some (if ov then h else h0)"
    if "GlobalHandler s m = Some h0"
    using that o by (auto simp: registerHandler_def GlobalHandler_def map_simps split: option.splits)
  have "\<forall>s'. dispositions m s' = SigGlobal \<longleftrightarrow> GlobalHandler s' m \<noteq> None"
    using inv by (auto simp: sig_inv_def GlobalHandler_def)
  moreover have "GlobalHandler s m = None \<longleftrightarrow> map_of (sig_handlers m) s = None"
    by (simp add: GlobalHandler_def)
  ultimately show ?thesis
    using clear new old unfolding Let_def m_def [symmetric] by blast
qed

theorem signal_history_witness:
  "GlobalHandler 2 (fst (registerHandler (\<lambda>s. s \<noteq> 9) 2 ''h'' False sig_new)) = Some ''h'' \<and>
   clearHandler (\<lambda>s. s \<noteq> 9) 2 (fst (registerHandler (\<lambda>s. s \<noteq> 9) 2 ''h'' False sig_new)) = (sig_new, True)"
proof -
  have "snd (registerHandler (\<lambda>s. s \<noteq> 9) 2 ''h'' False sig_new)" "GlobalHandler 2 (sig_new :: string signal_manager) = None"
    by (simp_all add: registerHandler_def sig_new_def sigaction_def GlobalHandler_def)
  with signal_history [where ops = "[]" and st = "\<lambda>s. s \<noteq> 9" and s = 2 and h = "''h''" and ov = False] show ?thesis by (simp add: Let_def)
qed

text \<open>A second registration that must not overwrite reports success without being used.\<close>

lemma second_registration_ignored:
  "GlobalHandler s m = Some h0 \<Longrightarrow> registerHandler st s h False m = (m, True)"
  by (auto simp: GlobalHandler_def registerHandler_def)

end
