(* ===== verification/Service.thy ===== *)
theory Service
  imports SignalManager FsPath
begin

text \<open>
  \<open>components/system/src/service.cc\<close>: the life of a service from its start through the
  heartbeats and signals to its stop, the PID file, and the daemon of System V.  What the
  environment does is an argument: the signals delivered while the main thread is in each part of
  \<open>run\<close>, whether the last heartbeat is still running, and the results of the system calls.  The
  methods of the user may return, throw or never return.  A heartbeat takes effect when it is
  started, and a signal of a method at its end.  The mutexes of the service and of the signal
  manager are there as far as a thread can wait for itself: a signal says which of them the thread
  that takes it holds.
\<close>

section \<open>Dispatcher and service\<close>

datatype svc_call = OnStart | Heartbeat | OnConfigure | OnStop

text \<open>How a method ends: an exception derived from \<open>std::exception\<close> is caught by \<open>run\<close>, any other
  ends the program; or it runs for ever.\<close>

datatype method_result = Ret bool | Throws | ThrowsOther | NeverEnds

text \<open>The user's methods on their own state; each may call \<open>setError\<close>, so they also get and give
  the exit code.  \<open>heartbeat\<close> is \<open>noexcept\<close>; \<open>None\<close> if it runs for ever.\<close>

record 'u dispatcher =
  onStart :: "'u \<Rightarrow> int \<Rightarrow> method_result \<times> 'u \<times> int"
  onStop :: "'u \<Rightarrow> int \<Rightarrow> method_result \<times> 'u \<times> int"
  onConfigure :: "'u \<Rightarrow> int \<Rightarrow> method_result \<times> 'u \<times> int"
  heartbeat :: "'u \<Rightarrow> int \<Rightarrow> ('u \<times> int) option"

text \<open>The last field records the calls made, for the theorems.\<close>

record 'u service =
  running :: bool
  active :: bool
  exit_code :: int
  start_time :: int
  impl :: "'u dispatcher option"
  user :: 'u
  calls :: "svc_call list"

text \<open>What comes of a step: it goes on, the program exits, it ends abnormally, or the main thread waits
  for ever.\<close>

datatype 'a svc_outcome = Goes 'a | Exits int | Crashes | Hangs

definition svc_bind :: "'a svc_outcome \<Rightarrow> ('a \<Rightarrow> 'b svc_outcome) \<Rightarrow> 'b svc_outcome" where
  "svc_bind x f = (case x of Goes a \<Rightarrow> f a | Exits c \<Rightarrow> Exits c | Crashes \<Rightarrow> Crashes | Hangs \<Rightarrow> Hangs)"

lemma svc_bind_simps [simp]:
  "svc_bind (Goes a) f = f a" "svc_bind (Exits c) f = Exits c" "svc_bind Crashes f = Crashes" "svc_bind Hangs f = Hangs"
  by (simp_all add: svc_bind_def)

lemma svc_bind_Goes [simp]: "svc_bind x f = Goes y \<longleftrightarrow> (\<exists>a. x = Goes a \<and> f a = Goes y)"
  by (cases x) simp_all

definition SIGHUP :: int where "SIGHUP = 1"
definition SIGINT :: int where "SIGINT = 2"
definition SIGSEGV :: int where "SIGSEGV = 11"
definition SIGTERM :: int where "SIGTERM = 15"

definition EXIT_SUCCESS :: int where "EXIT_SUCCESS = 0"
definition EXIT_FAILURE :: int where "EXIT_FAILURE = 1"

definition MIN_PULSE_TIME :: int where "MIN_PULSE_TIME = 1"
definition DEFAULT_PULSE_TIME :: int where "DEFAULT_PULSE_TIME = 500"

definition setHeartbeatPeriod :: "int \<Rightarrow> int" where
  "setHeartbeatPeriod valueMs = (if valueMs < MIN_PULSE_TIME then MIN_PULSE_TIME else valueMs)"

definition uptime :: "'u service \<Rightarrow> int \<Rightarrow> int" where
  "uptime s now = (if start_time s \<noteq> 0 then now - start_time s else 0)"

definition svc_setError :: "int \<Rightarrow> 'u service \<Rightarrow> 'u service" where
  "svc_setError c s = s\<lparr>exit_code := c\<rparr>"

text \<open>A call in a \<open>try\<close> block, and what the block makes of its end: an exception is the result false.\<close>

definition guarded_call :: "svc_call \<Rightarrow> ('u \<Rightarrow> int \<Rightarrow> method_result \<times> 'u \<times> int) \<Rightarrow> 'u service \<Rightarrow> method_result \<times> 'u service" where
  "guarded_call k f s =
     (let (r, u, c) = f (user s) (exit_code s)
      in (r, s\<lparr>user := u, exit_code := c, calls := calls s @ [k]\<rparr>))"

fun try_result :: "method_result \<Rightarrow> bool svc_outcome" where
  "try_result (Ret b) = Goes b"
| "try_result Throws = Goes False"
| "try_result ThrowsOther = Crashes"
| "try_result NeverEnds = Hangs"

text \<open>The lock: a thread that holds the mutex already, and takes the signal in between, waits for itself.\<close>

definition finalActions :: "bool \<Rightarrow> 'u service \<Rightarrow> 'u service svc_outcome" where
  "finalActions held s = (if held then Hangs else Goes (s\<lparr>active := False\<rparr>))"

text \<open>\<open>_impl->onConfigure()\<close> with no dispatcher is a call through a null pointer.\<close>

definition handleSignal :: "bool \<Rightarrow> int \<Rightarrow> 'u service \<Rightarrow> 'u service svc_outcome" where
  "handleSignal held sg s =
     (if sg = SIGINT \<or> sg = SIGTERM then finalActions held s
      else if sg = SIGHUP
      then (case impl s of
              None \<Rightarrow> Crashes
            | Some d \<Rightarrow>
                (let (r, s1) = guarded_call OnConfigure (onConfigure d) (s\<lparr>running := False\<rparr>)
                 in svc_bind (try_result r) (\<lambda>result. Goes (s1\<lparr>running := True\<rparr>))))
      else if sg = SIGSEGV then svc_bind (finalActions held s) (\<lambda>s1. Exits sg)
      else Goes s)"

text \<open>A signal, whether the thread that takes it is between the lock and the unlock of the mutex of the
  service, and whether it holds that of the signal manager: it is in another handler, or registers one.
  \<open>GlobalHandler\<close> takes the latter first.  Only a turn of the loop that starts a heartbeat locks the
  mutex of the service (\<open>locks\<close>).\<close>

record signal =
  signum :: int
  holds_mutex :: bool
  in_manager :: bool

fun deliver :: "bool \<Rightarrow> signal list \<Rightarrow> 'u service \<Rightarrow> 'u service svc_outcome" where
  "deliver locks [] s = Goes s"
| "deliver locks (g # gs) s =
     svc_bind (if in_manager g then Hangs else handleSignal (locks \<and> holds_mutex g) (signum g) s) (deliver locks gs)"

section \<open>The main loop\<close>

text \<open>One turn of \<open>while (_active)\<close>: whether the last heartbeat is not ready when the pulse has
  passed, and the signals delivered before the turn ends.\<close>

record tick =
  late :: bool
  sigs :: "signal list"

text \<open>\<open>beat\<close>: not valid, a heartbeat that ends, or one that does not.\<close>

datatype beat_state = NoBeat | BeatRuns | BeatStuck

definition start_beat :: "'u dispatcher \<Rightarrow> 'u service \<Rightarrow> beat_state \<times> 'u service" where
  "start_beat d s =
     (case heartbeat d (user s) (exit_code s) of
        None \<Rightarrow> (BeatStuck, s\<lparr>calls := calls s @ [Heartbeat]\<rparr>)
      | Some (u, c) \<Rightarrow> (BeatRuns, s\<lparr>user := u, exit_code := c, calls := calls s @ [Heartbeat]\<rparr>))"

text \<open>\<open>None\<close> is a service still active after all the ticks.\<close>

fun svc_loop :: "'u dispatcher \<Rightarrow> beat_state \<Rightarrow> tick list \<Rightarrow> 'u service \<Rightarrow> (beat_state \<times> 'u service) svc_outcome option" where
  "svc_loop d b [] s = (if \<not> active s then Some (Goes (b, s)) else None)"
| "svc_loop d b (t # ts) s =
     (if \<not> active s then Some (Goes (b, s))
      else
        (let skip = (b = BeatStuck \<or> b = BeatRuns \<and> late t);
             (b1, s1) = (if \<not> skip \<and> running s then start_beat d s else (b, s))
         in case deliver (\<not> skip) (sigs t) s1 of
              Goes s2 \<Rightarrow> svc_loop d b1 ts s2
            | Exits c \<Rightarrow> Some (Exits c)
            | Crashes \<Rightarrow> Some Crashes
            | Hangs \<Rightarrow> Some Hangs))"

text \<open>\<open>if (_exitCode == EXIT_SUCCESS) _exitCode = EXIT_FAILURE;\<close>\<close>

definition fail_code :: "bool \<Rightarrow> 'u service \<Rightarrow> 'u service" where
  "fail_code result s =
     (if \<not> result \<and> exit_code s = EXIT_SUCCESS then s\<lparr>exit_code := EXIT_FAILURE\<rparr> else s)"

text \<open>The signals delivered during \<open>onStart\<close>, during the turns of the loop, while the last heartbeat is
  waited for, and during \<open>onStop\<close>.\<close>

record svc_env =
  start_sigs :: "signal list"
  ticks :: "tick list"
  wait_sigs :: "signal list"
  stop_sigs :: "signal list"

lemma fail_code_simps [simp]:
  "calls (fail_code b s) = calls s" "active (fail_code b s) = active s"
  "\<not> b \<Longrightarrow> exit_code (fail_code b s) \<noteq> EXIT_SUCCESS"
  by (simp_all add: fail_code_def EXIT_SUCCESS_def EXIT_FAILURE_def)

definition stop_service :: "'u dispatcher \<Rightarrow> svc_env \<Rightarrow> 'u service \<Rightarrow> (int \<times> 'u service) svc_outcome" where
  "stop_service d env s =
     (let (r, s1) = guarded_call OnStop (onStop d) s
      in svc_bind (deliver False (stop_sigs env) s1) (\<lambda>s2.
         svc_bind (try_result r) (\<lambda>result.
           (let s3 = (fail_code result s2)\<lparr>impl := None, running := False, start_time := 0\<rparr>
            in Goes (exit_code s3, s3)))))"

text \<open>\<open>beat.wait()\<close> of a heartbeat that does not end does not either.\<close>

definition run_started :: "'u dispatcher \<Rightarrow> svc_env \<Rightarrow> 'u service \<Rightarrow> (int \<times> 'u service) svc_outcome option" where
  "run_started d env s =
     (case svc_loop d NoBeat (ticks env) s of
        None \<Rightarrow> None
      | Some r \<Rightarrow> Some (svc_bind r (\<lambda>(b, s1).
          svc_bind (deliver False (wait_sigs env) s1) (\<lambda>s2.
            if b = BeatStuck then Hangs else stop_service d env s2))))"

definition run :: "int \<Rightarrow> 'u dispatcher \<Rightarrow> svc_env \<Rightarrow> 'u service \<Rightarrow> (int \<times> 'u service) svc_outcome option" where
  "run now d env s =
     (let s0 = s\<lparr>impl := Some d, start_time := now, running := True, active := True\<rparr>;
          (r, s1) = guarded_call OnStart (onStart d) s0
      in case svc_bind (deliver False (start_sigs env) s1) (\<lambda>s2. svc_bind (try_result r) (\<lambda>result. Goes (result, s2))) of
           Exits c \<Rightarrow> Some (Exits c)
         | Crashes \<Rightarrow> Some Crashes
         | Hangs \<Rightarrow> Some Hangs
         | Goes (result, s2) \<Rightarrow>
             if \<not> result
             then (let s3 = fail_code False (s2\<lparr>running := False, active := False\<rparr>)
                   in Some (Goes (exit_code s3, s3)))
             else run_started d env s2)"

section \<open>Signals\<close>

definition registerSignalsHandler :: "(int \<Rightarrow> bool) \<Rightarrow> 'h \<Rightarrow> 'h signal_manager \<Rightarrow> 'h signal_manager" where
  "registerSignalsHandler settable h m =
     foldl (\<lambda>m signum. fst (registerHandler settable signum h False m)) m [SIGINT, SIGTERM, SIGHUP, SIGSEGV]"

text \<open>\<open>terminate\<close> raises SIGINT in the calling thread, which may be in a signal handler; the handler of a
  thread that ends by an exception logs why and ends the program.\<close>

definition svc_terminate :: "bool \<Rightarrow> 'u service \<Rightarrow> 'u service svc_outcome" where
  "svc_terminate in_handler s = deliver False [\<lparr>signum = SIGINT, holds_mutex = False, in_manager = in_handler\<rparr>] s"

datatype current_exception = StdException string | OtherException

definition terminateHandler :: "bool \<Rightarrow> current_exception option \<Rightarrow> string \<times> 'u service svc_outcome" where
  "terminateHandler NDEBUG ex =
     ((case ex of
         Some (StdException what) \<Rightarrow> ''Terminated due to exception: '' @ what
       | Some OtherException \<Rightarrow> ''Terminated due to non std exception''
       | None \<Rightarrow> ''Terminated due to unknown reason''),
      if NDEBUG then Exits EXIT_FAILURE else Crashes)"

section \<open>The service of systemd\<close>

text \<open>\<open>run\<close> of \<open>SystemdService\<close>: the result is the exit code of the service, and systemd is told when
  the service starts, before \<open>onStart\<close>, and when it has ended.\<close>

datatype sd_note = SdReady | SdStopping

definition systemd_run :: "bool \<Rightarrow> int \<Rightarrow> 'u dispatcher \<Rightarrow> svc_env \<Rightarrow> 'u service \<Rightarrow>
    ((int \<times> 'u service) svc_outcome \<times> sd_note list) option" where
  "systemd_run isNotifyType now d env s =
     (case run now d env s of
        None \<Rightarrow> None
      | Some (Goes (_, s1)) \<Rightarrow> Some (Goes (exit_code s1, s1), if isNotifyType then [SdReady, SdStopping] else [])
      | Some (Exits c) \<Rightarrow> Some (Exits c, if isNotifyType then [SdReady] else [])
      | Some Crashes \<Rightarrow> Some (Crashes, if isNotifyType then [SdReady] else [])
      | Some Hangs \<Rightarrow> Some (Hangs, if isNotifyType then [SdReady] else []))"

text \<open>A failed start is reported as ready all the same.\<close>

lemma systemd_failed_start_is_ready:
  assumes "onStart d (user s) (exit_code s) = (Ret False, u, c)" "start_sigs env = []" "run now d env s = Some (Goes (r, s1))"
  shows "systemd_run True now d env s = Some (Goes (r, s1), [SdReady, SdStopping]) \<and> r \<noteq> EXIT_SUCCESS"
  using assms by (auto simp: systemd_run_def run_def guarded_call_def fail_code_def EXIT_SUCCESS_def EXIT_FAILURE_def Let_def split: if_splits)

section \<open>The PID file\<close>

text \<open>The results of the calls: for those that may fail, \<open>None\<close> or the \<open>errno\<close>.\<close>

record pid_env =
  parent_exists :: bool
  parent_made :: bool
  open_fd :: int
  open_errno :: int
  getfd_fails :: "int option"
  setfd_fails :: "int option"
  setlk_fails :: "int option"
  truncate_fails :: "int option"
  written :: bool

datatype pid_call = PidOpen | PidGetFd | PidSetCloexec | PidLock | PidTruncate | PidWrite

definition EPERM :: int where "EPERM = 1"
definition EIO :: int where "EIO = 5"

text \<open>The steps on the open file, in order, each with the value returned when it fails.\<close>

fun pid_steps :: "int \<Rightarrow> (pid_call \<times> int option) list \<Rightarrow> int \<times> pid_call list" where
  "pid_steps fd [] = (fd, [])"
| "pid_steps fd ((k, r) # ks) =
     (case r of
        Some ret \<Rightarrow> (ret, [k])
      | None \<Rightarrow> (let (ret, made) = pid_steps fd ks in (ret, k # made)))"

text \<open>\<open>createPidFile\<close>: its result and the calls made on the file.\<close>

definition createPidFile :: "string \<Rightarrow> pid_env \<Rightarrow> int \<times> pid_call list" where
  "createPidFile pidfile e =
     (if hasParent pidfile \<and> \<not> parent_exists e \<and> \<not> parent_made e then (- EPERM, [])
      else if open_fd e = - 1 then (- open_errno e, [PidOpen])
      else
        (let (ret, made) = pid_steps (open_fd e)
               [(PidGetFd, map_option uminus (getfd_fails e)),
                (PidSetCloexec, map_option uminus (setfd_fails e)),
                (PidLock, map_option uminus (setlk_fails e)),
                (PidTruncate, map_option uminus (truncate_fails e)),
                (PidWrite, if written e then None else Some (- EIO))]
         in (ret, PidOpen # made)))"

section \<open>The daemon\<close>

datatype fork_result = ForkFails | InParent | InChild

datatype daemon_result = DaemonFails | ParentExits | Daemonized

definition forkAndTerminateParent :: "fork_result \<Rightarrow> daemon_result" where
  "forkAndTerminateParent r =
     (case r of ForkFails \<Rightarrow> DaemonFails | InParent \<Rightarrow> ParentExits | InChild \<Rightarrow> Daemonized)"

record daemon_env =
  fork1 :: fork_result
  setsid_fails :: bool
  fork2 :: fork_result
  chdir_fails :: bool

text \<open>\<open>daemonize\<close>: every signal is set to its default, then the process forks twice.\<close>

definition NSIG :: nat where "NSIG = 65"

definition daemonize :: "(int \<Rightarrow> bool) \<Rightarrow> daemon_env \<Rightarrow> 'h signal_manager \<Rightarrow> 'h signal_manager \<times> daemon_result" where
  "daemonize settable e m =
     (foldl (\<lambda>m i. fst (setDefault settable (int i) m)) m [0..<NSIG],
      case forkAndTerminateParent (fork1 e) of
        DaemonFails \<Rightarrow> DaemonFails
      | ParentExits \<Rightarrow> ParentExits
      | Daemonized \<Rightarrow>
          if setsid_fails e then DaemonFails
          else (case forkAndTerminateParent (fork2 e) of
                  DaemonFails \<Rightarrow> DaemonFails
                | ParentExits \<Rightarrow> ParentExits
                | Daemonized \<Rightarrow> if chdir_fails e then DaemonFails else Daemonized))"

datatype cleanup_call = CloseFd int | UnlinkPid

text \<open>\<open>SysVService::run\<close>: the exit code, the signal manager, and what the guard cleaned up;
  \<open>None\<close> while the service runs.\<close>

definition sysv_run :: "(int \<Rightarrow> bool) \<Rightarrow> 'h \<Rightarrow> daemon_env \<Rightarrow> string \<Rightarrow> pid_env \<Rightarrow> int \<Rightarrow> 'u dispatcher \<Rightarrow>
    svc_env \<Rightarrow> 'h signal_manager \<Rightarrow> 'u service \<Rightarrow>
    ((int \<times> 'u service) svc_outcome \<times> 'h signal_manager \<times> cleanup_call list) option" where
  "sysv_run settable h de pidfile pe now d env m s =
     (let (m1, r) = daemonize settable de m
      in case r of
           DaemonFails \<Rightarrow> Some (Goes (EXIT_FAILURE, s), m1, [])
         | ParentExits \<Rightarrow> Some (Exits EXIT_SUCCESS, m1, [])
         | Daemonized \<Rightarrow>
             (let m2 = registerSignalsHandler settable h m1;
                  fd = fst (createPidFile pidfile pe)
              in if fd < 0 then Some (Goes (fd, s), m2, [])
                 else (case run now d env s of
                         None \<Rightarrow> None
                       | Some (Goes r) \<Rightarrow> Some (Goes r, m2, [CloseFd fd, UnlinkPid])
                       | Some (Exits c) \<Rightarrow> Some (Exits c, m2, [])
                       | Some Crashes \<Rightarrow> Some (Crashes, m2, [])
                       | Some Hangs \<Rightarrow> Some (Hangs, m2, []))))"

section \<open>The life of a service\<close>

lemma guarded_call_facts:
  "guarded_call k f s = (r, s') \<Longrightarrow>
     calls s' = calls s @ [k] \<and> active s' = active s \<and> running s' = running s \<and> impl s' = impl s \<and>
     r = fst (f (user s) (exit_code s))"
  by (auto simp: guarded_call_def split: prod.splits)

lemma try_result_True [simp]: "try_result r = Goes True \<longleftrightarrow> r = Ret True"
  by (cases r) simp_all

abbreviation "ending g \<equiv> signum g \<in> {SIGINT, SIGTERM}"

lemma handleSignal_facts:
  assumes "handleSignal held sg s = Goes s'"
  shows "\<exists>mid. calls s' = calls s @ mid \<and> set mid \<subseteq> {OnConfigure} \<and> (sg \<noteq> SIGHUP \<longrightarrow> mid = []) \<and> impl s' = impl s \<and>
    active s' = (active s \<and> sg \<notin> {SIGINT, SIGTERM})"
proof (cases "sg = SIGHUP")
  case True
  then obtain d r s1 where "impl s = Some d" "guarded_call OnConfigure (onConfigure d) (s\<lparr>running := False\<rparr>) = (r, s1)"
    "s' = s1\<lparr>running := True\<rparr>"
    using assms by (auto simp: handleSignal_def SIGHUP_def SIGINT_def SIGTERM_def split: option.splits prod.splits)
  with guarded_call_facts [OF this(2)] True show ?thesis
    by (auto simp: SIGHUP_def SIGINT_def SIGTERM_def)
next
  case False
  with assms show ?thesis
    by (auto simp: handleSignal_def finalActions_def split: if_splits)
qed

lemma deliver_facts:
  "deliver l gs s = Goes s' \<Longrightarrow> \<exists>mid. calls s' = calls s @ mid \<and> set mid \<subseteq> {OnConfigure} \<and>
    ((\<forall>g \<in> set gs. signum g \<noteq> SIGHUP) \<longrightarrow> mid = []) \<and> impl s' = impl s \<and> active s' = (active s \<and> (\<forall>g \<in> set gs. \<not> ending g))"
proof (induction gs arbitrary: s)
  case Nil
  then show ?case by simp
next
  case (Cons g gs)
  then obtain s1 where s1: "handleSignal (l \<and> holds_mutex g) (signum g) s = Goes s1" "deliver l gs s1 = Goes s'"
    by (auto split: if_splits)
  from handleSignal_facts [OF s1(1)] Cons.IH [OF s1(2)] show ?case by auto
qed

lemma start_beat_facts:
  "start_beat d s = (b, s') \<Longrightarrow> calls s' = calls s @ [Heartbeat] \<and> active s' = active s \<and> impl s' = impl s \<and>
    (b = BeatStuck \<longleftrightarrow> heartbeat d (user s) (exit_code s) = None)"
  by (auto simp: start_beat_def split: option.splits)

text \<open>A turn of the loop: perhaps a heartbeat, then the signals.\<close>

lemma svc_loop_turn:
  assumes "active s"
  obtains b1 s1 l where "svc_loop d b (t # ts) s = (case deliver l (sigs t) s1 of Goes s2 \<Rightarrow> svc_loop d b1 ts s2
      | Exits c \<Rightarrow> Some (Exits c) | Crashes \<Rightarrow> Some Crashes | Hangs \<Rightarrow> Some Hangs)"
    "start_beat d s = (b1, s1) \<or> b1 = b \<and> s1 = s"
    "\<exists>mid. calls s1 = calls s @ mid \<and> set mid \<subseteq> {Heartbeat}" "active s1 = active s" "impl s1 = impl s"
proof -
  let ?skip = "b = BeatStuck \<or> b = BeatRuns \<and> late t"
  obtain b1 s1 where b1: "(if \<not> ?skip \<and> running s then start_beat d s else (b, s)) = (b1, s1)" by fastforce
  show ?thesis
  proof (rule that [of b1 "\<not> ?skip" s1])
    show "svc_loop d b (t # ts) s = (case deliver (\<not> ?skip) (sigs t) s1 of Goes s2 \<Rightarrow> svc_loop d b1 ts s2
      | Exits c \<Rightarrow> Some (Exits c) | Crashes \<Rightarrow> Some Crashes | Hangs \<Rightarrow> Some Hangs)"
      using assms b1 by (simp only: svc_loop.simps Let_def prod.case simp_thms if_False)
    show "start_beat d s = (b1, s1) \<or> b1 = b \<and> s1 = s" using b1 by (auto split: if_splits)
    then show "\<exists>mid. calls s1 = calls s @ mid \<and> set mid \<subseteq> {Heartbeat}" "active s1 = active s" "impl s1 = impl s"
      using start_beat_facts [of d s b1 s1] by auto
  qed
qed

lemma svc_loop_facts:
  "svc_loop d b ts s = Some (Goes (b', s')) \<Longrightarrow>
    \<exists>mid. calls s' = calls s @ mid \<and> set mid \<subseteq> {OnConfigure, Heartbeat} \<and> \<not> active s' \<and> impl s' = impl s"
proof (induction ts arbitrary: b s)
  case Nil
  then show ?case by (auto split: if_splits)
next
  case (Cons t ts)
  show ?case
  proof (cases "active s")
    case False
    with Cons.prems show ?thesis by auto
  next
    case True
    from svc_loop_turn [OF True, of d b t ts] obtain b1 s1 l where turn:
      "svc_loop d b (t # ts) s = (case deliver l (sigs t) s1 of Goes s2 \<Rightarrow> svc_loop d b1 ts s2
        | Exits c \<Rightarrow> Some (Exits c) | Crashes \<Rightarrow> Some Crashes | Hangs \<Rightarrow> Some Hangs)"
      "\<exists>mid. calls s1 = calls s @ mid \<and> set mid \<subseteq> {Heartbeat}" "impl s1 = impl s" by metis
    with Cons.prems obtain s2 where s2: "deliver l (sigs t) s1 = Goes s2" "svc_loop d b1 ts s2 = Some (Goes (b', s'))"
      by (auto split: svc_outcome.splits)
    from turn(2,3) deliver_facts [OF s2(1)] Cons.IH [OF s2(2)] show ?thesis by auto
  qed
qed

text \<open>C20: A run that returns has called \<open>onStart\<close> first and \<open>onStop\<close> once exactly if the start
  succeeded, only heartbeats and reconfigurations between, and nothing after it but the
  reconfigurations of a SIGHUP that came during \<open>onStop\<close>; the service is then neither running nor
  active, and the exit code tells a failed start or stop.\<close>

theorem service_lifecycle:
  assumes "run now d env s = Some (Goes (code, s'))"
  shows "\<exists>mid conf started. started = (fst (onStart d (user s) (exit_code s)) = Ret True) \<and>
    calls s' = calls s @ [OnStart] @ mid @ (if started then OnStop # conf else []) \<and>
    set mid \<subseteq> (if started then {OnConfigure, Heartbeat} else {OnConfigure}) \<and>
    set conf \<subseteq> {OnConfigure} \<and> ((\<forall>g \<in> set (stop_sigs env). signum g \<noteq> SIGHUP) \<longrightarrow> conf = []) \<and>
    \<not> running s' \<and> \<not> active s' \<and> code = exit_code s' \<and>
    (\<not> started \<or> (\<forall>u c. fst (onStop d u c) \<noteq> Ret True) \<longrightarrow> code \<noteq> EXIT_SUCCESS)"
proof -
  obtain r s1 where 1: "guarded_call OnStart (onStart d)
      (s\<lparr>impl := Some d, start_time := now, running := True, active := True\<rparr>) = (r, s1)"
    by fastforce
  note f1 = guarded_call_facts [OF 1]
  obtain s2 result where 2: "deliver False (start_sigs env) s1 = Goes s2" "try_result r = Goes result"
    and rest: "if \<not> result then s' = fail_code False (s2\<lparr>running := False, active := False\<rparr>) \<and> code = exit_code s'
      else run_started d env s2 = Some (Goes (code, s'))"
    using assms 1 by (auto simp: run_def Let_def split: svc_outcome.splits if_splits)
  obtain mid where mid: "calls s2 = calls s1 @ mid" "set mid \<subseteq> {OnConfigure}" using deliver_facts [OF 2(1)] by blast
  show ?thesis
  proof (cases result)
    case False
    with 2(2) have "r \<noteq> Ret True" by auto
    have "calls s' = calls s @ [OnStart] @ mid" "\<not> active s'" "\<not> running s'" "code \<noteq> EXIT_SUCCESS" "code = exit_code s'"
      using False rest mid(1) f1 by (auto simp: fail_code_def EXIT_SUCCESS_def EXIT_FAILURE_def)
    with mid(2) f1 \<open>r \<noteq> Ret True\<close> show ?thesis
      by (intro exI [of _ mid] exI [of _ "[]"] exI [of _ False]) simp
  next
    case True
    with 2(2) have r: "r = Ret True" by simp
    from True rest obtain b s3 s4 where 3: "svc_loop d NoBeat (ticks env) s2 = Some (Goes (b, s3))"
      "deliver False (wait_sigs env) s3 = Goes s4" "stop_service d env s4 = Goes (code, s')"
      by (auto simp: run_started_def split: option.splits if_splits)
    obtain q s5 s6 res where 4: "guarded_call OnStop (onStop d) s4 = (q, s5)" "deliver False (stop_sigs env) s5 = Goes s6"
      "try_result q = Goes res" "s' = (fail_code res s6)\<lparr>impl := None, running := False, start_time := 0\<rparr>" "code = exit_code s'"
      using 3(3) by (auto simp: stop_service_def Let_def split: prod.splits)
    obtain mid' where mid': "calls s3 = calls s2 @ mid'" "set mid' \<subseteq> {OnConfigure, Heartbeat}" "\<not> active s3"
      using svc_loop_facts [OF 3(1)] by blast
    obtain wait where wait: "calls s4 = calls s3 @ wait" "set wait \<subseteq> {OnConfigure}" "\<not> active s4"
      using deliver_facts [OF 3(2)] mid'(3) by blast
    obtain conf where conf: "calls s6 = calls s5 @ conf" "set conf \<subseteq> {OnConfigure}"
      "(\<forall>g \<in> set (stop_sigs env). signum g \<noteq> SIGHUP) \<longrightarrow> conf = []" "active s6 = (active s5 \<and> (\<forall>g \<in> set (stop_sigs env). \<not> ending g))"
      using deliver_facts [OF 4(2)] by blast
    have stop: "(\<forall>u c. fst (onStop d u c) \<noteq> Ret True) \<longrightarrow> \<not> res"
      using guarded_call_facts [OF 4(1)] 4(3) by (cases res) auto
    have "calls s' = calls s @ [OnStart] @ (mid @ mid' @ wait) @ OnStop # conf" "\<not> active s'" "\<not> running s'"
      using 4(4) mid(1) mid'(1) wait(1,3) conf(1,4) f1 guarded_call_facts [OF 4(1)] by simp_all
    moreover have "set (mid @ mid' @ wait) \<subseteq> {OnConfigure, Heartbeat}" using mid(2) mid'(2) wait(2) by auto
    moreover have "(\<forall>u c. fst (onStop d u c) \<noteq> Ret True) \<longrightarrow> code \<noteq> EXIT_SUCCESS" using stop 4(4,5) by simp
    moreover have "True = (fst (onStart d (user s) (exit_code s)) = Ret True)" using f1 r by simp
    ultimately show ?thesis using conf(2,3) 4(5)
      by (intro exI [of _ "mid @ mid' @ wait"] exI [of _ conf] exI [of _ True]) (simp only: if_True simp_thms)
  qed
qed

text \<open>A method that ends.\<close>

definition ends :: "('u \<Rightarrow> int \<Rightarrow> method_result \<times> 'u \<times> int) \<Rightarrow> bool" where
  "ends f \<longleftrightarrow> (\<forall>u c. fst (f u c) \<notin> {ThrowsOther, NeverEnds})"

lemma ends_call:
  assumes "ends f" "guarded_call k f s = (r, s1)"
  shows "\<exists>b. try_result r = Goes b"
proof -
  have "r \<notin> {ThrowsOther, NeverEnds}" using assms guarded_call_facts [OF assms(2)] by (auto simp: ends_def)
  then show ?thesis by (cases r) auto
qed

text \<open>A signal that no thread takes while it holds a mutex the handlers take: nobody who waits for one
  then keeps the other from being released.\<close>

definition harmless_signal :: "signal \<Rightarrow> bool" where
  "harmless_signal g \<longleftrightarrow> signum g \<noteq> SIGSEGV \<and> \<not> in_manager g \<and> \<not> holds_mutex g"

lemma handleSignal_goes:
  assumes "impl s = Some d" "ends (onConfigure d)" "harmless_signal g"
  shows "\<exists>s'. handleSignal (l \<and> holds_mutex g) (signum g) s = Goes s'"
proof -
  obtain r s1 where c: "guarded_call OnConfigure (onConfigure d) (s\<lparr>running := False\<rparr>) = (r, s1)" by fastforce
  from ends_call [OF assms(2) c] c assms(1,3) show ?thesis
    by (auto simp: handleSignal_def harmless_signal_def finalActions_def)
qed

lemma deliver_goes:
  "impl s = Some d \<Longrightarrow> ends (onConfigure d) \<Longrightarrow> \<forall>g \<in> set gs. harmless_signal g \<Longrightarrow> \<exists>s'. deliver l gs s = Goes s'"
proof (induction gs arbitrary: s)
  case Nil
  then show ?case by simp
next
  case (Cons g gs)
  obtain s1 where s1: "handleSignal (l \<and> holds_mutex g) (signum g) s = Goes s1"
    using handleSignal_goes [OF Cons.prems(1,2)] Cons.prems(3) by fastforce
  have "impl s1 = Some d" using handleSignal_facts [OF s1] Cons.prems by auto
  with Cons s1 show ?case by (auto simp: harmless_signal_def)
qed

lemma svc_loop_ends:
  assumes d: "ends (onConfigure d)" "\<forall>u c. heartbeat d u c \<noteq> None"
  shows "impl s = Some d \<Longrightarrow> b \<noteq> BeatStuck \<Longrightarrow> \<forall>t \<in> set ts. \<forall>g \<in> set (sigs t). harmless_signal g \<Longrightarrow>
    \<not> active s \<or> (\<exists>t \<in> set ts. \<exists>g \<in> set (sigs t). ending g) \<Longrightarrow>
    \<exists>b' s'. svc_loop d b ts s = Some (Goes (b', s')) \<and> b' \<noteq> BeatStuck"
proof (induction ts arbitrary: b s)
  case Nil
  then show ?case by simp
next
  case (Cons t ts)
  show ?case
  proof (cases "active s")
    case False
    with Cons.prems show ?thesis by simp
  next
    case True
    from svc_loop_turn [OF True, of d b t ts] obtain b1 s1 l where turn:
      "svc_loop d b (t # ts) s = (case deliver l (sigs t) s1 of Goes s2 \<Rightarrow> svc_loop d b1 ts s2
        | Exits c \<Rightarrow> Some (Exits c) | Crashes \<Rightarrow> Some Crashes | Hangs \<Rightarrow> Some Hangs)"
      "start_beat d s = (b1, s1) \<or> b1 = b \<and> s1 = s" "impl s1 = impl s" by metis
    have b1: "b1 \<noteq> BeatStuck" using turn(2) start_beat_facts [of d s b1 s1] d(2) Cons.prems(2) by auto
    obtain s2 where s2: "deliver l (sigs t) s1 = Goes s2"
      using deliver_goes [of s1 d] turn(3) d(1) Cons.prems(1,3) by fastforce
    then have "impl s2 = Some d" using deliver_facts [OF s2] turn(3) Cons.prems(1) by auto
    moreover have "\<not> active s2 \<or> (\<exists>t \<in> set ts. \<exists>g \<in> set (sigs t). ending g)"
      using deliver_facts [OF s2] True Cons.prems(4) by auto
    ultimately show ?thesis using Cons.IH [OF _ b1, of s2] Cons.prems(3) turn(1) s2 by simp
  qed
qed

definition all_signals :: "svc_env \<Rightarrow> signal list" where
  "all_signals env = start_sigs env @ concat (map sigs (ticks env)) @ wait_sigs env @ stop_sigs env"

text \<open>C37: A service that is sent SIGINT or SIGTERM, during the start or in any turn of the main loop,
  returns, whatever else it is sent and whatever its methods compute.  Needed are that the methods
  return or throw a \<open>std::exception\<close>, that every heartbeat returns, that there is no SIGSEGV, and
  that no thread takes a signal while it holds the mutex of the signal manager, as in another
  handler, or the one of the service.\<close>

theorem service_terminates:
  assumes "(\<exists>g \<in> set (start_sigs env). ending g) \<or> (\<exists>t \<in> set (ticks env). \<exists>g \<in> set (sigs t). ending g)"
    and "\<forall>g \<in> set (all_signals env). harmless_signal g"
    and d: "ends (onStart d)" "ends (onStop d)" "ends (onConfigure d)" "\<forall>u c. heartbeat d u c \<noteq> None"
  shows "\<exists>code s'. run now d env s = Some (Goes (code, s'))"
proof -
  have h: "\<forall>g \<in> set (start_sigs env). harmless_signal g" "\<forall>t \<in> set (ticks env). \<forall>g \<in> set (sigs t). harmless_signal g"
    "\<forall>g \<in> set (wait_sigs env). harmless_signal g" "\<forall>g \<in> set (stop_sigs env). harmless_signal g"
    using assms(2) by (auto simp: all_signals_def)
  obtain r s1 where 1: "guarded_call OnStart (onStart d)
      (s\<lparr>impl := Some d, start_time := now, running := True, active := True\<rparr>) = (r, s1)"
    by fastforce
  note f1 = guarded_call_facts [OF 1]
  obtain result where res: "try_result r = Goes result" using ends_call [OF d(1) 1] by blast
  obtain s2 where 2: "deliver False (start_sigs env) s1 = Goes s2" using deliver_goes [OF _ d(3) h(1), of s1] f1 by auto
  have s2: "impl s2 = Some d" "\<not> active s2 \<or> (\<exists>t \<in> set (ticks env). \<exists>g \<in> set (sigs t). ending g)"
    using deliver_facts [OF 2] f1 assms(1) by auto
  from svc_loop_ends [OF d(3,4) s2(1) _ h(2) s2(2), of NoBeat] obtain b s3 where
    3: "svc_loop d NoBeat (ticks env) s2 = Some (Goes (b, s3))" "b \<noteq> BeatStuck" by auto
  have "impl s3 = Some d" using svc_loop_facts [OF 3(1)] s2(1) by auto
  then obtain s4 where 4: "deliver False (wait_sigs env) s3 = Goes s4" using deliver_goes [OF _ d(3) h(3), of s3] by auto
  then have s4: "impl s4 = Some d" using deliver_facts [OF 4] \<open>impl s3 = Some d\<close> by auto
  obtain q s5 where 5: "guarded_call OnStop (onStop d) s4 = (q, s5)" by fastforce
  obtain res2 where "try_result q = Goes res2" using ends_call [OF d(2) 5] by blast
  moreover obtain s6 where "deliver False (stop_sigs env) s5 = Goes s6"
    using deliver_goes [OF _ d(3) h(4), of s5] guarded_call_facts [OF 5] s4 by auto
  ultimately have "\<exists>code s'. stop_service d env s4 = Goes (code, s')" using 5 by (simp add: stop_service_def Let_def)
  with 1 2 3 4 res show ?thesis by (auto simp: run_def run_started_def Let_def)
qed

text \<open>Where these conditions fail the main thread waits for ever: for its own mutex, for that of the
  signal manager, which any handler holds, or for the last heartbeat.\<close>

lemma signal_while_locked_hangs:
  "signum g \<in> {SIGINT, SIGTERM, SIGSEGV} \<Longrightarrow> holds_mutex g \<Longrightarrow> deliver True (g # gs) s = Hangs"
  by (auto simp: handleSignal_def finalActions_def SIGINT_def SIGTERM_def SIGSEGV_def SIGHUP_def)

lemma signal_in_handler_hangs: "in_manager g \<Longrightarrow> deliver l (g # gs) s = Hangs"
  by simp

lemma terminate_in_handler_hangs: "svc_terminate True s = Hangs"
  by (simp add: svc_terminate_def)

lemma endless_heartbeat_hangs:
  assumes "onStart d (user s) (exit_code s) = (Ret True, u, c)" "heartbeat d u c = None" "start_sigs env = []" "wait_sigs env = []"
    and "ticks env = [t]" "sigs t = [g]" "ending g" "\<not> in_manager g" "\<not> holds_mutex g"
  shows "run now d env s = Some Hangs"
  using assms by (auto simp: run_def run_started_def guarded_call_def start_beat_def handleSignal_def finalActions_def Let_def)

definition quiet_dispatcher :: "nat dispatcher" where
  "quiet_dispatcher = \<lparr>onStart = (\<lambda>u c. (Ret True, u, c)), onStop = (\<lambda>u c. (Throws, u, c)),
     onConfigure = (\<lambda>u c. (Ret True, u, c)), heartbeat = (\<lambda>u c. Some (u + 1, c))\<rparr>"

definition new_service :: "nat service" where
  "new_service = \<lparr>running = False, active = False, exit_code = EXIT_SUCCESS, start_time = 0,
     impl = None, user = 0, calls = []\<rparr>"

abbreviation "plain sg \<equiv> \<lparr>signum = sg, holds_mutex = False, in_manager = False\<rparr>"

definition quiet_env :: "int list \<Rightarrow> svc_env" where
  "quiet_env start = \<lparr>start_sigs = map (\<lambda>sg. plain sg) start,
     ticks = [\<lparr>late = False, sigs = []\<rparr>, \<lparr>late = True, sigs = [plain SIGHUP]\<rparr>, \<lparr>late = False, sigs = [plain SIGTERM]\<rparr>],
     wait_sigs = [], stop_sigs = [plain SIGHUP]\<rparr>"

theorem service_lifecycle_witness:
  "\<exists>code s'. run 7 quiet_dispatcher (quiet_env []) new_service = Some (Goes (code, s')) \<and>
    code \<noteq> EXIT_SUCCESS \<and> calls s' = [OnStart, Heartbeat, OnConfigure, Heartbeat, OnStop, OnConfigure] \<and>
    \<not> running s' \<and> \<not> active s'"
proof -
  obtain code s' where r: "run 7 quiet_dispatcher (quiet_env []) new_service = Some (Goes (code, s'))"
    and c: "calls s' = [OnStart, Heartbeat, OnConfigure, Heartbeat, OnStop, OnConfigure]"
    by (simp add: run_def run_started_def stop_service_def start_beat_def quiet_dispatcher_def quiet_env_def new_service_def
        guarded_call_def handleSignal_def finalActions_def fail_code_def
        SIGINT_def SIGHUP_def SIGTERM_def SIGSEGV_def)
  have "\<forall>u c. fst (onStop quiet_dispatcher u c) \<noteq> Ret True" by (simp add: quiet_dispatcher_def)
  with service_lifecycle [OF r] r c show ?thesis by blast
qed

theorem service_terminates_witness:
  "\<exists>code s'. run 7 quiet_dispatcher (quiet_env [SIGHUP]) new_service = Some (Goes (code, s'))"
  by (rule service_terminates) (simp_all add: quiet_env_def quiet_dispatcher_def ends_def all_signals_def harmless_signal_def
    SIGINT_def SIGHUP_def SIGTERM_def SIGSEGV_def)

text \<open>A SIGHUP before the first run or after the last one calls through a null pointer.\<close>

lemma hangup_without_dispatcher: "impl s = None \<Longrightarrow> handleSignal held SIGHUP s = Crashes"
  by (simp add: handleSignal_def SIGHUP_def SIGINT_def SIGTERM_def)

text \<open>A start that fails leaves the dispatcher and the start time behind: the uptime goes on.\<close>

lemma failed_start_uptime:
  assumes "fst (onStart d (user s) (exit_code s)) \<noteq> Ret True" "now \<noteq> 0" "start_sigs env = []"
    "run now d env s = Some (Goes (code, s'))"
  shows "uptime s' later = later - now"
proof -
  obtain r u c where o: "onStart d (user s) (exit_code s) = (r, u, c)" by (cases "onStart d (user s) (exit_code s)")
  with assms show ?thesis
    by (cases r) (auto simp: run_def guarded_call_def fail_code_def uptime_def Let_def split: if_splits)
qed

section \<open>The PID file: what it guarantees\<close>

text \<open>A PID file is returned as a descriptor only when it has been opened, made to close on
  exec, locked, truncated and written, in this order; every other result is negative, and unless
  the open itself failed the descriptor is then left open.\<close>

theorem createPidFile_correct:
  assumes "open_fd e = - 1 \<or> 0 \<le> open_fd e" and "open_fd e = - 1 \<longrightarrow> 0 < open_errno e"
    and "\<forall>r \<in> {getfd_fails e, setfd_fails e, setlk_fails e, truncate_fails e}. \<forall>n. r = Some n \<longrightarrow> 0 < n"
  shows "case createPidFile pidfile e of (ret, made) \<Rightarrow>
    (0 \<le> ret \<longleftrightarrow> made = [PidOpen, PidGetFd, PidSetCloexec, PidLock, PidTruncate, PidWrite] \<and> written e) \<and>
    (0 \<le> ret \<longrightarrow> ret = open_fd e \<and> setlk_fails e = None \<and> truncate_fails e = None) \<and>
    (ret < 0 \<longrightarrow> made = [] \<or> made = [PidOpen] \<and> open_fd e = - 1 \<or>
       0 \<le> open_fd e \<and> length made > 1)"
proof -
  consider "hasParent pidfile \<and> \<not> parent_exists e \<and> \<not> parent_made e" | "open_fd e = - 1"
    | "0 \<le> open_fd e" using assms(1) by blast
  then show ?thesis
  proof cases
    case 3
    then show ?thesis using assms(3)
      by (cases "getfd_fails e"; cases "setfd_fails e"; cases "setlk_fails e"; cases "truncate_fails e"; cases "written e")
        (auto simp: createPidFile_def Let_def EPERM_def EIO_def)
  qed (use assms(2) in \<open>auto simp: createPidFile_def EPERM_def\<close>)
qed

theorem createPidFile_correct_witness:
  "fst (createPidFile ''app.pid'' \<lparr>parent_exists = False, parent_made = False, open_fd = 4, open_errno = 0,
     getfd_fails = None, setfd_fails = None, setlk_fails = Some 11, truncate_fails = None, written = True\<rparr>) < 0"
  using createPidFile_correct [of "\<lparr>parent_exists = False, parent_made = False, open_fd = 4, open_errno = 0,
     getfd_fails = None, setfd_fails = None, setlk_fails = Some 11, truncate_fails = None, written = True\<rparr>" "''app.pid''"]
  by (auto split: prod.splits)

end
