(* ===== verification/HttpConnection.thy ===== *)
theory HttpConnection
  imports Containers
begin

text \<open>
  The state of one HTTP request: \<open>components/net/http/src/utils.cc\<close> and \<open>utils.hh\<close> (byte
  ranges), \<open>http_session.cc\<close> (sessions), and \<open>http_connection_impl.cc\<close> and \<open>.hh\<close> (the
  connection the dispatcher works on).  The values MHD has parsed from the request are part of
  the connection; sessions are shared, so a connection holds the number of one in a heap.  The
  locale \<open>http_connection\<close> is what a dispatcher may rely on.
\<close>

section \<open>Ranges\<close>

text \<open>A \<open>long\<close> stored into an \<open>int\<close> keeps its low 32 bits.\<close>

definition to_int :: "int \<Rightarrow> int" where
  "to_int v = signed_take_bit 31 v"

record range =
  pos_begin :: int
  pos_end :: int

definition range_new :: range where
  "range_new = \<lparr>pos_begin = 0, pos_end = 0\<rparr>"

definition range_length :: "range \<Rightarrow> int" where
  "range_length r = (if pos_end r \<ge> pos_begin r then pos_end r - pos_begin r + 1 else 0)"

text \<open>The assignments inside the \<open>try\<close> block, and the exceptions of \<open>std::stol\<close>.\<close>

definition parse_bounds :: "string \<Rightarrow> nat \<Rightarrow> cpp_error + range" where
  "parse_bounds s p =
     (case std_stol (take p s) of
        Inl e \<Rightarrow> Inl e
      | Inr b \<Rightarrow>
          (if p + 1 < length s
           then (case std_stol (drop (p + 1) s) of
                   Inl e \<Rightarrow> Inl e
                 | Inr e \<Rightarrow> Inr \<lparr>pos_begin = to_int b, pos_end = to_int e\<rparr>)
           else Inr \<lparr>pos_begin = to_int b, pos_end = 0\<rparr>))"

text \<open>\<open>ParseRange\<close>: \<open>None\<close> is the result false.\<close>

definition ParseRange :: "string \<Rightarrow> range option" where
  "ParseRange str =
     (case find_first (\<lambda>c. c = CHR ''='') str of
        None \<Rightarrow> None
      | Some q \<Rightarrow>
          (let s = drop (q + 1) str
           in case find_first (\<lambda>c. c = CHR ''-'') s of
                None \<Rightarrow> Some range_new
              | Some p \<Rightarrow> (case parse_bounds s p of Inl e \<Rightarrow> None | Inr r \<Rightarrow> Some r)))"

section \<open>Sessions\<close>

record session =
  session_id :: string
  lastActivity :: int
  expiration :: int

definition touch :: "int \<Rightarrow> session \<Rightarrow> session" where
  "touch now s = s\<lparr>lastActivity := now\<rparr>"

definition extendExpiration :: "int \<Rightarrow> session \<Rightarrow> session" where
  "extendExpiration time s = s\<lparr>expiration := time\<rparr>"

section \<open>The connection\<close>

datatype http_method = GET | POST | PUT | OPTIONS | DELETE

type_synonym params = "(string \<times> string option) list"

text \<open>What MHD answers about the request: \<open>MHD_lookup_connection_value\<close>, null for none, and the
  values \<open>MHD_get_connection_values\<close> gives to its iterator.\<close>

datatype value_kind = HeaderKind | CookieKind | ArgumentKind

record mhd_connection =
  mhd_lookup :: "value_kind \<Rightarrow> string \<Rightarrow> string option"
  mhd_values :: "value_kind \<Rightarrow> params"

record http_conn =
  url :: string
  body :: string
  conn_method :: http_method
  mhd :: mhd_connection
  conn_error :: int
  streamName :: string
  strResponse :: string
  responseHeaders :: "(string, string) omap"
  conn_session :: "nat option"

definition new_connection :: "string \<Rightarrow> http_method \<Rightarrow> string \<Rightarrow> mhd_connection \<Rightarrow> http_conn" where
  "new_connection u m b mc =
     \<lparr>url = u, body = b, conn_method = m, mhd = mc,
      conn_error = 0, streamName = [], strResponse = [], responseHeaders = [], conn_session = None\<rparr>"

definition header :: "string \<Rightarrow> http_conn \<Rightarrow> string" where
  "header name c = (case mhd_lookup (mhd c) HeaderKind name of Some v \<Rightarrow> v | None \<Rightarrow> [])"

text \<open>The address of the peer, as \<open>inet_ntop\<close> writes it.\<close>

datatype 'addr sock_address = AF_INET 'addr | AF_INET6 'addr | AF_OTHER

definition clientDescription :: "('addr \<Rightarrow> string) \<Rightarrow> 'addr sock_address \<Rightarrow> string" where
  "clientDescription inet_ntop res = (case res of AF_INET a \<Rightarrow> inet_ntop a | AF_INET6 a \<Rightarrow> inet_ntop a | AF_OTHER \<Rightarrow> [])"

definition requestHasHeader :: "string \<Rightarrow> http_conn \<Rightarrow> bool" where
  "requestHasHeader name c = (mhd_lookup (mhd c) HeaderKind name \<noteq> None)"

definition responseHasHeader :: "string \<Rightarrow> http_conn \<Rightarrow> bool" where
  "responseHasHeader name c = (map_of (responseHeaders c) name \<noteq> None)"

definition setResponseHeader :: "string \<Rightarrow> string \<Rightarrow> http_conn \<Rightarrow> http_conn" where
  "setResponseHeader name content c = c\<lparr>responseHeaders := omap_set name content (responseHeaders c)\<rparr>"

definition removeResponseHeader :: "string \<Rightarrow> http_conn \<Rightarrow> http_conn" where
  "removeResponseHeader name c = c\<lparr>responseHeaders := omap_erase name (responseHeaders c)\<rparr>"

definition cookie :: "string \<Rightarrow> http_conn \<Rightarrow> string" where
  "cookie key c = (case mhd_lookup (mhd c) CookieKind key of Some v \<Rightarrow> v | None \<Rightarrow> [])"

text \<open>\<open>MHD_get_connection_values\<close> gives the number of values, and each to the iterator, which
  also keeps the names without a value.\<close>

definition getParamsIter :: "params \<Rightarrow> (string, string option) omap" where
  "getParamsIter ps = foldl (\<lambda>m (k, v). omap_set k v m) [] ps"

definition hasCookie :: "string \<Rightarrow> http_conn \<Rightarrow> bool" where
  "hasCookie key c = (length (mhd_values (mhd c) CookieKind) \<noteq> 0 \<and> map_of (getParamsIter (mhd_values (mhd c) CookieKind)) key \<noteq> None)"

text \<open>The argument is \<open>MHD_set_connection_value\<close>.\<close>

definition setCookie :: "(mhd_connection \<Rightarrow> value_kind \<Rightarrow> string \<Rightarrow> string \<Rightarrow> mhd_connection \<times> bool) \<Rightarrow>
    string \<Rightarrow> string \<Rightarrow> http_conn \<Rightarrow> http_conn \<times> bool" where
  "setCookie set_value key v c = (let (m, res) = set_value (mhd c) CookieKind key v in (c\<lparr>mhd := m\<rparr>, res))"

definition setError :: "int \<Rightarrow> http_conn \<Rightarrow> http_conn" where
  "setError e c = c\<lparr>conn_error := e\<rparr>"

text \<open>\<open>operator<<\<close> takes back a file that was to be sent.\<close>

definition write_out :: "string \<Rightarrow> http_conn \<Rightarrow> http_conn" where
  "write_out s c = c\<lparr>streamName := [], strResponse := strResponse c @ s\<rparr>"

definition setError_msg :: "int \<Rightarrow> string \<Rightarrow> http_conn \<Rightarrow> http_conn" where
  "setError_msg e msg c = (let c1 = setError e c in if msg \<noteq> [] then write_out msg c1 else c1)"

definition path :: "http_conn \<Rightarrow> string" where
  "path c = (case find_first (\<lambda>x. x = CHR ''?'') (url c) of Some pos \<Rightarrow> take pos (url c) | None \<Rightarrow> url c)"

definition field :: "string \<Rightarrow> http_conn \<Rightarrow> string" where
  "field name c = (case mhd_lookup (mhd c) ArgumentKind name of Some v \<Rightarrow> v | None \<Rightarrow> [])"

definition hasField :: "string \<Rightarrow> http_conn \<Rightarrow> bool" where
  "hasField name c = (length (mhd_values (mhd c) ArgumentKind) \<noteq> 0 \<and> map_of (getParamsIter (mhd_values (mhd c) ArgumentKind)) name \<noteq> None)"

text \<open>\<open>_strResponse.clear()\<close> clears the state flags of the stream, not its text.\<close>

definition sendFile :: "string \<Rightarrow> http_conn \<Rightarrow> http_conn" where
  "sendFile filepath c = c\<lparr>streamName := filepath\<rparr>"

definition appendBodyData :: "string \<Rightarrow> http_conn \<Rightarrow> http_conn" where
  "appendBodyData data c = c\<lparr>body := body c @ data\<rparr>"

type_synonym session_heap = "nat \<Rightarrow> session"

definition session_lifetime :: int where "session_lifetime = 5 * 60"

definition attachSession :: "int \<Rightarrow> nat \<Rightarrow> session_heap \<Rightarrow> http_conn \<Rightarrow> session_heap \<times> http_conn" where
  "attachSession now r h c =
     (h(r := extendExpiration (now + session_lifetime) (h r)), c\<lparr>conn_session := Some r\<rparr>)"

text \<open>\<open>session()\<close> touches the session it returns.\<close>

definition conn_get_session :: "int \<Rightarrow> session_heap \<Rightarrow> http_conn \<Rightarrow> session_heap \<times> nat option" where
  "conn_get_session now h c =
     (case conn_session c of Some r \<Rightarrow> (h(r := touch now (h r)), Some r) | None \<Rightarrow> (h, None))"

definition detachSession :: "http_conn \<Rightarrow> http_conn" where
  "detachSession c = c\<lparr>conn_session := None\<rparr>"

section \<open>Lemmas\<close>

lemma to_int_id: "- 2147483648 \<le> v \<Longrightarrow> v \<le> 2147483647 \<Longrightarrow> to_int v = v"
  by (simp add: to_int_def signed_take_bit_int_eq_self)

lemma getParamsIter_inv: "omap_inv (getParamsIter ps)"
proof -
  have "omap_inv m \<Longrightarrow> omap_inv (foldl (\<lambda>m (k, v). omap_set k v m) m ps)" for m :: "(string, string option) omap"
    by (induction ps arbitrary: m) auto
  then show ?thesis by (simp add: getParamsIter_def)
qed

lemma getParamsIter_dom: "map_of (getParamsIter ps) k \<noteq> None \<longleftrightarrow> k \<in> fst ` set ps"
proof -
  have "omap_inv m \<Longrightarrow> dom (map_of (foldl (\<lambda>m (k, v). omap_set k v m) m ps)) = dom (map_of m) \<union> fst ` set ps"
    for m :: "(string, string option) omap"
  proof (induction ps arbitrary: m)
    case (Cons p ps)
    then have "omap_inv (omap_set (fst p) (snd p) m)" by auto
    from Cons.IH [OF this] show ?case
      using Cons.prems by (cases p) (simp add: map_of_omap_set, auto simp: dom_def)
  qed simp
  from this [of "[]"] show ?thesis by (auto simp: getParamsIter_def)
qed

lemma hasField_iff: "hasField name c \<longleftrightarrow> name \<in> fst ` set (mhd_values (mhd c) ArgumentKind)"
  using getParamsIter_dom by (auto simp: hasField_def)

lemma hasCookie_iff: "hasCookie key c \<longleftrightarrow> key \<in> fst ` set (mhd_values (mhd c) CookieKind)"
  using getParamsIter_dom by (auto simp: hasCookie_def)

text \<open>A range in the form \<open>bytes=a-b\<close>, and without its end.\<close>

lemma show_int_no_dash: "0 \<le> i \<Longrightarrow> CHR ''-'' \<notin> set (show_int i)"
proof -
  have "\<not> is_digit (CHR ''-'')" by (simp add: is_digit_def)
  then show "0 \<le> i \<Longrightarrow> ?thesis" using show_nat_digits by (auto simp: show_int_def)
qed

lemma find_dash: "0 \<le> a \<Longrightarrow> find_first (\<lambda>c. c = CHR ''-'') (show_int a @ CHR ''-'' # r) = Some (length (show_int a))"
  using show_int_no_dash [of a] find_first_hit [of "show_int a" "\<lambda>c. c = CHR ''-''"] by auto

lemma find_equals: "find_first (\<lambda>c. c = CHR ''='') (''bytes='' @ r) = Some 5"
  by simp

lemma ParseRange_closed:
  assumes "0 \<le> a" "a \<le> INT_MAX" "0 \<le> b" "b \<le> INT_MAX"
  shows "ParseRange (''bytes='' @ show_int a @ CHR ''-'' # show_int b) = Some \<lparr>pos_begin = a, pos_end = b\<rparr>"
proof -
  have "std_stol (show_int a) = Inr a" "std_stol (show_int b) = Inr b" "to_int a = a" "to_int b = b"
    using assms by (simp_all add: std_stol_show_int LONG_MIN_def LONG_MAX_def INT_MAX_def to_int_id)
  moreover have "show_int b \<noteq> []" using assms(3) show_nat_neq_Nil by (simp add: show_int_def)
  ultimately show ?thesis
    by (simp add: ParseRange_def find_dash [OF assms(1)] parse_bounds_def)
qed

lemma ParseRange_open:
  assumes "0 \<le> a" "a \<le> INT_MAX"
  shows "ParseRange (''bytes='' @ show_int a @ ''-'') = Some \<lparr>pos_begin = a, pos_end = 0\<rparr>"
proof -
  have "std_stol (show_int a) = Inr a" "to_int a = a"
    using assms by (simp_all add: std_stol_show_int LONG_MIN_def LONG_MAX_def INT_MAX_def to_int_id)
  then show ?thesis
    by (simp add: ParseRange_def find_dash [OF assms(1)] parse_bounds_def)
qed

text \<open>The suffix form \<open>bytes=-n\<close> is rejected, and a value without a dash is the first byte.\<close>

lemma ParseRange_suffix: "ParseRange (''bytes=-'' @ r) = None"
proof -
  have "std_stol [] = Inl InvalidArgument" by (simp add: std_stol_def strtol10_def)
  then show ?thesis by (simp add: ParseRange_def parse_bounds_def)
qed

lemma ParseRange_no_dash: "CHR ''-'' \<notin> set r \<Longrightarrow> ParseRange (''bytes='' @ r) = Some range_new"
proof -
  assume "CHR ''-'' \<notin> set r"
  then have "find_first (\<lambda>c. c = CHR ''-'') r = None" by (auto simp: find_first_None)
  then show ?thesis by (simp add: ParseRange_def)
qed

section \<open>What a dispatcher may rely on\<close>

locale http_connection =
  fixes get_error :: "'c \<Rightarrow> int" and set_error :: "int \<Rightarrow> 'c \<Rightarrow> 'c"
    and has_header :: "string \<Rightarrow> 'c \<Rightarrow> bool" and set_header :: "string \<Rightarrow> string \<Rightarrow> 'c \<Rightarrow> 'c"
    and out :: "string \<Rightarrow> 'c \<Rightarrow> 'c" and ok :: "'c \<Rightarrow> bool"
  assumes error_set: "get_error (set_error e c) = e"
    and error_header: "get_error (set_header k v c) = get_error c"
    and error_out: "get_error (out s c) = get_error c"
    and header_set: "ok c \<Longrightarrow> has_header k (set_header k' v c) \<longleftrightarrow> k = k' \<or> has_header k c"
    and header_error: "has_header k (set_error e c) = has_header k c"
    and header_out: "has_header k (out s c) = has_header k c"
    and ok_header: "ok c \<Longrightarrow> ok (set_header k v c)"
    and ok_error: "ok c \<Longrightarrow> ok (set_error e c)"
    and ok_out: "ok c \<Longrightarrow> ok (out s c)"
begin

text \<open>The reply of a command that succeeded and of one that failed.\<close>

lemma reply_ok:
  assumes "ok c"
  shows "let c1 = (if \<not> has_header k c then set_header k v c else c); c2 = set_error e c1
    in get_error c2 = e \<and> has_header k c2 \<and> ok c2"
  using assms by (auto simp: Let_def error_set header_error header_set ok_error ok_header)

lemma reply_failed:
  assumes "e \<noteq> 0"
  shows "let c2 = (if get_error c = 0 then out m2 (out m1 (set_error e c)) else c)
    in get_error c2 = (if get_error c = 0 then e else get_error c) \<and> get_error c2 \<noteq> 0"
  using assms by (auto simp: Let_def error_set error_out)

end

definition conn_ok :: "http_conn \<Rightarrow> bool" where
  "conn_ok c = omap_inv (responseHeaders c)"

interpretation conn: http_connection conn_error setError responseHasHeader setResponseHeader write_out conn_ok
  by unfold_locales
    (auto simp: setError_def setResponseHeader_def write_out_def responseHasHeader_def conn_ok_def map_simps)

end
