(* ===== verification/HttpServer.thy ===== *)
theory HttpServer
  imports HttpConnection CronQueue
begin

text \<open>
  \<open>components/net/http/src/http_server_impl.cc\<close>: the events MHD sends for a request, the
  handling of a complete request with files and byte ranges, and the sessions with their expiry,
  which runs as a job of the cron daemon.  The dispatcher, the file system and MHD's creation of
  responses are parameters.
\<close>

section \<open>State\<close>

record http_server =
  goingToStop :: bool
  sessions :: "nat list"
  heap :: session_heap
  counter :: int

type_synonym dispatch = "http_conn \<Rightarrow> session_heap \<Rightarrow> bool \<times> http_conn \<times> session_heap"

datatype response =
    FromRange string int int
  | FromFd string int
  | FromBuffer string

text \<open>What is queued: the status, the response, null if there is none, and its headers.\<close>

record reply =
  status :: int
  response_of :: "response option"
  headers_of :: "(string \<times> string) list"

text \<open>The files: \<open>stat\<close>, \<open>fopen\<close>, \<open>open\<close>; and whether MHD creates a response of a length.\<close>

record files =
  file_size :: "string \<Rightarrow> int option"
  can_fopen :: "string \<Rightarrow> bool"
  can_open :: "string \<Rightarrow> bool"
  mhd_creates :: "int \<Rightarrow> bool"

definition STATUS_OK :: int where "STATUS_OK = 200"
definition STATUS_PARTIAL_CONTENT :: int where "STATUS_PARTIAL_CONTENT = 206"
definition STATUS_NOT_FOUND :: int where "STATUS_NOT_FOUND = 404"
definition STATUS_NOT_ALLOWED :: int where "STATUS_NOT_ALLOWED = 405"
definition STATUS_NOT_ACCEPTABLE :: int where "STATUS_NOT_ACCEPTABLE = 406"
definition STATUS_RANGE :: int where "STATUS_RANGE = 416"
definition STATUS_INTERNAL_ERROR :: int where "STATUS_INTERNAL_ERROR = 500"
definition STATUS_UNAVAILABLE :: int where "STATUS_UNAVAILABLE = 503"

section \<open>Handling a request\<close>

definition server_handle :: "dispatch \<Rightarrow> http_server \<Rightarrow> http_conn \<Rightarrow> bool \<times> http_conn \<times> http_server" where
  "server_handle d srv c =
     (if goingToStop srv
      then (False, setError_msg STATUS_UNAVAILABLE ''The web server is about to shutdown.'' c, srv)
      else (let (result, c1, h) = d c (heap srv);
                c2 = (if conn_error c1 = 0 then setError STATUS_OK c1 else c1)
            in (result, c2, srv\<lparr>heap := h\<rparr>)))"

text \<open>\<open>createResponseFromFilerange\<close>\<close>

definition createResponseFromFilerange :: "files \<Rightarrow> string \<Rightarrow> range \<Rightarrow> response option" where
  "createResponseFromFilerange fs filename r =
     (if can_fopen fs filename \<and> mhd_creates fs (range_length r)
      then Some (FromRange filename (pos_begin r) (range_length r)) else None)"

text \<open>The range that is sent: the requested one cut to the file.\<close>

definition cut_range :: "range \<Rightarrow> range \<Rightarrow> range" where
  "cut_range file r =
     (let f1 = (if pos_begin r > pos_begin file then file\<lparr>pos_begin := pos_begin r\<rparr> else file)
      in if pos_end r \<le> pos_end f1 then f1\<lparr>pos_end := pos_end r\<rparr> else f1)"

definition file_range :: "int \<Rightarrow> range" where
  "file_range sz = \<lparr>pos_begin = 0, pos_end = (if sz > 0 then to_int sz - 1 else 0)\<rparr>"

definition content_range :: "range \<Rightarrow> int \<Rightarrow> string" where
  "content_range r sz =
     ''bytes '' @ show_int (pos_begin r) @ ''-'' @ show_int (if pos_end r > 0 then pos_end r else 0) @
     ''/'' @ show_int sz"

text \<open>The branch for a file to send: the response, its headers and the connection.\<close>

definition send_range :: "files \<Rightarrow> string \<Rightarrow> int \<Rightarrow> range \<Rightarrow> http_conn \<Rightarrow>
    response option \<times> (string \<times> string) list \<times> http_conn" where
  "send_range fs filename sz r c =
     (let sent = cut_range (file_range sz) r;
          resp = createResponseFromFilerange fs filename sent;
          c1 = setError (if resp \<noteq> None then STATUS_PARTIAL_CONTENT else STATUS_INTERNAL_ERROR) c
      in (resp,
          if resp \<noteq> None
          then [(''Content-Range'', content_range sent sz),
                (''Content-Length'', show_int (range_length sent))] else [],
          c1))"

definition send_file :: "files \<Rightarrow> http_conn \<Rightarrow> response option \<times> (string \<times> string) list \<times> http_conn" where
  "send_file fs c =
     (let filename = streamName c
      in case file_size fs filename of
           None \<Rightarrow> (None, [], setError STATUS_NOT_FOUND c)
         | Some sz \<Rightarrow>
             (let range_header_val = header ''Range'' c
              in if range_header_val \<noteq> []
                 then (case ParseRange range_header_val of
                         Some r \<Rightarrow>
                           if pos_begin r < sz then send_range fs filename sz r c
                           else (None, [], setError STATUS_RANGE c)
                       | None \<Rightarrow> (None, [], setError STATUS_RANGE c))
                 else if can_open fs filename then (Some (FromFd filename sz), [], c)
                 else (None, [], setError STATUS_NOT_ACCEPTABLE c)))"

text \<open>The session of the reply: touched, kept in the list, and named in two headers.\<close>

text \<open>The first argument is \<open>timestamp_to_string\<close>, of a time whose text fits.\<close>

definition reply_session :: "(int \<Rightarrow> string) \<Rightarrow> int \<Rightarrow> http_server \<Rightarrow> http_conn \<Rightarrow> http_server \<times> http_conn" where
  "reply_session show_time now srv c =
     (let (h, s) = conn_get_session now (heap srv) c; srv1 = srv\<lparr>heap := h\<rparr>
      in case s of
           None \<Rightarrow> (srv1, c)
         | Some r \<Rightarrow>
             (let known = (find (\<lambda>q. session_id (h q) = session_id (h r)) (sessions srv1) \<noteq> None);
                  srv2 = (if known then srv1 else srv1\<lparr>sessions := sessions srv1 @ [r]\<rparr>)
              in (srv2, setResponseHeader ''X-Session-Expiry'' (show_time (expiration (h r)))
                          (setResponseHeader ''X-Session'' (session_id (h r)) c))))"

text \<open>\<open>handleHttpRequest\<close>; \<open>debug\<close> is a build without \<open>NDEBUG\<close>.\<close>

definition handleHttpRequest :: "bool \<Rightarrow> dispatch \<Rightarrow> files \<Rightarrow> (int \<Rightarrow> string) \<Rightarrow> int \<Rightarrow>
    http_server \<Rightarrow> http_conn \<Rightarrow> reply \<times> http_conn \<times> http_server" where
  "handleHttpRequest debug d fs tts now srv c =
     (let c0 = (if debug then setResponseHeader ''Access-Control-Allow-Origin'' ''*'' c else c);
          (result, c1, srv1) = server_handle d srv c0;
          (resp, hs, c2, srv2) =
            (if result \<and> conn_error c1 = STATUS_OK
             then (let (srv2, c2) = reply_session tts now srv1 c1
                   in if streamName c2 \<noteq> []
                      then (let (resp, hs, c3) = send_file fs c2 in (resp, hs, c3, srv2))
                      else (Some (FromBuffer (strResponse c2)), [], c2, srv2))
             else (None, [], c1, srv1));
          resp2 = (if conn_error c2 \<noteq> STATUS_OK \<and> resp = None then Some (FromBuffer (strResponse c2)) else resp)
      in (\<lparr>status = conn_error c2, response_of = resp2,
           headers_of = (if resp2 \<noteq> None then hs @ responseHeaders c2 else [])\<rparr>, c2, srv2))"

section \<open>Sessions\<close>

definition processSession :: "int \<Rightarrow> http_server \<Rightarrow> http_conn \<Rightarrow> http_server \<times> http_conn" where
  "processSession now srv c =
     (if \<not> requestHasHeader ''X-Session'' c then (srv, c)
      else (case find (\<lambda>r. session_id (heap srv r) = header ''X-Session'' c) (sessions srv) of
              None \<Rightarrow> (srv, c)
            | Some r \<Rightarrow> (let (h, c1) = attachSession now r (heap srv) c in (srv\<lparr>heap := h\<rparr>, c1))))"

text \<open>\<open>pruneSessionsOnExpiration\<close>: the sessions whose \<open>onExpire\<close> is called, the new state, and
  the returned number.\<close>

definition pruneSessionsOnExpiration :: "int \<Rightarrow> http_server \<Rightarrow> nat list \<times> http_server \<times> int" where
  "pruneSessionsOnExpiration now srv =
     (filter (\<lambda>r. expiration (heap srv r) \<le> now) (sessions srv),
      srv\<lparr>sessions := filter (\<lambda>r. \<not> expiration (heap srv r) \<le> now) (sessions srv)\<rparr>, 0)"

section \<open>The events of a request\<close>

definition methodTypeFromString :: "(string \<times> http_method) list" where
  "methodTypeFromString = [(''GET'', GET), (''POST'', POST), (''PUT'', PUT), (''DELETE'', DELETE),
     (''OPTIONS'', OPTIONS)]"

definition options_reply :: "bool \<Rightarrow> reply" where
  "options_reply debug =
     \<lparr>status = STATUS_OK, response_of = Some (FromBuffer []),
      headers_of = (if debug then [(''Access-Control-Allow-Origin'', ''*'')] else []) @
        [(''Access-Control-Allow-Methods'', ''GET, POST, PUT, OPTIONS, DELETE''),
         (''Access-Control-Allow-Headers'', ''authorization,cache-control,content-type,pragma,signature''),
         (''Access-Control-Allow-Credentials'', ''true''), (''Content-Type'', ''text/plain''),
         (''Content-Length'', ''0'')]\<rparr>"

definition shutdown_reply :: reply where
  "shutdown_reply = \<lparr>status = STATUS_UNAVAILABLE,
     response_of = Some (FromBuffer ''The server is going to shut down''), headers_of = []\<rparr>"

text \<open>One event of \<open>mhdEventHandler\<close>: the method, the URL, the data uploaded, what MHD knows of the
  request.  The result: the connection kept in \<open>*conCls\<close>, the server, the reply queued, and
  whether the handler returned \<open>MHD_YES\<close>; the result of queueing a reply is MHD's.\<close>

record http_event =
  ev_method :: string
  ev_url :: string
  ev_data :: string
  ev_mhd :: mhd_connection

definition mhdEventHandler :: "bool \<Rightarrow> dispatch \<Rightarrow> files \<Rightarrow> (int \<Rightarrow> string) \<Rightarrow> (reply \<Rightarrow> bool) \<Rightarrow> int \<Rightarrow> http_event \<Rightarrow>
    http_conn option \<Rightarrow> http_server \<Rightarrow> http_conn option \<times> http_server \<times> reply option \<times> bool" where
  "mhdEventHandler debug d fs tts queues now ev con srv =
     (if goingToStop srv then (con, srv, Some shutdown_reply, False)
      else (case map_of methodTypeFromString (ev_method ev) of
              None \<Rightarrow> (con, srv, None, False)
            | Some m \<Rightarrow>
                (case con of
                   None \<Rightarrow>
                     if m = OPTIONS then (None, srv, Some (options_reply debug), True)
                     else (let c = new_connection (ev_url ev) m (ev_data ev) (ev_mhd ev);
                               (srv1, c1) = processSession now (srv\<lparr>counter := counter srv + 1\<rparr>) c
                           in (Some c1, srv1, None, True))
                 | Some c \<Rightarrow>
                     if length (ev_data ev) \<noteq> 0 then (Some (appendBodyData (ev_data ev) c), srv, None, True)
                     else (let (r, c1, srv1) = handleHttpRequest debug d fs tts now srv c
                           in (Some c1, srv1, Some r, queues r)))))"

text \<open>\<open>mhdRequestCompleted\<close> deletes the connection.\<close>

definition mhdRequestCompleted :: "http_conn option \<Rightarrow> http_server \<Rightarrow> http_conn option \<times> http_server" where
  "mhdRequestCompleted con srv =
     (None, case con of None \<Rightarrow> srv | Some c \<Rightarrow> srv\<lparr>counter := counter srv - 1\<rparr>)"

section \<open>Byte ranges\<close>

text \<open>A successful request for a file answers with what \<open>send_file\<close> gives.\<close>

lemma handle_file:
  assumes "\<not> goingToStop srv"
    and "d (if debug then setResponseHeader ''Access-Control-Allow-Origin'' ''*'' c else c) (heap srv) = (True, c1, h)"
    and "conn_error c1 = 0"
    and "reply_session tts now (srv\<lparr>heap := h\<rparr>) (setError STATUS_OK c1) = (srv2, c2)"
    and "streamName c2 \<noteq> []" and "send_file fs c2 = (Some resp, hs, c3)"
  shows "fst (handleHttpRequest debug d fs tts now srv c) =
    \<lparr>status = conn_error c3, response_of = Some resp, headers_of = hs @ responseHeaders c3\<rparr>"
  using assms by (simp add: handleHttpRequest_def server_handle_def Let_def setError_def [of STATUS_OK])

lemma reply_session_conn:
  "reply_session tts now srv c = (srv2, c2) \<Longrightarrow>
    streamName c2 = streamName c \<and> mhd c2 = mhd c \<and> conn_error c2 = conn_error c \<and> strResponse c2 = strResponse c"
  by (auto simp: reply_session_def setResponseHeader_def Let_def split: prod.splits option.splits if_splits)

text \<open>The reply to a request for the bytes \<open>a\<close> to \<open>b\<close> of a file.\<close>

lemma range_reply:
  assumes "\<not> goingToStop srv"
    and "d (if debug then setResponseHeader ''Access-Control-Allow-Origin'' ''*'' c else c) (heap srv) = (True, c1, h)"
    and "conn_error c1 = 0" and "streamName c1 = f" "f \<noteq> []" and "file_size fs f = Some sz"
    and "header ''Range'' c1 = ''bytes='' @ show_int a @ CHR ''-'' # show_int b"
    and "0 \<le> a" "a \<le> b" "b \<le> INT_MAX" and "a < sz" "sz \<le> INT_MAX"
    and "can_fopen fs f" and "\<forall>n > 0. mhd_creates fs n"
  shows "\<exists>hs. fst (handleHttpRequest debug d fs tts now srv c) =
    \<lparr>status = STATUS_PARTIAL_CONTENT, response_of = Some (FromRange f a (min b (sz - 1) - a + 1)),
     headers_of = [(''Content-Range'', ''bytes '' @ show_int a @ ''-'' @ show_int (min b (sz - 1)) @ ''/'' @ show_int sz),
       (''Content-Length'', show_int (min b (sz - 1) - a + 1))] @ hs\<rparr>"
proof -
  obtain srv2 c2 where rs: "reply_session tts now (srv\<lparr>heap := h\<rparr>) (setError STATUS_OK c1) = (srv2, c2)" by fastforce
  note c2 = reply_session_conn [OF rs]
  have parse: "ParseRange (header ''Range'' c2) = Some \<lparr>pos_begin = a, pos_end = b\<rparr>"
    using c2 assms ParseRange_closed [of a b] by (simp add: header_def setError_def INT_MAX_def)
  have sz: "to_int sz = sz" using assms(8,11,12) by (simp add: to_int_id INT_MAX_def)
  define sent where "sent = cut_range (file_range sz) \<lparr>pos_begin = a, pos_end = b\<rparr>"
  have sent: "sent = \<lparr>pos_begin = a, pos_end = min b (sz - 1)\<rparr>"
    using assms(8,9,11) sz by (auto simp: sent_def cut_range_def file_range_def Let_def min_def)
  have len: "range_length sent = min b (sz - 1) - a + 1" "0 < range_length sent"
    using assms(9,11) by (auto simp: range_length_def sent min_def)
  have "header ''Range'' c2 \<noteq> []" "streamName c2 = f"
    using c2 assms(4,7) by (simp_all add: header_def setError_def)
  with parse assms(6,11,13,14) len(2)
  have send: "send_file fs c2 = (Some (FromRange f a (range_length sent)),
     [(''Content-Range'', content_range sent sz), (''Content-Length'', show_int (range_length sent))],
     setError STATUS_PARTIAL_CONTENT c2)"
    by (simp add: send_file_def send_range_def Let_def createResponseFromFilerange_def flip: sent_def)
      (simp add: sent)
  have "streamName c2 \<noteq> []" using \<open>streamName c2 = f\<close> assms(5) by simp
  note handle_file [where d = d and debug = debug and c = c and srv = srv and h = h and ?c1.0 = c1,
      OF assms(1-3) rs this send]
  moreover have "content_range sent sz =
      ''bytes '' @ show_int a @ ''-'' @ show_int (min b (sz - 1)) @ ''/'' @ show_int sz"
  proof -
    have "(if min b (sz - 1) > 0 then min b (sz - 1) else 0) = min b (sz - 1)" using assms(8,9,11) by auto
    then show ?thesis by (simp only: content_range_def sent range.select_convs)
  qed
  ultimately show ?thesis
    using \<open>streamName c2 = f\<close> assms(5) len(1) by (simp add: setError_def)
qed

definition no_mhd :: mhd_connection where
  "no_mhd = \<lparr>mhd_lookup = (\<lambda>_ _. None), mhd_values = (\<lambda>_. [])\<rparr>"

definition range_request :: "string \<Rightarrow> http_conn" where
  "range_request v = new_connection ''/movie'' GET [] (no_mhd\<lparr>mhd_lookup := (\<lambda>k n. if n = ''Range'' then Some v else None)\<rparr>)"

definition file_dispatch :: dispatch where
  "file_dispatch c h = (True, sendFile ''/srv/movie'' c, h)"

definition movie_files :: files where
  "movie_files = \<lparr>file_size = (\<lambda>f. Some 10), can_fopen = (\<lambda>f. True), can_open = (\<lambda>f. True), mhd_creates = (\<lambda>n. n > 0)\<rparr>"

definition idle_server :: http_server where
  "idle_server = \<lparr>goingToStop = False, sessions = [],
     heap = (\<lambda>_. \<lparr>session_id = [], lastActivity = 0, expiration = 0\<rparr>), counter = 0\<rparr>"

text \<open>The open form \<open>bytes=a-\<close>, from a byte to the end of the file, is cut to the empty range from
  \<open>a\<close> to 0.\<close>

lemma open_range_empty:
  assumes "0 < a" "a \<le> INT_MAX" "a < sz" "sz \<le> INT_MAX"
  shows "ParseRange (''bytes='' @ show_int a @ ''-'') = Some \<lparr>pos_begin = a, pos_end = 0\<rparr> \<and>
    range_length (cut_range (file_range sz) \<lparr>pos_begin = a, pos_end = 0\<rparr>) = 0"
  using assms ParseRange_open [of a]
  by (auto simp: cut_range_def file_range_def range_length_def Let_def to_int_id INT_MAX_def)

text \<open>A dispatcher that refuses a request without an error leaves it without an answer.\<close>

lemma refused_without_error:
  assumes "\<not> goingToStop srv"
    and "d (if debug then setResponseHeader ''Access-Control-Allow-Origin'' ''*'' c else c) (heap srv) = (False, c1, h)"
    and "conn_error c1 = 0"
  shows "response_of (fst (handleHttpRequest debug d fs tts now srv c)) = None"
  using assms by (simp add: handleHttpRequest_def server_handle_def Let_def setError_def)

section \<open>The body of a request\<close>

text \<open>The events of one request.\<close>

fun run_events :: "bool \<Rightarrow> dispatch \<Rightarrow> files \<Rightarrow> (int \<Rightarrow> string) \<Rightarrow> (reply \<Rightarrow> bool) \<Rightarrow> int \<Rightarrow> http_event list \<Rightarrow>
    http_conn option \<Rightarrow> http_server \<Rightarrow> http_conn option \<times> http_server \<times> reply list" where
  "run_events debug d fs tts queues now [] con srv = (con, srv, [])"
| "run_events debug d fs tts queues now (ev # evs) con srv =
     (let (con1, srv1, r, ok) = mhdEventHandler debug d fs tts queues now ev con srv;
          (con2, srv2, rs) = run_events debug d fs tts queues now evs con1 srv1
      in (con2, srv2, (case r of Some r \<Rightarrow> [r] | None \<Rightarrow> []) @ rs))"

lemma run_events_chunks:
  assumes "\<not> goingToStop srv" and "map_of methodTypeFromString mth = Some m"
    and "\<forall>x \<in> set chunks. x \<noteq> []"
  shows "run_events debug d fs tts queues now
      (map (\<lambda>x. \<lparr>ev_method = mth, ev_url = u, ev_data = x, ev_mhd = mc\<rparr>) chunks @ evs) (Some c) srv =
    run_events debug d fs tts queues now evs (Some (appendBodyData (concat chunks) c)) srv"
  using assms(3)
proof (induction chunks arbitrary: c)
  case Nil
  then show ?case by (simp add: appendBodyData_def)
next
  case (Cons x xs)
  have "mhdEventHandler debug d fs tts queues now \<lparr>ev_method = mth, ev_url = u, ev_data = x, ev_mhd = mc\<rparr> (Some c) srv
    = (Some (appendBodyData x c), srv, None, True)"
    using assms(1,2) Cons.prems by (simp add: mhdEventHandler_def)
  moreover have "appendBodyData (concat xs) (appendBodyData x c) = appendBodyData (concat (x # xs)) c"
    by (simp add: appendBodyData_def)
  ultimately show ?case using Cons by simp
qed

lemma processSession_facts:
  "processSession now srv c = (srv1, c1) \<Longrightarrow>
    goingToStop srv1 = goingToStop srv \<and> c1 = c\<lparr>conn_session := conn_session c1\<rparr>"
  by (auto simp: processSession_def attachSession_def Let_def split: if_splits option.splits)

text \<open>The dispatcher is called once, on a connection that has the whole body, and maybe a session.\<close>

lemma request_events:
  assumes "\<not> goingToStop srv" and "map_of methodTypeFromString mth = Some m" and "m \<noteq> OPTIONS"
    and "\<forall>x \<in> set chunks. x \<noteq> []"
  shows "\<exists>s srv1. \<not> goingToStop srv1 \<and>
    run_events debug d fs tts queues now
      (map (\<lambda>x. \<lparr>ev_method = mth, ev_url = u, ev_data = x, ev_mhd = mc\<rparr>) ([] # chunks @ [[]])) None srv =
    (let (r, c2, srv2) = handleHttpRequest debug d fs tts now srv1 ((new_connection u m (concat chunks) mc)\<lparr>conn_session := s\<rparr>)
     in (Some c2, srv2, [r]))"
proof -
  let ?ev = "\<lambda>x. \<lparr>ev_method = mth, ev_url = u, ev_data = x, ev_mhd = mc\<rparr>"
  obtain srv1 c1 where p: "processSession now (srv\<lparr>counter := counter srv + 1\<rparr>) (new_connection u m [] mc) = (srv1, c1)"
    by fastforce
  note f = processSession_facts [OF p]
  have first: "mhdEventHandler debug d fs tts queues now (?ev []) None srv = (Some c1, srv1, None, True)"
    using assms(1-3) p by (simp add: mhdEventHandler_def)
  let ?c = "appendBodyData (concat chunks) c1"
  obtain r c2 srv2 where h: "handleHttpRequest debug d fs tts now srv1 ?c = (r, c2, srv2)"
    by (metis prod_cases3)
  have go: "\<not> goingToStop srv1" using f assms(1) by simp
  have last: "mhdEventHandler debug d fs tts queues now (?ev []) (Some ?c) srv1 = (Some c2, srv2, Some r, queues r)"
    using go assms(2) h by (simp add: mhdEventHandler_def)
  have "run_events debug d fs tts queues now (map ?ev chunks @ [?ev []]) (Some c1) srv1 =
    run_events debug d fs tts queues now [?ev []] (Some ?c) srv1"
    by (rule run_events_chunks [OF go assms(2,4)])
  then have "run_events debug d fs tts queues now (map ?ev ([] # chunks @ [[]])) None srv = (Some c2, srv2, [r])"
    using first last by simp
  moreover obtain s where s: "c1 = (new_connection u m [] mc)\<lparr>conn_session := s\<rparr>" using f by blast
  then have "?c = (new_connection u m (concat chunks) mc)\<lparr>conn_session := s\<rparr>"
    by (simp add: appendBodyData_def new_connection_def)
  ultimately show ?thesis using go h by (intro exI [of _ s] exI [of _ srv1]) simp
qed

text \<open>C24: However MHD cuts the body of a request into pieces, the dispatcher is called once, after
  the last, with the whole body, the URL and the method of the request, and its reply is the only
  one.\<close>

theorem request_assembled:
  assumes "\<not> goingToStop srv" and "map_of methodTypeFromString mth = Some m" and "m \<noteq> OPTIONS"
    and "\<forall>x \<in> set chunks. x \<noteq> []"
  shows "\<exists>c srv1 c2 srv2 r. url c = u \<and> conn_method c = m \<and> body c = concat chunks \<and> mhd c = mc \<and> conn_error c = 0 \<and>
    handleHttpRequest debug d fs tts now srv1 c = (r, c2, srv2) \<and>
    run_events debug d fs tts queues now
      (map (\<lambda>x. \<lparr>ev_method = mth, ev_url = u, ev_data = x, ev_mhd = mc\<rparr>) ([] # chunks @ [[]])) None srv =
      (Some c2, srv2, [r])"
proof -
  from request_events [OF assms] obtain s srv1 where e: "run_events debug d fs tts queues now
      (map (\<lambda>x. \<lparr>ev_method = mth, ev_url = u, ev_data = x, ev_mhd = mc\<rparr>) ([] # chunks @ [[]])) None srv =
    (let (r, c2, srv2) = handleHttpRequest debug d fs tts now srv1 ((new_connection u m (concat chunks) mc)\<lparr>conn_session := s\<rparr>)
     in (Some c2, srv2, [r]))" by blast
  let ?c = "(new_connection u m (concat chunks) mc)\<lparr>conn_session := s\<rparr>"
  obtain r c2 srv2 where "handleHttpRequest debug d fs tts now srv1 ?c = (r, c2, srv2)" by (metis prod_cases3)
  with e show ?thesis
    by (intro exI [of _ ?c] exI [of _ srv1] exI [of _ c2] exI [of _ srv2] exI [of _ r]) (simp add: new_connection_def)
qed

theorem request_assembled_witness:
  "\<exists>c srv1 c2 srv2 r. body c = ''ab'' \<and>
    handleHttpRequest False file_dispatch movie_files (\<lambda>t. []) 0 srv1 c = (r, c2, srv2) \<and>
    run_events False file_dispatch movie_files (\<lambda>t. []) (\<lambda>_. True) 0
      (map (\<lambda>x. \<lparr>ev_method = ''POST'', ev_url = ''/x'', ev_data = x, ev_mhd = no_mhd\<rparr>) [[], ''a'', ''b'', []]) None idle_server =
      (Some c2, srv2, [r])"
  using request_assembled [where srv = idle_server and mth = "''POST''" and m = POST and chunks = "[''a'', ''b'']"
    and debug = False and d = file_dispatch and fs = movie_files and tts = "\<lambda>t. []" and now = 0 and u = "''/x''"
    and mc = no_mhd and queues = "\<lambda>_. True"]
  by (force simp: idle_server_def methodTypeFromString_def)

section \<open>The expiry of sessions\<close>

text \<open>The job of the constructor: the number 0 is the Boolean false.\<close>

definition prune_job :: "unit \<Rightarrow> http_server world \<Rightarrow> bool option \<times> http_server world" where
  "prune_job cb w =
     (let (expired, srv, n) = pruneSessionsOnExpiration (clock w) (rest w) in (Some (n \<noteq> 0), w\<lparr>rest := srv\<rparr>))"

text \<open>The expiry of sessions runs once: its job returns false, which removes it and ends the
  worker of the daemon; sessions that expire later stay in the list, and a request that names
  one is attached to it and extends it.\<close>

theorem session_expiry_runs_once:
  assumes "cron_inv st" and "queue st = [job]" and "working st" and "next_time job \<le> clock w"
    and "state \<noteq> TP_TimeChange"
  shows "\<exists>st' w'. worker_wakes z prune_job state st w = (Returns (st', False), w') \<and>
    queue st' = [] \<and> start st' = (st', False) \<and>
    sessions (rest w') = filter (\<lambda>r. \<not> expiration (heap (rest w) r) \<le> clock w) (sessions (rest w))"
proof -
  have "unsafeRemoveJob (job_id job) [job] = []" by (simp add: unsafeRemoveJob_def)
  moreover have "fst (prune_job (job_cb job) w) = Some False"
    by (simp add: prune_job_def pruneSessionsOnExpiration_def)
  ultimately show ?thesis
    using assms due_loop_false [where job = job and run = prune_job and w = w and z = z and state = state
        and passed = "[]" and js = "[]" and current = "clock w"]
    by (simp add: worker_wakes_def start_def prune_job_def pruneSessionsOnExpiration_def)
qed

definition expiry_cron :: "unit cron" where
  "expiry_cron = \<lparr>queue = [\<lparr>job_name = ''Check HTTP sessions expiration'', timespec = ''* * * * * *'',
      next_time = 60, job_cb = (), job_id = 1\<rparr>], working = True, next_job_id = 2\<rparr>"

theorem session_expiry_runs_once_witness:
  "\<exists>st' w'. worker_wakes noon_zone prune_job TP_Wait expiry_cron
      \<lparr>clock = 60, rest = idle_server\<lparr>sessions := [3]\<rparr>\<rparr> = (Returns (st', False), w') \<and>
    queue st' = [] \<and> start st' = (st', False) \<and> sessions (rest w') = []"
proof -
  have "cron_inv expiry_cron" by (simp add: cron_inv_def expiry_cron_def)
  from session_expiry_runs_once [OF this, where z = noon_zone and state = TP_Wait
      and w = "\<lparr>clock = 60, rest = idle_server\<lparr>sessions := [3]\<rparr>\<rparr>"]
  show ?thesis by (simp add: expiry_cron_def idle_server_def)
qed

end
