(* ===== verification/Rest.thy ===== *)
theory Rest
  imports HttpServer
begin

text \<open>
  \<open>components/net/rest/src/resthandler.cc\<close>: the dispatcher that looks for the command named by
  the path of a request and turns its outcome into a status, and the command that documents the
  others.  A command is its name, its documentation if it is an \<open>IDocCommand\<close>, and what it does
  with the connection.  The XML writer of libxml is a parameter: the code each write returns after
  the writes before it, and the text of the buffer after a list of writes.
\<close>

section \<open>Commands\<close>

text \<open>\<open>perform\<close> returns a Boolean or throws an exception with its message; or there is no result that
  the handler could do anything with, since it runs for ever or its behaviour is undefined.\<close>

datatype perform_result = Performed bool | Threw string | Stopped stop

record cmd_doc =
  description :: string
  requestDescription :: string
  responseDescription :: string
  requestGraph :: string
  responseGraph :: string

text \<open>\<open>perform\<close> also gets the names and documentation of the commands of the handler, to whose list
  the help command holds a reference.\<close>

type_synonym cmd_info = "string \<times> cmd_doc option"

record rest_command =
  cmd_name :: string
  cmd_docs :: "cmd_doc option"
  perform :: "cmd_info list \<Rightarrow> http_conn \<Rightarrow> perform_result \<times> http_conn"

type_synonym rest_handler = "rest_command list"

definition cmd_infos :: "rest_handler \<Rightarrow> cmd_info list" where
  "cmd_infos rh = map (\<lambda>cmd. (cmd_name cmd, cmd_docs cmd)) rh"

definition addCommand :: "rest_command \<Rightarrow> rest_handler \<Rightarrow> rest_handler" where
  "addCommand cmd rh = rh @ [cmd]"

definition removeCommand :: "string \<Rightarrow> rest_handler \<Rightarrow> rest_handler" where
  "removeCommand name rh = filter (\<lambda>cmd. cmd_name cmd \<noteq> name) rh"

text \<open>The outcome of the found command: \<open>perform\<close> that returns false throws a message of its own.\<close>

definition run_command :: "cmd_info list \<Rightarrow> rest_command \<Rightarrow> http_conn \<Rightarrow> (bool \<times> http_conn) res" where
  "run_command infos cmd c =
     (let (r, c1) = perform cmd infos c;
          failed = (case r of Performed True \<Rightarrow> Inr None
                    | Performed False \<Rightarrow> Inr (Some ''An error occurred at command execution.'')
                    | Threw msg \<Rightarrow> Inr (Some msg)
                    | Stopped s \<Rightarrow> Inl s)
      in case failed of
           Inl s \<Rightarrow> Inl s
         | Inr None \<Rightarrow>
             (let c2 = (if \<not> responseHasHeader ''Content-type'' c1
                        then setResponseHeader ''Content-type'' ''application/json'' c1 else c1)
              in Inr (True, setError STATUS_OK c2))
         | Inr (Some msg) \<Rightarrow>
             Inr (False, if conn_error c1 = 0
                     then write_out msg (write_out ''Internal server error: '' (setError STATUS_INTERNAL_ERROR c1))
                     else c1))"

text \<open>\<open>RestHandler::handle\<close>; \<open>path.substr(1)\<close> is outside of the \<open>try\<close> block.\<close>

definition rest_handle :: "rest_handler \<Rightarrow> http_conn \<Rightarrow> (bool \<times> http_conn) res" where
  "rest_handle rh c =
     (case substr_from 1 (path c) of
        Inl e \<Rightarrow> Inl (Thrown e)
      | Inr command_name \<Rightarrow>
          (case find (\<lambda>cmd. cmd_name cmd = command_name) rh of
             Some cmd \<Rightarrow> run_command (cmd_infos rh) cmd c
           | None \<Rightarrow> Inr (False, setError STATUS_NOT_ALLOWED c)))"

text \<open>The handler as the dispatcher of a server, for the requests it returns from.  An exception would
  end the program in the \<open>noexcept\<close> event handler, and a command that hangs gives no answer; a
  dispatcher has no value for these, and nothing is said about it there.\<close>

definition rest_dispatch :: "rest_handler \<Rightarrow> dispatch" where
  "rest_dispatch rh c h =
     (case rest_handle rh c of Inr (b, c1) \<Rightarrow> (b, c1, h) | Inl _ \<Rightarrow> undefined)"

section \<open>The help command\<close>

datatype xml_write =
    StartDocument
  | FormatPI string string
  | StartElement string
  | WriteElement string string
  | EndElement
  | EndDocument

text \<open>\<open>code ws w\<close> is what the write \<open>w\<close> after the writes \<open>ws\<close> returns, \<open>content ws\<close> the text
  of the buffer; the creation of the buffer and of the writer may fail.\<close>

record xml_writer =
  buffer_created :: bool
  writer_created :: bool
  write_code :: "xml_write list \<Rightarrow> xml_write \<Rightarrow> int"
  buffer_text :: "xml_write list \<Rightarrow> string"

definition checkXmlError :: "string \<Rightarrow> int \<Rightarrow> string option" where
  "checkXmlError descr cd = (if cd < 0 then Some (''Write '' @ descr @ '', error code='' @ show_int cd) else None)"

text \<open>One write and the check of its code; the state is the writes so far, an error its message.
  The processing instruction is written without a check.\<close>

definition checked_write :: "xml_writer \<Rightarrow> string \<Rightarrow> xml_write \<Rightarrow> xml_write list \<Rightarrow> string + xml_write list" where
  "checked_write x descr w ws =
     (case checkXmlError descr (write_code x ws w) of Some msg \<Rightarrow> Inl msg | None \<Rightarrow> Inr (ws @ [w]))"

definition writeXmlElement :: "xml_writer \<Rightarrow> string \<Rightarrow> string \<Rightarrow> xml_write list \<Rightarrow> string + xml_write list" where
  "writeXmlElement x name v ws = checked_write x (''element '' @ name) (WriteElement name v) ws"

text \<open>Statements in order, up to the first that throws.\<close>

fun in_order :: "('s \<Rightarrow> 'e + 's) list \<Rightarrow> 's \<Rightarrow> 'e + 's" where
  "in_order [] s = Inr s"
| "in_order (f # fs) s = (case f s of Inl e \<Rightarrow> Inl e | Inr s1 \<Rightarrow> in_order fs s1)"

definition xmlSerializeCommand :: "xml_writer \<Rightarrow> cmd_info \<Rightarrow> xml_write list \<Rightarrow> string + xml_write list" where
  "xmlSerializeCommand x cmd ws = in_order
     ([checked_write x ''command element start'' (StartElement ''command''),
       writeXmlElement x ''name'' (fst cmd)] @
      (case snd cmd of
         Some d \<Rightarrow> [writeXmlElement x ''description'' (description d),
                    writeXmlElement x ''request'' (requestDescription d),
                    writeXmlElement x ''response'' (responseDescription d),
                    writeXmlElement x ''requestGraph'' (requestGraph d),
                    writeXmlElement x ''responseGraph'' (responseGraph d)]
       | None \<Rightarrow> [writeXmlElement x ''description'' ''The command is undocumented yet'']) @
      [checked_write x ''command element end'' EndElement]) ws"

definition describeCommands :: "xml_writer \<Rightarrow> cmd_info list \<Rightarrow> http_conn \<Rightarrow> string + http_conn" where
  "describeCommands x cmds c =
     (if \<not> buffer_created x then Inl ''Error creating the XML buffer.''
      else if \<not> writer_created x then Inl ''Error creating the XML writer.''
      else case in_order
             ([checked_write x ''document start'' StartDocument,
               \<lambda>ws. Inr (ws @ [FormatPI ''xml-stylesheet'' ''type=\"text/xsl\" href=\"?xslt\"'']),
               checked_write x ''root element start'' (StartElement ''commands'')] @
              map (xmlSerializeCommand x) cmds @
              [checked_write x ''root element end'' EndElement,
               checked_write x ''document end'' EndDocument]) [] of
             Inl msg \<Rightarrow> Inl msg
           | Inr ws \<Rightarrow> Inr (write_out (buffer_text x ws) c))"

text \<open>\<open>exist\<close> is the answer for the stylesheet, \<open>missing\<close> the stylesheet sent in its place.\<close>

definition help_perform :: "string \<Rightarrow> bool \<Rightarrow> string \<Rightarrow> xml_writer \<Rightarrow> cmd_info list \<Rightarrow> http_conn \<Rightarrow> perform_result \<times> http_conn" where
  "help_perform xslPath exist missing x cmds c =
     (if hasField ''xslt'' c
      then (let c1 = setResponseHeader ''Content-type'' ''text/xsl'' c
            in (Performed True, if exist then sendFile xslPath c1 else write_out missing c1))
      else (let c1 = setResponseHeader ''Content-type'' ''text/xml'' c
            in case describeCommands x cmds c1 of Inr c2 \<Rightarrow> (Performed True, c2) | Inl msg \<Rightarrow> (Threw msg, c1)))"

definition help_doc :: cmd_doc where
  "help_doc =
     \<lparr>description = ''This command generates description about all added commands'',
      requestDescription = ''The command handles GET parameter '' @ [CHR 0x27] @ ''xslt'' @ [CHR 0x27] @ ''. If it exists then it returns stylesheet.'',
      responseDescription = ''In case of '' @ [CHR 0x27] @ ''xslt'' @ [CHR 0x27] @ '' param it returns text/xsl stylesheet. All other cases it returns text/xml commands descriptions'',
      requestGraph = [], responseGraph = []\<rparr>"

definition HelpCommand :: "string \<Rightarrow> string \<Rightarrow> bool \<Rightarrow> string \<Rightarrow> xml_writer \<Rightarrow> rest_command" where
  "HelpCommand name xslPath exist missing x =
     \<lparr>cmd_name = name, cmd_docs = Some help_doc, perform = help_perform xslPath exist missing x\<rparr>"

definition RestAutodocHandler :: "rest_command \<Rightarrow> rest_handler" where
  "RestAutodocHandler helpCommand = addCommand helpCommand []"

section \<open>Properties\<close>

lemma find_first_command:
  "find (\<lambda>cmd. cmd_name cmd = n) rh = Some cmd \<Longrightarrow>
    cmd_name cmd = n \<and> (\<exists>xs ys. rh = xs @ cmd # ys \<and> n \<notin> cmd_name ` set xs)"
  by (induction rh) (auto split: if_splits intro: exI [of _ "[]"], metis append_Cons image_insert insert_iff list.simps(15))

text \<open>A run that succeeds and one that fails, by the laws of a connection.\<close>

lemma run_command_ok:
  assumes "perform cmd infos c = (Performed True, c1)" and "conn_ok c1" and "run_command infos cmd c = Inr (b, c2)"
  shows "b \<and> conn_error c2 = STATUS_OK \<and> responseHasHeader ''Content-type'' c2"
  using conn.reply_ok [OF assms(2), of "''Content-type''" "''application/json''" STATUS_OK] assms(1,3)
  by (auto simp: run_command_def Let_def)

lemma run_command_failed:
  assumes "perform cmd infos c = (r, c1)" and "r \<noteq> Performed True" and "run_command infos cmd c = Inr (b, c2)"
  shows "\<not> b \<and> conn_error c2 = (if conn_error c1 = 0 then STATUS_INTERNAL_ERROR else conn_error c1) \<and> conn_error c2 \<noteq> 0"
  using assms
  by (cases r) (auto simp: run_command_def Let_def conn.error_set conn.error_out
    STATUS_INTERNAL_ERROR_def split: if_splits bool.splits)

text \<open>A request for \<open>/name\<close> is handled by the first command of that name alone.  Success gives
  status 200, whatever error the command has set, and a content type; failure keeps the error of
  the command, or is 500; a name that no command has is 405.\<close>

theorem rest_handle_correct:
  assumes "path c = CHR ''/'' # n" and "rest_handle rh c = Inr (b, c2)"
    and "\<forall>cmd \<in> set rh. conn_ok (snd (perform cmd (cmd_infos rh) c))"
  shows "if n \<notin> cmd_name ` set rh then \<not> b \<and> c2 = setError STATUS_NOT_ALLOWED c
    else \<exists>xs cmd ys r c1. rh = xs @ cmd # ys \<and> n \<notin> cmd_name ` set xs \<and> cmd_name cmd = n \<and>
      perform cmd (cmd_infos rh) c = (r, c1) \<and> (b \<longleftrightarrow> r = Performed True) \<and>
      (b \<longrightarrow> conn_error c2 = STATUS_OK \<and> responseHasHeader ''Content-type'' c2) \<and>
      (\<not> b \<longrightarrow> conn_error c2 = (if conn_error c1 = 0 then STATUS_INTERNAL_ERROR else conn_error c1))"
proof (cases "find (\<lambda>cmd. cmd_name cmd = n) rh")
  case None
  then have "n \<notin> cmd_name ` set rh" by (auto simp: find_None_iff)
  with None assms(1,2) show ?thesis by (simp add: rest_handle_def substr_from_def)
next
  case (Some cmd)
  from find_first_command [OF Some] obtain xs ys where
    cmd: "cmd_name cmd = n" "rh = xs @ cmd # ys" "n \<notin> cmd_name ` set xs" by blast
  obtain r c1 where p: "perform cmd (cmd_infos rh) c = (r, c1)" by fastforce
  have run: "run_command (cmd_infos rh) cmd c = Inr (b, c2)"
    using Some assms(1,2) by (simp add: rest_handle_def substr_from_def)
  have ok: "conn_ok c1" using assms(3) cmd(2) p by auto
  have "(b \<longleftrightarrow> r = Performed True) \<and>
      (b \<longrightarrow> conn_error c2 = STATUS_OK \<and> responseHasHeader ''Content-type'' c2) \<and>
      (\<not> b \<longrightarrow> conn_error c2 = (if conn_error c1 = 0 then STATUS_INTERNAL_ERROR else conn_error c1))"
  proof (cases "r = Performed True")
    case True
    with run_command_ok [OF _ ok run] p show ?thesis by simp
  next
    case False
    with run_command_failed [OF p _ run] show ?thesis by simp
  qed
  moreover have "n \<in> cmd_name ` set rh" using cmd by auto
  ultimately show ?thesis using cmd p by auto
qed

definition echo_command :: rest_command where
  "echo_command = \<lparr>cmd_name = ''echo'', cmd_docs = None, perform = (\<lambda>_ c. (Performed True, write_out (body c) (setError 400 c)))\<rparr>"

theorem rest_handle_correct_witness:
  "\<exists>c2. rest_handle [echo_command] (new_connection ''/echo?x=1'' POST ''hi'' no_mhd) = Inr (True, c2) \<and>
    conn_error c2 = STATUS_OK \<and> responseHasHeader ''Content-type'' c2"
proof -
  let ?c = "new_connection ''/echo?x=1'' POST ''hi'' no_mhd"
  have p: "path ?c = CHR ''/'' # ''echo''" by (simp add: path_def new_connection_def)
  have ok: "\<forall>cmd \<in> set [echo_command]. conn_ok (snd (perform cmd (cmd_infos [echo_command]) ?c))"
    by (simp add: echo_command_def conn_ok_def write_out_def setError_def new_connection_def)
  obtain b c2 where h: "rest_handle [echo_command] ?c = Inr (b, c2)" and "b"
    using p by (simp add: rest_handle_def substr_from_def echo_command_def run_command_def Let_def)
  from rest_handle_correct [OF p h ok] \<open>b\<close> h show ?thesis
    by (auto simp: echo_command_def split: if_splits)
qed

lemma rest_handle_empty_path: "path c = [] \<Longrightarrow> rest_handle rh c = Inl (Thrown OutOfRange)"
  by (simp add: rest_handle_def substr_from_def)

section \<open>The document of the help command\<close>

text \<open>What a command contributes to the document.\<close>

definition command_writes :: "cmd_info \<Rightarrow> xml_write list" where
  "command_writes cmd =
     [StartElement ''command'', WriteElement ''name'' (fst cmd)] @
     (case snd cmd of
        Some d \<Rightarrow> [WriteElement ''description'' (description d), WriteElement ''request'' (requestDescription d),
                   WriteElement ''response'' (responseDescription d), WriteElement ''requestGraph'' (requestGraph d),
                   WriteElement ''responseGraph'' (responseGraph d)]
      | None \<Rightarrow> [WriteElement ''description'' ''The command is undocumented yet'']) @
     [EndElement]"

lemma in_order_append:
  "in_order (fs @ gs) s = (case in_order fs s of Inl e \<Rightarrow> Inl e | Inr s1 \<Rightarrow> in_order gs s1)"
  by (induction fs arbitrary: s) (auto split: sum.splits)

lemma checked_write_ok: "0 \<le> write_code x ws w \<Longrightarrow> checked_write x d w ws = Inr (ws @ [w])"
  by (simp add: checked_write_def checkXmlError_def)

lemma xmlSerializeCommand_ok:
  "\<forall>ws w. 0 \<le> write_code x ws w \<Longrightarrow> xmlSerializeCommand x cmd ws = Inr (ws @ command_writes cmd)"
  by (simp add: xmlSerializeCommand_def command_writes_def writeXmlElement_def checked_write_ok split: option.split)

lemma serialize_commands_ok:
  "\<forall>ws w. 0 \<le> write_code x ws w \<Longrightarrow>
    in_order (map (xmlSerializeCommand x) cmds) ws = Inr (ws @ concat (map command_writes cmds))"
  by (induction cmds arbitrary: ws) (simp_all add: xmlSerializeCommand_ok)

text \<open>The elements that are open after a list of writes; \<open>None\<close> if one is closed that is not open.\<close>

fun open_elements :: "xml_write list \<Rightarrow> string list \<Rightarrow> string list option" where
  "open_elements [] st = Some st"
| "open_elements (StartElement n # ws) st = open_elements ws (n # st)"
| "open_elements (EndElement # ws) st = (case st of [] \<Rightarrow> None | _ # st1 \<Rightarrow> open_elements ws st1)"
| "open_elements (_ # ws) st = open_elements ws st"

lemma open_elements_append:
  "open_elements (ws @ vs) st = (case open_elements ws st of None \<Rightarrow> None | Some st1 \<Rightarrow> open_elements vs st1)"
  by (induction ws st rule: open_elements.induct) (auto split: list.split option.split)

lemma open_elements_commands:
  "open_elements (concat (map command_writes cmds) @ ws) st = open_elements ws st"
  by (induction cmds) (simp_all add: command_writes_def open_elements_append split: option.split)

text \<open>When no write fails, the help command writes one document that names every command of
  the handler once, in their order, with its documentation, and closes every element it opens.\<close>

theorem help_document:
  assumes "buffer_created x" "writer_created x" and "\<forall>ws w. 0 \<le> write_code x ws w"
  shows "\<exists>ws. describeCommands x cmds c = Inr (write_out (buffer_text x ws) c) \<and> open_elements ws [] = Some [] \<and>
    [n. WriteElement k n \<leftarrow> ws, k = ''name''] = map fst cmds"
proof -
  let ?ws = "[StartDocument, FormatPI ''xml-stylesheet'' ''type=\"text/xsl\" href=\"?xslt\"'', StartElement ''commands''] @
    concat (map command_writes cmds) @ [EndElement, EndDocument]"
  have "describeCommands x cmds c = Inr (write_out (buffer_text x ?ws) c)"
    using assms by (simp add: describeCommands_def in_order_append checked_write_ok serialize_commands_ok)
  moreover have "open_elements ?ws [] = Some []"
    by (simp add: open_elements_commands)
  moreover have "[n. WriteElement k n \<leftarrow> command_writes cmd, k = ''name''] = [fst cmd]" for cmd
    by (simp add: command_writes_def split: option.split)
  then have "[n. WriteElement k n \<leftarrow> concat (map command_writes cmds), k = ''name''] = map fst cmds"
    by (induction cmds) simp_all
  then have "[n. WriteElement k n \<leftarrow> ?ws, k = ''name''] = map fst cmds" by simp
  ultimately show ?thesis by blast
qed

theorem help_document_witness:
  "\<exists>ws. describeCommands \<lparr>buffer_created = True, writer_created = True, write_code = (\<lambda>_ _. 0), buffer_text = (\<lambda>ws. [])\<rparr>
      [(''help'', Some help_doc), (''echo'', None)] (new_connection ''/help'' GET [] no_mhd) =
      Inr (write_out [] (new_connection ''/help'' GET [] no_mhd)) \<and>
    [n. WriteElement k n \<leftarrow> ws, k = ''name''] = [''help'', ''echo'']"
  using help_document [where x = "\<lparr>buffer_created = True, writer_created = True, write_code = (\<lambda>_ _. 0), buffer_text = (\<lambda>ws. [])\<rparr>"
    and cmds = "[(''help'', Some help_doc), (''echo'', None)]" and c = "new_connection ''/help'' GET [] no_mhd"] by auto

end
