(* ===== verification/Serial.thy ===== *)
theory Serial
  imports Any Containers
begin

text \<open>
  \<open>include/common/serialization/\<close>: the assemblers that walk a C++ object and write it to, or read
  it from, a document.  The abstract classes of \<open>serializers.hh\<close> and \<open>deserializers.hh\<close> are
  records of operations; a nested serializer is opened, written and put back into its parent.  An
  assembler is the record of the operations of one specialisation of \<open>ObjectAssembler\<close>, and every
  file of \<open>details/assembler_specializations/\<close> is a function from the assemblers of the parts to
  the assembler of the whole, as its template is.
\<close>

section \<open>The interfaces\<close>

text \<open>\<open>StructSerializer\<close> (state \<open>'s\<close>) and \<open>ArraySerializer\<close> (state \<open>'a\<close>); \<open>'f\<close> is the type of a
  \<open>double\<close>.  \<open>serializeStruct(name)\<close> is \<open>open_struct\<close>, the writes to the nested serializer, and
  \<open>put_struct\<close>; so are the others.  \<open>open_inner\<close> also gets the parent, because the root array of
  a document hands out itself.\<close>

record ('f, 's, 'a) writer =
  put_value :: "string \<Rightarrow> 'f cpp_value \<Rightarrow> 's \<Rightarrow> 's"
  open_struct :: 's
  put_struct :: "string \<Rightarrow> 's \<Rightarrow> 's \<Rightarrow> 's"
  open_array :: 'a
  put_array :: "string \<Rightarrow> 'a \<Rightarrow> 's \<Rightarrow> 's"
  push_value :: "'f cpp_value \<Rightarrow> 'a \<Rightarrow> 'a"
  push_empty :: "'a \<Rightarrow> 'a"
  push_struct :: "'s \<Rightarrow> 'a \<Rightarrow> 'a"
  open_inner :: "'a \<Rightarrow> 'a"
  push_array :: "'a \<Rightarrow> 'a \<Rightarrow> 'a"

text \<open>\<open>StructDeserializer\<close> and \<open>ArrayDeserializer\<close>; a null pointer is \<open>None\<close>.\<close>

record ('f, 's, 'a) reader =
  get_value :: "string \<Rightarrow> 's \<Rightarrow> (cpp_error + 'f any) \<times> 's"
  value_exists :: "string \<Rightarrow> 's \<Rightarrow> bool"
  available_names :: "'s \<Rightarrow> cpp_error + string list"
  get_struct :: "string \<Rightarrow> 's \<Rightarrow> cpp_error + 's option"
  get_array :: "string \<Rightarrow> 's \<Rightarrow> cpp_error + 'a option"
  next_value :: "'a \<Rightarrow> (cpp_error + 'f any) \<times> 'a"
  complete :: "'a \<Rightarrow> bool"
  next_exists :: "'a \<Rightarrow> cpp_error + bool"
  next_struct :: "'a \<Rightarrow> (cpp_error + 's option) \<times> 'a"
  next_array :: "'a \<Rightarrow> (cpp_error + 'a option) \<times> 'a"

text \<open>The operations every \<open>ObjectAssembler<T>\<close> has, for a node of type \<open>'n\<close>; \<open>fresh\<close> is the node
  a template declares as \<open>T value;\<close> or \<open>{}\<close>.  Writing gives the new state of the serializer;
  reading the node, or why there is none, and the state of the deserializer in either case.\<close>

record ('n, 's, 'a, 'ds, 'da) assembler =
  serializeElement :: "string \<Rightarrow> 'n \<Rightarrow> 's \<Rightarrow> 's res"
  serialize :: "'n \<Rightarrow> 'a \<Rightarrow> 'a res"
  deserializeElement :: "string \<Rightarrow> 'ds \<Rightarrow> 'n \<Rightarrow> 'n res \<times> 'ds"
  deserialize :: "'da \<Rightarrow> 'n \<Rightarrow> 'n res \<times> 'da"
  graph_of :: "string \<Rightarrow> string res"
  fresh :: 'n

text \<open>The pointer to a nested deserializer is used after an \<open>assert\<close>, or without one.\<close>

definition nested :: "cpp_error + 'x option \<Rightarrow> 'x res" where
  "nested r = (case r of Inl e \<Rightarrow> Inl (Thrown e) | Inr None \<Rightarrow> Inl (Thrown UndefinedBehaviour) | Inr (Some x) \<Rightarrow> Inr x)"

lemma nested_Some [simp]: "nested (Inr (Some x)) = Inr x"
  by (simp add: nested_def)

section \<open>Values that are one primitive\<close>

text \<open>Numbers, strings and enumerations are written with \<open>serializeValue\<close> and read from the box
  that \<open>value\<close> returns; \<open>wr\<close> is what is written, \<open>rd_el\<close> and \<open>rd\<close> read the box of an element and
  of an array entry.\<close>

definition prim_assembler :: "('f, 's, 'a) writer \<Rightarrow> ('f, 'ds, 'da) reader \<Rightarrow> ('n \<Rightarrow> cpp_error + 'f cpp_value) \<Rightarrow>
    ('f any \<Rightarrow> cpp_error + 'n) \<Rightarrow> ('f any \<Rightarrow> cpp_error + 'n) \<Rightarrow> (string \<Rightarrow> string res) \<Rightarrow> 'n \<Rightarrow>
    ('n, 's, 'a, 'ds, 'da) assembler" where
  "prim_assembler W R wr rd_el rd g z =
     \<lparr>serializeElement = (\<lambda>name v s. case wr v of Inl e \<Rightarrow> Inl (Thrown e) | Inr p \<Rightarrow> Inr (put_value W name p s)),
      serialize = (\<lambda>v a. case wr v of Inl e \<Rightarrow> Inl (Thrown e) | Inr p \<Rightarrow> Inr (push_value W p a)),
      deserializeElement = (\<lambda>name ds old. case get_value R name ds of
          (Inl e, ds1) \<Rightarrow> (Inl (Thrown e), ds1) | (Inr x, ds1) \<Rightarrow> (thrown (rd_el x), ds1)),
      deserialize = (\<lambda>da old. case next_value R da of
          (Inl e, da1) \<Rightarrow> (Inl (Thrown e), da1) | (Inr x, da1) \<Rightarrow> (thrown (rd x), da1)),
      graph_of = g, fresh = z\<rparr>"

text \<open>\<open>arithmetic.hh\<close>.  An integral type is its width and whether it is signed; \<open>serializeValue\<close>
  widens to 64 bits, \<open>extractCorrectValueOfType\<close> narrows with a check.\<close>

definition int_min :: "nat \<Rightarrow> bool \<Rightarrow> int" where "int_min bits sgnd = (if sgnd then - (2 ^ (bits - 1)) else 0)"
definition int_max :: "nat \<Rightarrow> bool \<Rightarrow> int" where "int_max bits sgnd = (if sgnd then 2 ^ (bits - 1) - 1 else 2 ^ bits - 1)"

definition extract_int :: "nat \<Rightarrow> bool \<Rightarrow> 'f any \<Rightarrow> cpp_error + int" where
  "extract_int bits sgnd x =
     (if any_type x = TyInt64
      then (case any_cast TyInt64 x of
              Inr (VInt64 v) \<Rightarrow>
                if \<not> sgnd
                then (if v < 0 then Inl OutOfRange else if v > int_max bits sgnd then Inl OutOfRange else Inr v)
                else (if v < int_min bits sgnd then Inl OutOfRange
                      else if v > int_max bits sgnd then Inl OutOfRange else Inr v)
            | _ \<Rightarrow> Inl BadCast)
      else if any_type x = TyUInt64
      then (case any_cast TyUInt64 x of
              Inr (VUInt64 v) \<Rightarrow> if v > int_max bits sgnd then Inl OutOfRange else Inr v
            | _ \<Rightarrow> Inl BadCast)
      else Inl LogicError)"

definition extract_bool :: "'f any \<Rightarrow> cpp_error + bool" where
  "extract_bool x = (case any_cast TyBool x of Inr (VBool b) \<Rightarrow> Inr b | _ \<Rightarrow> Inl BadCast)"

text \<open>The conversions of a floating-point type \<open>'x\<close> to and from \<open>double\<close> and from the integers are
  those of the hardware.\<close>

record ('f, 'x) float_conv =
  to_double :: "'x \<Rightarrow> 'f"
  from_double :: "'f \<Rightarrow> 'x"
  from_int :: "int \<Rightarrow> 'x"
  float_zero :: 'x

definition extract_float :: "('f, 'x) float_conv \<Rightarrow> 'f any \<Rightarrow> cpp_error + 'x" where
  "extract_float fc x =
     (case any_cast TyDouble x of
        Inr (VDouble d) \<Rightarrow> Inr (from_double fc d)
      | _ \<Rightarrow> (case any_cast TyUInt64 x of
               Inr (VUInt64 v) \<Rightarrow> Inr (from_int fc v)
             | _ \<Rightarrow> (case any_cast TyInt64 x of Inr (VInt64 v) \<Rightarrow> Inr (from_int fc v) | _ \<Rightarrow> Inl BadCast)))"

text \<open>\<open>deserializeElement\<close> first checks that the node was provided.\<close>

definition provided :: "('f any \<Rightarrow> cpp_error + 'n) \<Rightarrow> 'f any \<Rightarrow> cpp_error + 'n" where
  "provided rd x = (if \<not> any_has_value x then Inl LogicError else rd x)"

definition note_shape :: "string \<Rightarrow> string \<Rightarrow> string res" where
  "note_shape label name = Inr (name @ '' [shape=note,label=<<I>'' @ label @ ''</I>>, height=0];'')"

definition int_assembler :: "('f, 's, 'a) writer \<Rightarrow> ('f, 'ds, 'da) reader \<Rightarrow> nat \<Rightarrow> bool \<Rightarrow> (int, 's, 'a, 'ds, 'da) assembler" where
  "int_assembler W R bits sgnd =
     prim_assembler W R (\<lambda>v. Inr (if sgnd then VInt64 v else VUInt64 v))
       (provided (extract_int bits sgnd)) (extract_int bits sgnd)
       (note_shape (if sgnd then ''signed<BR/>arithmetic'' else ''unsigned<BR/>arithmetic'')) 0"

definition bool_assembler :: "('f, 's, 'a) writer \<Rightarrow> ('f, 'ds, 'da) reader \<Rightarrow> (bool, 's, 'a, 'ds, 'da) assembler" where
  "bool_assembler W R =
     prim_assembler W R (\<lambda>v. Inr (VBool v)) (provided extract_bool) extract_bool
       (note_shape ''boolean<BR/>true or false'') False"

definition float_assembler :: "('f, 's, 'a) writer \<Rightarrow> ('f, 'ds, 'da) reader \<Rightarrow> ('f, 'x) float_conv \<Rightarrow>
    ('x, 's, 'a, 'ds, 'da) assembler" where
  "float_assembler W R fc =
     prim_assembler W R (\<lambda>v. Inr (VDouble (to_double fc v))) (provided (extract_float fc)) (extract_float fc)
       (note_shape ''floating-point<BR/>arithmetic'') (float_zero fc)"

text \<open>\<open>string.hh\<close>\<close>

definition extract_string :: "'f any \<Rightarrow> cpp_error + string" where
  "extract_string x = (case any_cast TyString x of Inr (VString s) \<Rightarrow> Inr s | _ \<Rightarrow> Inl BadCast)"

definition string_assembler :: "('f, 's, 'a) writer \<Rightarrow> ('f, 'ds, 'da) reader \<Rightarrow> (string, 's, 'a, 'ds, 'da) assembler" where
  "string_assembler W R =
     prim_assembler W R (\<lambda>v. Inr (VString v)) extract_string extract_string (note_shape ''string'') []"

text \<open>\<open>enum.hh\<close>: the names are a \<open>std::map\<close>; a value is written as the first name it has, in the
  order of the names.\<close>

definition enum_define :: "string \<Rightarrow> int \<Rightarrow> (string, int) omap \<Rightarrow> cpp_error + (string, int) omap" where
  "enum_define name v m = (if map_of m name \<noteq> None then Inl LogicError else Inr (omap_set name v m))"

definition findEnumValueName :: "(string, int) omap \<Rightarrow> int \<Rightarrow> cpp_error + string" where
  "findEnumValueName m v = (case find (\<lambda>(_, w). w = v) m of Some (n, _) \<Rightarrow> Inr n | None \<Rightarrow> Inl RuntimeError)"

definition assignEnumValueByName :: "(string, int) omap \<Rightarrow> 'f any \<Rightarrow> cpp_error + int" where
  "assignEnumValueByName m x =
     (case extract_string x of
        Inl e \<Rightarrow> Inl e
      | Inr n \<Rightarrow> (case map_of m n of Some v \<Rightarrow> Inr v | None \<Rightarrow> Inl RuntimeError))"

fun join_br :: "string list \<Rightarrow> string" where
  "join_br [] = []"
| "join_br [n] = n"
| "join_br (n # ns) = n @ ''<BR/>'' @ join_br ns"

definition enum_graph :: "(string, int) omap \<Rightarrow> string \<Rightarrow> string res" where
  "enum_graph m name =
     (if m = [] then Inl (Thrown RuntimeError)
      else Inr (name @ '' [shape=plaintext, style=\"\" ,'' @
        ''label=<<TABLE BORDER=\"0\" CELLBORDER=\"1\" CELLSPACING=\"0\" BGCOLOR=\"lightgray\" CELLPADDING=\"3\">'' @
        ''<TR><TD PORT=\"name\"><B>ENUM</B></TD></TR>'' @
        ''<TR><TD>'' @ join_br (map fst m) @ ''</TD></TR>'' @ ''</TABLE>>];''))"

definition enum_assembler :: "('f, 's, 'a) writer \<Rightarrow> ('f, 'ds, 'da) reader \<Rightarrow> (string, int) omap \<Rightarrow>
    (int, 's, 'a, 'ds, 'da) assembler" where
  "enum_assembler W R m =
     prim_assembler W R (\<lambda>v. map_sum id VString (findEnumValueName m v))
       (assignEnumValueByName m) (assignEnumValueByName m) (enum_graph m) 0"

section \<open>Containers of values\<close>

text \<open>Lists, tuples and maps are arrays: they are written to and read from a nested array, of which
  \<open>null_el\<close> is the error when an element is null.\<close>

definition array_assembler :: "('f, 's, 'a) writer \<Rightarrow> ('f, 'ds, 'da) reader \<Rightarrow> cpp_error \<Rightarrow>
    ('n \<Rightarrow> 'a \<Rightarrow> 'a res) \<Rightarrow> ('da \<Rightarrow> 'n \<Rightarrow> 'n res) \<Rightarrow> (string \<Rightarrow> string res) \<Rightarrow> 'n \<Rightarrow> ('n, 's, 'a, 'ds, 'da) assembler" where
  "array_assembler W R null_el wr rd g z =
     \<lparr>serializeElement = (\<lambda>name v s. case wr v (open_array W) of
          Inl e \<Rightarrow> Inl e | Inr c \<Rightarrow> Inr (put_array W name c s)),
      serialize = (\<lambda>v a. case wr v (open_inner W a) of
          Inl e \<Rightarrow> Inl e | Inr c \<Rightarrow> Inr (push_array W c a)),
      deserializeElement = (\<lambda>name ds old. case get_array R name ds of
          Inl e \<Rightarrow> (Inl (Thrown e), ds)
        | Inr None \<Rightarrow> (Inl (Thrown null_el), ds)
        | Inr (Some da) \<Rightarrow> (rd da old, ds)),
      deserialize = (\<lambda>da old. case next_array R da of
          (r, da1) \<Rightarrow> (case nested r of Inl e \<Rightarrow> (Inl e, da1) | Inr c \<Rightarrow> (rd c old, da1))),
      graph_of = g, fresh = z\<rparr>"

text \<open>\<open>list_or_vector.hh\<close>.  The loop of \<open>deserializeArray\<close> runs until the deserializer is complete;
  it may run for ever, so it has fuel.\<close>

fun ser_each :: "('n \<Rightarrow> 'a \<Rightarrow> 'a res) \<Rightarrow> 'n list \<Rightarrow> 'a \<Rightarrow> 'a res" where
  "ser_each f [] a = Inr a"
| "ser_each f (v # vs) a = (case f v a of Inl e \<Rightarrow> Inl e | Inr a1 \<Rightarrow> ser_each f vs a1)"

fun de_each :: "nat \<Rightarrow> ('f, 'ds, 'da) reader \<Rightarrow> ('n, 's, 'a, 'ds, 'da) assembler \<Rightarrow> 'da \<Rightarrow> 'n list \<Rightarrow> 'n list res" where
  "de_each fuel R A da acc =
     (if complete R da then Inr acc
      else case fuel of
             0 \<Rightarrow> Inl Endless
           | Suc n \<Rightarrow> (case deserialize A da (fresh A) of
               (Inr v, da1) \<Rightarrow> de_each n R A da1 (acc @ [v])
             | (Inl e, da1) \<Rightarrow> Inl (if catches e then Thrown ParseException else e)))"

declare de_each.simps [simp del]

definition list_graph :: "(string \<Rightarrow> string res) \<Rightarrow> string \<Rightarrow> string res" where
  "list_graph g name =
     (let child = name @ ''_array''
      in case g child of Inl e \<Rightarrow> Inl e | Inr text \<Rightarrow>
        Inr (''subgraph cluster_array_'' @ name @ ''{rank = same;  bgcolor=\"#ffffffff\";'' @
          name @ '' [shape=plaintext, style=\"\", label=<<B>ARRAY</B>>];'' @
          name @ '' -> '' @ child @ '':name;'' @ text @ ''};''))"

definition list_assembler :: "nat \<Rightarrow> ('f, 's, 'a) writer \<Rightarrow> ('f, 'ds, 'da) reader \<Rightarrow>
    ('n, 's, 'a, 'ds, 'da) assembler \<Rightarrow> ('n list, 's, 'a, 'ds, 'da) assembler" where
  "list_assembler fuel W R A =
     array_assembler W R ParseException (ser_each (serialize A)) (\<lambda>da old. de_each fuel R A da [])
       (list_graph (graph_of A)) []"

text \<open>\<open>optional.hh\<close>.  An optional that is read never throws an exception: the handler makes it
  empty, and in an array takes a value of the deserializer, whatever the failed read took.\<close>

definition optional_graph :: "(string \<Rightarrow> string res) \<Rightarrow> string \<Rightarrow> string res" where
  "optional_graph g name =
     (let child = name @ ''_opt''
      in case g child of Inl e \<Rightarrow> Inl e | Inr text \<Rightarrow>
        Inr (''subgraph cluster_optional_'' @ name @ ''{rank = same;  bgcolor=\"#ffffffff\";'' @
          name @ '' [shape=plaintext, style=\"\", label=<<B>OPTIONAL</B>>];'' @
          name @ '' -> '' @ child @ '':name;'' @ text @ ''};''))"

definition skip_value :: "('f, 'ds, 'da) reader \<Rightarrow> 'da \<Rightarrow> 'n option res \<times> 'da" where
  "skip_value R da = (case next_value R da of (Inl e, da1) \<Rightarrow> (Inl (Thrown e), da1) | (Inr x, da1) \<Rightarrow> (Inr None, da1))"

definition optional_assembler :: "('f, 's, 'a) writer \<Rightarrow> ('f, 'ds, 'da) reader \<Rightarrow>
    ('n, 's, 'a, 'ds, 'da) assembler \<Rightarrow> ('n option, 's, 'a, 'ds, 'da) assembler" where
  "optional_assembler W R A =
     \<lparr>serializeElement = (\<lambda>name v s. case v of Some x \<Rightarrow> serializeElement A name x s | None \<Rightarrow> Inr s),
      serialize = (\<lambda>v a. case v of Some x \<Rightarrow> serialize A x a | None \<Rightarrow> Inr (push_empty W a)),
      deserializeElement = (\<lambda>name ds old.
          if value_exists R name ds
          then (case deserializeElement A name ds (fresh A) of
                  (Inr x, ds1) \<Rightarrow> (Inr (Some x), ds1)
                | (Inl e, ds1) \<Rightarrow> (if catches e then Inr None else Inl e, ds1))
          else (Inr None, ds)),
      deserialize = (\<lambda>da old. case next_exists R da of
          Inl e \<Rightarrow> (Inl (Thrown e), da)
        | Inr True \<Rightarrow> (case deserialize A da (fresh A) of
              (Inr x, da1) \<Rightarrow> (Inr (Some x), da1)
            | (Inl e, da1) \<Rightarrow> if catches e then skip_value R da1 else (Inl e, da1))
        | Inr False \<Rightarrow> skip_value R da),
      graph_of = optional_graph (graph_of A), fresh = None\<rparr>"

text \<open>\<open>tuple.hh\<close>.  An element is read and written through \<open>std::get<N>\<close>.\<close>

record ('n, 'a, 'da) tuple_element =
  el_serialize :: "'n \<Rightarrow> 'a \<Rightarrow> 'a res"
  el_deserialize :: "'da \<Rightarrow> 'n \<Rightarrow> 'n res \<times> 'da"

definition std_get :: "('x, 's, 'a, 'ds, 'da) assembler \<Rightarrow> ('n \<Rightarrow> 'x) \<Rightarrow> ('x \<Rightarrow> 'n \<Rightarrow> 'n) \<Rightarrow> ('n, 'a, 'da) tuple_element" where
  "std_get A get put =
     \<lparr>el_serialize = (\<lambda>v. serialize A (get v)),
      el_deserialize = (\<lambda>da old. case deserialize A da (get old) of
          (Inr x, da1) \<Rightarrow> (Inr (put x old), da1) | (Inl e, da1) \<Rightarrow> (Inl e, da1))\<rparr>"

fun serializeTupleElements :: "('n, 'a, 'da) tuple_element list \<Rightarrow> 'n \<Rightarrow> 'a \<Rightarrow> 'a res" where
  "serializeTupleElements [] v a = Inr a"
| "serializeTupleElements (e # es) v a =
     (case el_serialize e v a of Inl x \<Rightarrow> Inl x | Inr a1 \<Rightarrow> serializeTupleElements es v a1)"

fun deserializeTupleElements :: "('n, 'a, 'da) tuple_element list \<Rightarrow> 'da \<Rightarrow> 'n \<Rightarrow> 'n res" where
  "deserializeTupleElements [] da v = Inr v"
| "deserializeTupleElements (e # es) da v =
     (case el_deserialize e da v of (Inl x, da1) \<Rightarrow> Inl x | (Inr v1, da1) \<Rightarrow> deserializeTupleElements es da1 v1)"

definition tuple_assembler :: "('f, 's, 'a) writer \<Rightarrow> ('f, 'ds, 'da) reader \<Rightarrow>
    ('n, 'a, 'da) tuple_element list \<Rightarrow> 'n \<Rightarrow> ('n, 's, 'a, 'ds, 'da) assembler" where
  "tuple_assembler W R es z =
     array_assembler W R UndefinedBehaviour (serializeTupleElements es) (deserializeTupleElements es)
       (note_shape ''string'') z"

text \<open>\<open>maps.hh\<close>: a map with other keys than strings is an array of structures with a key and a
  value, put into the map that is there; a map with string keys, which is cleared, an array of
  structures with one element.\<close>

definition cKeyName :: string where "cKeyName = ''__mapKey__''"
definition cValueName :: string where "cValueName = ''__mapValue__''"

definition map_graph :: "(string \<Rightarrow> string res) \<Rightarrow> (string \<Rightarrow> string res) \<Rightarrow> string \<Rightarrow> string res" where
  "map_graph gk gv name =
     (let key = name @ ''_mapKey''; val = name @ ''_mapValue''
      in case gk key of Inl e \<Rightarrow> Inl e | Inr ktext \<Rightarrow> (case gv val of Inl e \<Rightarrow> Inl e | Inr vtext \<Rightarrow>
        Inr (name @ '' [shape=plaintext, style=\"\", '' @
          ''label=<<TABLE BORDER=\"0\" CELLBORDER=\"1\" CELLSPACING=\"0\" BGCOLOR=\"lightgray\" CELLPADDING=\"3\">'' @
          ''<TR><TD PORT=\"name\"><B>MAP</B></TD></TR>'' @ ''<TR><TD PORT=\"key\">key</TD></TR>'' @
          ''<TR><TD PORT=\"value\">value</TD></TR>'' @ ''</TABLE>>];'' @
          name @ '':key -> '' @ key @ '';'' @ ktext @ name @ '':value -> '' @ val @ '';'' @ vtext)))"

fun ser_pairs :: "('f, 's, 'a) writer \<Rightarrow> ('k, 's, 'a, 'ds, 'da) assembler \<Rightarrow> ('v, 's, 'a, 'ds, 'da) assembler \<Rightarrow>
    ('k \<times> 'v) list \<Rightarrow> 'a \<Rightarrow> 'a res" where
  "ser_pairs W K V [] a = Inr a"
| "ser_pairs W K V ((k, v) # m) a =
     (case serializeElement K cKeyName k (open_struct W) of
        Inl e \<Rightarrow> Inl e
      | Inr s1 \<Rightarrow> (case serializeElement V cValueName v s1 of
                    Inl e \<Rightarrow> Inl e
                  | Inr s2 \<Rightarrow> ser_pairs W K V m (push_struct W s2 a)))"

fun de_pairs :: "nat \<Rightarrow> ('f, 'ds, 'da) reader \<Rightarrow> ('k::linorder, 's, 'a, 'ds, 'da) assembler \<Rightarrow>
    ('v, 's, 'a, 'ds, 'da) assembler \<Rightarrow> 'da \<Rightarrow> ('k, 'v) omap \<Rightarrow> ('k, 'v) omap res" where
  "de_pairs fuel R K V da m =
     (if complete R da then Inr m
      else case fuel of
             0 \<Rightarrow> Inl Endless
           | Suc n \<Rightarrow> (case next_struct R da of (r, da1) \<Rightarrow> (case nested r of
               Inl e \<Rightarrow> Inl e
             | Inr ds \<Rightarrow> (case deserializeElement K cKeyName ds (fresh K) of
                 (Inl e, ds1) \<Rightarrow> Inl e
               | (Inr k, ds1) \<Rightarrow> (case deserializeElement V cValueName ds1 (fresh V) of
                   (Inl e, ds2) \<Rightarrow> Inl e
                 | (Inr v, ds2) \<Rightarrow> de_pairs n R K V da1 (omap_set k v m))))))"

declare de_pairs.simps [simp del]

definition map_assembler :: "nat \<Rightarrow> ('f, 's, 'a) writer \<Rightarrow> ('f, 'ds, 'da) reader \<Rightarrow>
    ('k::linorder, 's, 'a, 'ds, 'da) assembler \<Rightarrow> ('v, 's, 'a, 'ds, 'da) assembler \<Rightarrow>
    (('k, 'v) omap, 's, 'a, 'ds, 'da) assembler" where
  "map_assembler fuel W R K V =
     array_assembler W R UndefinedBehaviour (ser_pairs W K V) (de_pairs fuel R K V)
       (map_graph (graph_of K) (graph_of V)) []"

definition strmap_graph :: "(string \<Rightarrow> string res) \<Rightarrow> string \<Rightarrow> string res" where
  "strmap_graph g name =
     (let val = name @ ''_mapValue''
      in case g val of Inl e \<Rightarrow> Inl e | Inr text \<Rightarrow>
        Inr (name @ '' [shape=plaintext, style=\"\", '' @
          ''label=<<TABLE BORDER=\"0\" CELLBORDER=\"1\" CELLSPACING=\"0\" BGCOLOR=\"lightgray\" CELLPADDING=\"3\">'' @
          ''<TR><TD PORT=\"name\"><B>HASHMAP</B></TD></TR>'' @ ''<TR><TD><I>string</I></TD></TR>'' @
          ''<TR><TD PORT=\"value\">value</TD></TR>'' @ ''</TABLE>>];'' @
          name @ '':value -> '' @ val @ '':name;'' @ text))"

fun ser_entries :: "('f, 's, 'a) writer \<Rightarrow> ('v, 's, 'a, 'ds, 'da) assembler \<Rightarrow> (string \<times> 'v) list \<Rightarrow> 'a \<Rightarrow> 'a res" where
  "ser_entries W V [] a = Inr a"
| "ser_entries W V ((k, v) # m) a =
     (case serializeElement V k v (open_struct W) of
        Inl e \<Rightarrow> Inl e | Inr s1 \<Rightarrow> ser_entries W V m (push_struct W s1 a))"

fun de_keys :: "('v, 's, 'a, 'ds, 'da) assembler \<Rightarrow> string list \<Rightarrow> 'ds \<Rightarrow> (string, 'v) omap \<Rightarrow> (string, 'v) omap res" where
  "de_keys V [] ds m = Inr m"
| "de_keys V (k # ks) ds m =
     (case deserializeElement V k ds (fresh V) of
        (Inl e, ds1) \<Rightarrow> Inl e | (Inr v, ds1) \<Rightarrow> de_keys V ks ds1 (omap_set k v m))"

fun de_entries :: "nat \<Rightarrow> ('f, 'ds, 'da) reader \<Rightarrow> ('v, 's, 'a, 'ds, 'da) assembler \<Rightarrow> 'da \<Rightarrow>
    (string, 'v) omap \<Rightarrow> (string, 'v) omap res" where
  "de_entries fuel R V da m =
     (if complete R da then Inr m
      else case fuel of
             0 \<Rightarrow> Inl Endless
           | Suc n \<Rightarrow> (case next_struct R da of (r, da1) \<Rightarrow> (case nested r of
               Inl e \<Rightarrow> Inl e
             | Inr ds \<Rightarrow> (case available_names R ds of
                 Inl e \<Rightarrow> Inl (Thrown e)
               | Inr ks \<Rightarrow> (case de_keys V ks ds m of Inl e \<Rightarrow> Inl e | Inr m1 \<Rightarrow> de_entries n R V da1 m1)))))"

declare de_entries.simps [simp del]

definition strmap_assembler :: "nat \<Rightarrow> ('f, 's, 'a) writer \<Rightarrow> ('f, 'ds, 'da) reader \<Rightarrow>
    ('v, 's, 'a, 'ds, 'da) assembler \<Rightarrow> ((string, 'v) omap, 's, 'a, 'ds, 'da) assembler" where
  "strmap_assembler fuel W R V =
     array_assembler W R UndefinedBehaviour (ser_entries W V) (\<lambda>da old. de_entries fuel R V da [])
       (strmap_graph (graph_of V)) []"

section \<open>Structures\<close>

text \<open>\<open>BaseMember\<close> and the three classes that implement it, nested in \<open>ObjectAssembler\<close>.  A pointer
  to a member is a pair of functions; its identity, which \<open>define\<close> and the partial operations
  compare, is a number, and an ancestor has none.\<close>

record ('r, 's, 'ds) base_member =
  m_name :: string
  m_ptr :: "nat option"
  m_serialize :: "'r \<Rightarrow> 's \<Rightarrow> 's res"
  m_deserialize :: "'ds \<Rightarrow> 'r \<Rightarrow> 'r res \<times> 'ds"
  m_graph :: "string \<Rightarrow> string res"

text \<open>\<open>TypedMember::deserialize\<close> turns every exception into a \<open>ParseException\<close>.\<close>

definition typed_member :: "string \<Rightarrow> nat \<Rightarrow> ('x, 's, 'a, 'ds, 'da) assembler \<Rightarrow> ('r \<Rightarrow> 'x) \<Rightarrow> ('x \<Rightarrow> 'r \<Rightarrow> 'r) \<Rightarrow>
    ('r, 's, 'ds) base_member" where
  "typed_member name p A get put =
     \<lparr>m_name = name, m_ptr = Some p,
      m_serialize = (\<lambda>r. serializeElement A name (get r)),
      m_deserialize = (\<lambda>ds r. case deserializeElement A name ds (get r) of
          (Inr x, ds1) \<Rightarrow> (Inr (put x r), ds1)
        | (Inl e, ds1) \<Rightarrow> (Inl (if catches e then Thrown ParseException else e), ds1)),
      m_graph = graph_of A\<rparr>"

text \<open>\<open>CustomTypeMember\<close>: \<open>A\<close> assembles the custom type.\<close>

definition custom_member :: "string \<Rightarrow> nat \<Rightarrow> ('c, 's, 'a, 'ds, 'da) assembler \<Rightarrow> ('x \<Rightarrow> 'c) \<Rightarrow> ('c \<Rightarrow> 'x) \<Rightarrow>
    (string \<Rightarrow> string res) \<Rightarrow> ('r \<Rightarrow> 'x) \<Rightarrow> ('x \<Rightarrow> 'r \<Rightarrow> 'r) \<Rightarrow> ('r, 's, 'ds) base_member" where
  "custom_member name p A toCustom fromCustom g get put =
     \<lparr>m_name = name, m_ptr = Some p,
      m_serialize = (\<lambda>r. serializeElement A name (toCustom (get r))),
      m_deserialize = (\<lambda>ds r. case deserializeElement A name ds (fresh A) of
          (Inr x, ds1) \<Rightarrow> (Inr (put (fromCustom x) r), ds1) | (Inl e, ds1) \<Rightarrow> (Inl e, ds1)),
      m_graph = g\<rparr>"

text \<open>\<open>serialize(StructSerializer &)\<close> and \<open>deserialize(StructDeserializer &)\<close>: the members in the order
  of their definition.\<close>

fun struct_write :: "('r, 's, 'ds) base_member list \<Rightarrow> 'r \<Rightarrow> 's \<Rightarrow> 's res" where
  "struct_write [] r s = Inr s"
| "struct_write (m # ms) r s = (case m_serialize m r s of Inl e \<Rightarrow> Inl e | Inr s1 \<Rightarrow> struct_write ms r s1)"

fun struct_read :: "('r, 's, 'ds) base_member list \<Rightarrow> 'ds \<Rightarrow> 'r \<Rightarrow> 'r res \<times> 'ds" where
  "struct_read [] ds r = (Inr r, ds)"
| "struct_read (m # ms) ds r =
     (case m_deserialize m ds r of (Inl e, ds1) \<Rightarrow> (Inl e, ds1) | (Inr r1, ds1) \<Rightarrow> struct_read ms ds1 r1)"

text \<open>The table of a structure, and the lines to the graphs of its members.\<close>

fun graph_rows :: "nat \<Rightarrow> ('r, 's, 'ds) base_member list \<Rightarrow> string" where
  "graph_rows i [] = []"
| "graph_rows i (m # ms) =
     ''<TR><TD PORT=\"member'' @ show_int (int i) @ ''\">'' @ m_name m @ ''</TD></TR>'' @ graph_rows (Suc i) ms"

fun graph_lines :: "string \<Rightarrow> nat \<Rightarrow> ('r, 's, 'ds) base_member list \<Rightarrow> string res" where
  "graph_lines name i [] = Inr []"
| "graph_lines name i (m # ms) =
     (let child = name @ ''_'' @ m_name m
      in case m_graph m child of Inl e \<Rightarrow> Inl e | Inr text \<Rightarrow> (case graph_lines name (Suc i) ms of Inl e \<Rightarrow> Inl e
         | Inr lines \<Rightarrow> Inr (name @ '':member'' @ show_int (int i) @ '' -> '' @ child @ '':name;'' @ text @ lines)))"

definition struct_graph :: "('r, 's, 'ds) base_member list \<Rightarrow> string \<Rightarrow> string res" where
  "struct_graph ms name =
     (case graph_lines name 0 ms of Inl e \<Rightarrow> Inl e | Inr lines \<Rightarrow>
        Inr (name @ '' [shape=plaintext, style=\"\", '' @
          ''label=<<TABLE BORDER=\"0\" BGCOLOR=\"lightgray\" CELLPADDING=\"3\" CELLBORDER=\"1\" CELLSPACING=\"0\">'' @
          ''<TR><TD PORT=\"name\"><B>STRUCT</B></TD></TR>'' @ graph_rows 0 ms @ ''</TABLE>>];'' @ lines))"

definition root_graph :: "('r, 's, 'ds) base_member list \<Rightarrow> string res" where
  "root_graph ms =
     (case struct_graph ms ''root'' of Inl e \<Rightarrow> Inl e | Inr text \<Rightarrow>
        Inr (''digraph struct {rankdir=LR; bgcolor=\"#ffffff00\"; '' @
          ''node [fontname=\"sans\", fontsize=\"10\", fillcolor=\"#FFFF0000\", style=\"filled\", '' @
          ''margin=\"0.1\"];'' @ text @ ''}''))"

definition ancestor :: "string \<Rightarrow> ('b, 's, 'ds) base_member list \<Rightarrow> ('r \<Rightarrow> 'b) \<Rightarrow> ('b \<Rightarrow> 'r \<Rightarrow> 'r) \<Rightarrow>
    ('r, 's, 'ds) base_member" where
  "ancestor name ms get put =
     \<lparr>m_name = name, m_ptr = None,
      m_serialize = (\<lambda>r. struct_write ms (get r)),
      m_deserialize = (\<lambda>ds r. case struct_read ms ds (get r) of
          (Inr x, ds1) \<Rightarrow> (Inr (put x r), ds1) | (Inl e, ds1) \<Rightarrow> (Inl e, ds1)),
      m_graph = struct_graph ms\<rparr>"

text \<open>\<open>define\<close> refuses a name or a pointer that is there already; \<open>defineAs\<close> and \<open>extend\<close> do not.\<close>

definition define_member :: "('r, 's, 'ds) base_member \<Rightarrow> ('r, 's, 'ds) base_member list \<Rightarrow>
    cpp_error + ('r, 's, 'ds) base_member list" where
  "define_member m ms =
     (if \<exists>q \<in> set ms. m_name q = m_name m \<or> m_ptr q = m_ptr m then Inl LogicError else Inr (ms @ [m]))"

definition add_member :: "('r, 's, 'ds) base_member \<Rightarrow> ('r, 's, 'ds) base_member list \<Rightarrow> ('r, 's, 'ds) base_member list" where
  "add_member m ms = ms @ [m]"

definition struct_assembler :: "('f, 's, 'a) writer \<Rightarrow> ('f, 'ds, 'da) reader \<Rightarrow>
    ('r, 's, 'ds) base_member list \<Rightarrow> 'r \<Rightarrow> ('r, 's, 'a, 'ds, 'da) assembler" where
  "struct_assembler W R ms z =
     \<lparr>serializeElement = (\<lambda>name r s. case struct_write ms r (open_struct W) of
          Inl e \<Rightarrow> Inl e | Inr c \<Rightarrow> Inr (put_struct W name c s)),
      serialize = (\<lambda>r a. case struct_write ms r (open_struct W) of
          Inl e \<Rightarrow> Inl e | Inr c \<Rightarrow> Inr (push_struct W c a)),
      deserializeElement = (\<lambda>name ds old. case nested (get_struct R name ds) of
          Inl e \<Rightarrow> (Inl e, ds) | Inr d \<Rightarrow> (fst (struct_read ms d old), ds)),
      deserialize = (\<lambda>da old. case next_struct R da of
          (r, da1) \<Rightarrow> (case nested r of Inl e \<Rightarrow> (Inl e, da1) | Inr d \<Rightarrow> (fst (struct_read ms d old), da1))),
      graph_of = struct_graph ms, fresh = z\<rparr>"

text \<open>\<open>partialSerialize\<close> and \<open>partialDeserialize\<close> handle the members with the given pointers.\<close>

fun partialSerialize :: "('r, 's, 'ds) base_member list \<Rightarrow> nat list \<Rightarrow> 'r \<Rightarrow> 's \<Rightarrow> 's res" where
  "partialSerialize ms [] r s = Inr s"
| "partialSerialize ms (p # ps) r s =
     (case find (\<lambda>m. m_ptr m = Some p) ms of
        None \<Rightarrow> Inl (Thrown LogicError)
      | Some m \<Rightarrow> (case m_serialize m r s of Inl e \<Rightarrow> Inl e | Inr s1 \<Rightarrow> partialSerialize ms ps r s1))"

fun partialDeserialize :: "('r, 's, 'ds) base_member list \<Rightarrow> nat list \<Rightarrow> 'ds \<Rightarrow> 'r \<Rightarrow> 'r res \<times> 'ds" where
  "partialDeserialize ms [] ds r = (Inr r, ds)"
| "partialDeserialize ms (p # ps) ds r =
     (case find (\<lambda>m. m_ptr m = Some p) ms of
        None \<Rightarrow> (Inl (Thrown LogicError), ds)
      | Some m \<Rightarrow> (case m_deserialize m ds r of
                    (Inl e, ds1) \<Rightarrow> (Inl e, ds1) | (Inr r1, ds1) \<Rightarrow> partialDeserialize ms ps ds1 r1))"

end
