(* ===== verification/SerialCodec.thy ===== *)
theory SerialCodec
  imports Serial
begin

text \<open>
  What the serializers promise and what follows for the assemblers.  An abstract document is a tree
  of \<open>item\<close>s.  The locale \<open>archive\<close> relates the states of a pair of a writer and a reader to
  abstract documents: a write adds one item, a read finds it again.  Inside it every assembler is
  shown to read back what it has written, from the same fact about its parts.
\<close>

section \<open>Abstract documents\<close>

datatype 'f item =
    IVal "'f cpp_value"
  | IStruct "string \<Rightarrow> 'f item option"
  | IArray "'f item list"
  | IEmpty

text \<open>Which items an array entry takes for null: the empty one, and, in a format without a null,
  structures and arrays with nothing in them.\<close>

fun nullish :: "bool \<Rightarrow> 'f item \<Rightarrow> bool" where
  "nullish en IEmpty = True"
| "nullish en (IVal p) = False"
| "nullish en (IStruct f) = (en \<and> f = Map.empty)"
| "nullish en (IArray its) = (en \<and> its = [])"

section \<open>Values that survive\<close>

record 'n spec =
  fits :: "'n \<Rightarrow> bool"
  ok_el :: "'n \<Rightarrow> bool"
  ok_ar :: "'n \<Rightarrow> bool"
  sol_el :: "'n \<Rightarrow> bool"
  sol_ar :: "'n \<Rightarrow> bool"

definition prim_spec :: "('n \<Rightarrow> bool) \<Rightarrow> 'n spec" where
  "prim_spec ok = \<lparr>fits = \<lambda>_. True, ok_el = ok, ok_ar = ok, sol_el = \<lambda>_. True, sol_ar = \<lambda>_. True\<rparr>"

definition opt_spec :: "'n spec \<Rightarrow> 'n option spec" where
  "opt_spec S =
     \<lparr>fits = \<lambda>_. True,
      ok_el = (\<lambda>v. case v of None \<Rightarrow> True | Some x \<Rightarrow> ok_el S x \<and> sol_el S x),
      ok_ar = (\<lambda>v. case v of None \<Rightarrow> True | Some x \<Rightarrow> ok_ar S x \<and> sol_ar S x),
      sol_el = (\<lambda>v. v \<noteq> None), sol_ar = (\<lambda>v. v \<noteq> None)\<rparr>"

text \<open>\<open>en\<close>: the format takes an empty array or structure for null.\<close>

definition comp_spec :: "bool \<Rightarrow> ('n \<Rightarrow> bool) \<Rightarrow> ('n \<Rightarrow> bool) \<Rightarrow> ('n \<Rightarrow> bool) \<Rightarrow> 'n spec" where
  "comp_spec en ft ok sol = \<lparr>fits = ft, ok_el = ok, ok_ar = ok, sol_el = \<lambda>_. True, sol_ar = (\<lambda>v. \<not> en \<or> sol v)\<rparr>"

definition list_spec :: "bool \<Rightarrow> nat \<Rightarrow> 'n spec \<Rightarrow> 'n list spec" where
  "list_spec en fuel S =
     comp_spec en (\<lambda>_. True) (\<lambda>vs. (\<forall>v \<in> set vs. ok_ar S v) \<and> length vs \<le> fuel) (\<lambda>vs. vs \<noteq> [])"

text \<open>A map is read into the map that is there, which has to be empty.\<close>

definition map_spec :: "bool \<Rightarrow> nat \<Rightarrow> 'k::linorder spec \<Rightarrow> 'v spec \<Rightarrow> ('k, 'v) omap spec" where
  "map_spec en fuel SK SV =
     comp_spec en (\<lambda>m. m = [])
       (\<lambda>m. omap_inv m \<and> (\<forall>(k, v) \<in> set m. ok_el SK k \<and> ok_el SV v) \<and> length m \<le> fuel) (\<lambda>m. m \<noteq> [])"

definition strmap_spec :: "bool \<Rightarrow> (string \<Rightarrow> bool) \<Rightarrow> nat \<Rightarrow> 'v spec \<Rightarrow> (string, 'v) omap spec" where
  "strmap_spec en nm fuel SV =
     comp_spec en (\<lambda>_. True)
       (\<lambda>m. omap_inv m \<and> (\<forall>(k, v) \<in> set m. nm k \<and> ok_el SV v \<and> sol_el SV v) \<and> length m \<le> fuel) (\<lambda>m. m \<noteq> [])"

lemma only_element:
  assumes "distinct xs" "set xs = {k}"
  shows "xs = [k]"
proof (cases xs)
  case (Cons x ys)
  with assms have "x = k" "set ys \<subseteq> {k}" "k \<notin> set ys" by auto
  then have "set ys = {}" by (auto simp: subset_singleton_iff)
  with Cons \<open>x = k\<close> show ?thesis by simp
qed (use assms in simp)

lemma omap_set_last: "omap_inv (acc @ (k, v) # m) \<Longrightarrow> omap_set k v acc = acc @ [(k, v)]"
  by (induction k v acc rule: omap_set.induct) (auto simp: omap_inv_def)

lemma int_range_64:
  assumes "1 \<le> bits" "bits \<le> 64" "int_min bits sgnd \<le> v \<and> v \<le> int_max bits sgnd"
  shows "if sgnd then LONG_MIN \<le> v \<and> v \<le> LONG_MAX else 0 \<le> v \<and> v < 2 ^ 64"
proof -
  have "(2 :: int) ^ (bits - 1) \<le> 2 ^ 63" "(2 :: int) ^ bits \<le> 2 ^ 64"
    using assms(2) power_increasing [of "bits - 1" 63 "2 :: int"] power_increasing [of bits 64 "2 :: int"] by simp_all
  then show ?thesis using assms(3) by (auto simp: int_min_def int_max_def LONG_MIN_def LONG_MAX_def)
qed

lemma find_SomeD: "find P xs = Some x \<Longrightarrow> x \<in> set xs \<and> P x"
  by (induction xs) (auto split: if_splits)

lemma findEnumValueName_finds:
  assumes "omap_inv m" "v \<in> snd ` set m"
  shows "\<exists>n. findEnumValueName m v = Inr n \<and> map_of m n = Some v \<and> n \<in> fst ` set m"
proof -
  from assms(2) obtain e where e: "find (\<lambda>(_, w). w = v) m = Some e"
    by (cases "find (\<lambda>(_, w). w = v) m") (force simp: find_None_iff)+
  moreover have "e \<in> set m" "snd e = v" using find_SomeD [OF e] by auto
  ultimately show ?thesis
    using omap_inv_distinct [OF assms(1)]
    by (cases e) (force simp: findEnumValueName_def)
qed

section \<open>The contract of a format\<close>

text \<open>\<open>w_s s f\<close>: the structure \<open>f\<close> has been written to the serializer state \<open>s\<close>; \<open>shows_s f ds\<close>:
  the deserializer \<open>ds\<close> reads it; likewise for arrays, of which \<open>shows_a\<close> has what is left.
  \<open>readback\<close> is the box a written primitive is read as, and \<open>prim_ok\<close> tells which survive.\<close>

locale archive =
  fixes W :: "('f, 's, 'a) writer" and R :: "('f, 'ds, 'da) reader"
    and w_s :: "'s \<Rightarrow> (string \<Rightarrow> 'f item option) \<Rightarrow> bool" and w_a :: "'a \<Rightarrow> 'f item list \<Rightarrow> bool"
    and shows_s :: "(string \<Rightarrow> 'f item option) \<Rightarrow> 'ds \<Rightarrow> bool" and shows_a :: "'f item list \<Rightarrow> 'da \<Rightarrow> bool"
    and empty_null :: bool and name_ok :: "string \<Rightarrow> bool" and prim_ok :: "'f cpp_value \<Rightarrow> bool" and readback :: "'f cpp_value \<Rightarrow> 'f any"
  assumes open_s: "w_s (open_struct W) Map.empty"
    and put_v: "w_s s f \<Longrightarrow> name_ok n \<Longrightarrow> prim_ok p \<Longrightarrow> w_s (put_value W n p s) (f(n \<mapsto> IVal p))"
    and put_s: "w_s s f \<Longrightarrow> name_ok n \<Longrightarrow> w_s c g \<Longrightarrow> w_s (put_struct W n c s) (f(n \<mapsto> IStruct g))"
    and put_a: "w_s s f \<Longrightarrow> name_ok n \<Longrightarrow> w_a ca its \<Longrightarrow> w_s (put_array W n ca s) (f(n \<mapsto> IArray its))"
    and key_names: "name_ok cKeyName" "name_ok cValueName"
    and open_a: "w_a (open_array W) []"
    and open_i: "w_a a its \<Longrightarrow> w_a (open_inner W a) []"
    and push_v: "w_a a its \<Longrightarrow> prim_ok p \<Longrightarrow> w_a (push_value W p a) (its @ [IVal p])"
    and push_e: "w_a a its \<Longrightarrow> w_a (push_empty W a) (its @ [IEmpty])"
    and push_s: "w_a a its \<Longrightarrow> w_s c g \<Longrightarrow> w_a (push_struct W c a) (its @ [IStruct g])"
    and push_a: "w_a a its \<Longrightarrow> w_a ca its' \<Longrightarrow> w_a (push_array W ca a) (its @ [IArray its'])"
    and get_v: "shows_s f ds \<Longrightarrow> f n = Some (IVal p) \<Longrightarrow>
      \<exists>ds'. get_value R n ds = (Inr (readback p), ds') \<and> shows_s f ds'"
    and exists_v: "shows_s f ds \<Longrightarrow> value_exists R n ds \<longleftrightarrow> f n \<noteq> None"
    and names_v: "shows_s f ds \<Longrightarrow> \<exists>ks. available_names R ds = Inr ks \<and> distinct ks \<and> set ks = dom f"
    and get_s: "shows_s f ds \<Longrightarrow> f n = Some (IStruct g) \<Longrightarrow> \<exists>d. get_struct R n ds = Inr (Some d) \<and> shows_s g d"
    and get_a: "shows_s f ds \<Longrightarrow> f n = Some (IArray its) \<Longrightarrow> \<exists>d. get_array R n ds = Inr (Some d) \<and> shows_a its d"
    and complete_a: "shows_a its da \<Longrightarrow> complete R da \<longleftrightarrow> its = []"
    and next_v: "shows_a (IVal p # its) da \<Longrightarrow> \<exists>da'. next_value R da = (Inr (readback p), da') \<and> shows_a its da'"
    and next_e: "shows_a (IEmpty # its) da \<Longrightarrow> \<exists>x da'. next_value R da = (Inr x, da') \<and> shows_a its da'"
    and next_s: "shows_a (IStruct g # its) da \<Longrightarrow>
      \<exists>d da'. next_struct R da = (Inr (Some d), da') \<and> shows_s g d \<and> shows_a its da'"
    and next_a: "shows_a (IArray its' # its) da \<Longrightarrow>
      \<exists>d da'. next_array R da = (Inr (Some d), da') \<and> shows_a its' d \<and> shows_a its da'"
    and next_x: "shows_a (it # its) da \<Longrightarrow> next_exists R da = Inr (\<not> nullish empty_null it)"
    and back_int: "prim_ok (VInt64 i) \<Longrightarrow>
      readback (VInt64 i) = any_of (VInt64 i) \<or> 0 \<le> i \<and> readback (VInt64 i) = any_of (VUInt64 i)"
    and back_uint: "prim_ok (VUInt64 i) \<Longrightarrow> readback (VUInt64 i) = any_of (VUInt64 i)"
    and back_bool: "readback (VBool b) = any_of (VBool b)"
    and back_string: "prim_ok (VString t) \<Longrightarrow> readback (VString t) = any_of (VString t)"
    and back_double: "prim_ok (VDouble d) \<Longrightarrow> readback (VDouble d) = any_of (VDouble d)"
    and prim_int: "LONG_MIN \<le> i \<Longrightarrow> i \<le> LONG_MAX \<Longrightarrow> prim_ok (VInt64 i)"
    and prim_uint: "0 \<le> i \<Longrightarrow> i < 2 ^ 64 \<Longrightarrow> prim_ok (VUInt64 i)"
    and prim_bool: "prim_ok (VBool b)"
begin

section \<open>Assemblers that read back what they write\<close>

text \<open>A value that is \<open>ok_el\<close> for the assembler can be an element of a structure, one that is
  \<open>ok_ar\<close> an entry of an array; \<open>sol_el\<close> and \<open>sol_ar\<close> say that it is not taken for null there.
  \<open>fits\<close> are the nodes a value may be read into.\<close>

definition el_item :: "('n, 's, 'a, 'ds, 'da) assembler \<Rightarrow> ('n \<Rightarrow> bool) \<Rightarrow> 'n \<Rightarrow> 'f item option \<Rightarrow> bool" where
  "el_item A ft v io \<longleftrightarrow>
     (\<forall>n s f. name_ok n \<longrightarrow> w_s s f \<longrightarrow> f n = None \<longrightarrow> (\<exists>s'. serializeElement A n v s = Inr s' \<and> w_s s' (f(n := io)))) \<and>
     (\<forall>n ds f old. shows_s f ds \<longrightarrow> f n = io \<longrightarrow> ft old \<longrightarrow>
        (\<exists>ds'. deserializeElement A n ds old = (Inr v, ds') \<and> shows_s f ds'))"

definition ar_item :: "('n, 's, 'a, 'ds, 'da) assembler \<Rightarrow> ('n \<Rightarrow> bool) \<Rightarrow> 'n \<Rightarrow> 'f item \<Rightarrow> bool" where
  "ar_item A ft v it \<longleftrightarrow>
     (\<forall>a its. w_a a its \<longrightarrow> (\<exists>a'. serialize A v a = Inr a' \<and> w_a a' (its @ [it]))) \<and>
     (\<forall>da its old. shows_a (it # its) da \<longrightarrow> ft old \<longrightarrow>
        (\<exists>da'. deserialize A da old = (Inr v, da') \<and> shows_a its da'))"

lemma el_item_write:
  "el_item A ft v io \<Longrightarrow> name_ok n \<Longrightarrow> w_s s f \<Longrightarrow> f n = None \<Longrightarrow> \<exists>s'. serializeElement A n v s = Inr s' \<and> w_s s' (f(n := io))"
  by (simp add: el_item_def)

lemma el_item_read:
  "el_item A ft v io \<Longrightarrow> shows_s f ds \<Longrightarrow> f n = io \<Longrightarrow> ft old \<Longrightarrow>
    \<exists>ds'. deserializeElement A n ds old = (Inr v, ds') \<and> shows_s f ds'"
  by (simp add: el_item_def)

lemma ar_item_write:
  "ar_item A ft v it \<Longrightarrow> w_a a its \<Longrightarrow> \<exists>a'. serialize A v a = Inr a' \<and> w_a a' (its @ [it])"
  by (simp add: ar_item_def)

lemma ar_item_read:
  "ar_item A ft v it \<Longrightarrow> shows_a (it # its) da \<Longrightarrow> ft old \<Longrightarrow>
    \<exists>da'. deserialize A da old = (Inr v, da') \<and> shows_a its da'"
  by (simp add: ar_item_def)

definition codec :: "('n, 's, 'a, 'ds, 'da) assembler \<Rightarrow> 'n spec \<Rightarrow> bool" where
  "codec A S \<longleftrightarrow> fits S (fresh A) \<and>
     (\<forall>v. ok_el S v \<longrightarrow> (\<exists>io. el_item A (fits S) v io \<and> (sol_el S v \<longrightarrow> io \<noteq> None))) \<and>
     (\<forall>v. ok_ar S v \<longrightarrow> (\<exists>it. ar_item A (fits S) v it \<and> (sol_ar S v \<longrightarrow> \<not> nullish empty_null it)))"

lemma codecI:
  assumes "fits S (fresh A)"
    and "\<And>v. ok_el S v \<Longrightarrow> \<exists>io. el_item A (fits S) v io \<and> (sol_el S v \<longrightarrow> io \<noteq> None)"
    and "\<And>v. ok_ar S v \<Longrightarrow> \<exists>it. ar_item A (fits S) v it \<and> (sol_ar S v \<longrightarrow> \<not> nullish empty_null it)"
  shows "codec A S"
  using assms by (simp add: codec_def)

lemma codec_elE:
  assumes "codec A S" "ok_el S v"
  obtains io where "el_item A (fits S) v io" "sol_el S v \<Longrightarrow> io \<noteq> None"
  using assms by (auto simp: codec_def)

lemma codec_arE:
  assumes "codec A S" "ok_ar S v"
  obtains it where "ar_item A (fits S) v it" "sol_ar S v \<Longrightarrow> \<not> nullish empty_null it"
  using assms by (auto simp: codec_def)

lemma codec_fresh: "codec A S \<Longrightarrow> fits S (fresh A)"
  by (simp add: codec_def)

subsection \<open>Primitive values\<close>

lemma prim_codec:
  assumes "\<And>v. ok v \<Longrightarrow> \<exists>p. wr v = Inr p \<and> prim_ok p \<and> rd_el (readback p) = Inr v \<and> rd (readback p) = Inr v"
  shows "codec (prim_assembler W R wr rd_el rd g z) (prim_spec ok)"
proof (rule codecI)
  fix v assume "ok_el (prim_spec ok) v"
  with assms obtain p where p: "wr v = Inr p" "prim_ok p" "rd_el (readback p) = Inr v" by (auto simp: prim_spec_def)
  have "el_item (prim_assembler W R wr rd_el rd g z) (\<lambda>_. True) v (Some (IVal p))"
    unfolding el_item_def
  proof (intro conjI allI impI)
    fix n ds f old assume "shows_s f ds" "f n = Some (IVal p)"
    then obtain ds' where "get_value R n ds = (Inr (readback p), ds')" "shows_s f ds'" using get_v by blast
    then show "\<exists>ds'. deserializeElement (prim_assembler W R wr rd_el rd g z) n ds old = (Inr v, ds') \<and> shows_s f ds'"
      using p by (simp add: prim_assembler_def)
  qed (use p put_v in \<open>simp add: prim_assembler_def\<close>)
  then show "\<exists>io. el_item (prim_assembler W R wr rd_el rd g z) (fits (prim_spec ok)) v io \<and>
      (sol_el (prim_spec ok) v \<longrightarrow> io \<noteq> None)"
    by (auto simp: prim_spec_def)
next
  fix v assume "ok_ar (prim_spec ok) v"
  with assms obtain p where p: "wr v = Inr p" "prim_ok p" "rd (readback p) = Inr v" by (auto simp: prim_spec_def)
  have "ar_item (prim_assembler W R wr rd_el rd g z) (\<lambda>_. True) v (IVal p)"
    unfolding ar_item_def
  proof (intro conjI allI impI)
    fix da its old assume "shows_a (IVal p # its) da"
    then obtain da' where "next_value R da = (Inr (readback p), da')" "shows_a its da'" using next_v by blast
    then show "\<exists>da'. deserialize (prim_assembler W R wr rd_el rd g z) da old = (Inr v, da') \<and> shows_a its da'"
      using p by (simp add: prim_assembler_def)
  qed (use p push_v in \<open>simp add: prim_assembler_def\<close>)
  then show "\<exists>it. ar_item (prim_assembler W R wr rd_el rd g z) (fits (prim_spec ok)) v it \<and>
      (sol_ar (prim_spec ok) v \<longrightarrow> \<not> nullish empty_null it)"
    by (intro exI [of _ "IVal p"]) (simp add: prim_spec_def)
qed (simp add: prim_spec_def)

lemma int_codec:
  assumes "1 \<le> bits" "bits \<le> 64"
  shows "codec (int_assembler W R bits sgnd) (prim_spec (\<lambda>v. int_min bits sgnd \<le> v \<and> v \<le> int_max bits sgnd))"
  unfolding int_assembler_def
proof (rule prim_codec)
  fix v assume v: "int_min bits sgnd \<le> v \<and> v \<le> int_max bits sgnd"
  note r = int_range_64 [OF assms v]
  show "\<exists>p. Inr (if sgnd then VInt64 v else VUInt64 v) = Inr p \<and> prim_ok p \<and>
      provided (extract_int bits sgnd) (readback p) = Inr v \<and> extract_int bits sgnd (readback p) = Inr v"
  proof (cases sgnd)
    case True
    then have "prim_ok (VInt64 v)" using r prim_int by simp
    from back_int [OF this] True v this show ?thesis
      by (auto simp: provided_def extract_int_def any_defs)
  next
    case False
    then have "prim_ok (VUInt64 v)" using r prim_uint by simp
    from back_uint [OF this] False v this show ?thesis
      by (auto simp: provided_def extract_int_def any_defs)
  qed
qed

lemma bool_codec: "codec (bool_assembler W R) (prim_spec (\<lambda>_. True))"
  unfolding bool_assembler_def
  by (rule prim_codec) (simp add: prim_bool back_bool provided_def extract_bool_def any_defs)

lemma string_codec: "codec (string_assembler W R) (prim_spec (\<lambda>t. prim_ok (VString t)))"
  unfolding string_assembler_def
  by (rule prim_codec) (simp add: back_string extract_string_def any_defs)

lemma float_codec:
  "codec (float_assembler W R fc) (prim_spec (\<lambda>x. prim_ok (VDouble (to_double fc x)) \<and> from_double fc (to_double fc x) = x))"
  unfolding float_assembler_def
  by (rule prim_codec) (simp add: back_double provided_def extract_float_def any_defs)

lemma enum_codec:
  assumes "omap_inv m" and "\<forall>n \<in> fst ` set m. prim_ok (VString n)"
  shows "codec (enum_assembler W R m) (prim_spec (\<lambda>v. v \<in> snd ` set m))"
  unfolding enum_assembler_def
proof (rule prim_codec)
  fix v assume "v \<in> snd ` set m"
  then obtain n where n: "findEnumValueName m v = Inr n" "map_of m n = Some v" "n \<in> fst ` set m"
    using findEnumValueName_finds [OF assms(1)] by blast
  have "prim_ok (VString n)" by (rule assms(2) [THEN bspec, OF n(3)])
  with back_string n show "\<exists>p. map_sum id VString (findEnumValueName m v) = Inr p \<and> prim_ok p \<and>
      assignEnumValueByName m (readback p) = Inr v \<and> assignEnumValueByName m (readback p) = Inr v"
    by (simp add: assignEnumValueByName_def extract_string_def any_defs)
qed

subsection \<open>Optional values\<close>

lemma optional_codec:
  assumes A: "codec A S"
  shows "codec (optional_assembler W R A) (opt_spec S)"
proof (rule codecI)
  fix v assume ok: "ok_el (opt_spec S) v"
  show "\<exists>io. el_item (optional_assembler W R A) (fits (opt_spec S)) v io \<and> (sol_el (opt_spec S) v \<longrightarrow> io \<noteq> None)"
  proof (cases v)
    case None
    have "el_item (optional_assembler W R A) (\<lambda>_. True) None None"
      by (auto simp: el_item_def optional_assembler_def exists_v fun_upd_idem)
    then show ?thesis using None by (auto simp: opt_spec_def)
  next
    case (Some x)
    with ok have x: "ok_el S x" "sol_el S x" by (simp_all add: opt_spec_def)
    from codec_elE [OF A x(1)] x(2) obtain it where it: "el_item A (fits S) x (Some it)" by (metis not_Some_eq)
    have "el_item (optional_assembler W R A) (\<lambda>_. True) (Some x) (Some it)"
      unfolding el_item_def
    proof (intro conjI allI impI)
      fix n ds f and old :: "'b option" assume "shows_s f ds" "f n = Some it"
      moreover from el_item_read [OF it this codec_fresh [OF A]] obtain ds' where
        "deserializeElement A n ds (fresh A) = (Inr x, ds')" "shows_s f ds'" by blast
      ultimately show "\<exists>ds'. deserializeElement (optional_assembler W R A) n ds old = (Inr (Some x), ds') \<and> shows_s f ds'"
        by (simp add: optional_assembler_def exists_v)
    qed (use it in \<open>simp add: el_item_def optional_assembler_def\<close>)
    then show ?thesis using Some by (auto simp: opt_spec_def)
  qed
next
  fix v assume ok: "ok_ar (opt_spec S) v"
  show "\<exists>it. ar_item (optional_assembler W R A) (fits (opt_spec S)) v it \<and>
      (sol_ar (opt_spec S) v \<longrightarrow> \<not> nullish empty_null it)"
  proof (cases v)
    case None
    have "ar_item (optional_assembler W R A) (\<lambda>_. True) None IEmpty"
      unfolding ar_item_def
    proof (intro conjI allI impI)
      fix da its and old :: "'b option" assume sh: "shows_a (IEmpty # its) da"
      from next_e [OF sh] obtain x da' where "next_value R da = (Inr x, da')" "shows_a its da'" by blast
      with next_x [OF sh] show "\<exists>da'. deserialize (optional_assembler W R A) da old = (Inr None, da') \<and> shows_a its da'"
        by (simp add: optional_assembler_def skip_value_def)
    qed (simp add: optional_assembler_def push_e)
    then show ?thesis using None by (auto simp: opt_spec_def)
  next
    case (Some x)
    with ok have x: "ok_ar S x" "sol_ar S x" by (simp_all add: opt_spec_def)
    from codec_arE [OF A x(1)] x(2) obtain it where it: "ar_item A (fits S) x it" "\<not> nullish empty_null it" by blast
    have "ar_item (optional_assembler W R A) (\<lambda>_. True) (Some x) it"
      unfolding ar_item_def
    proof (intro conjI allI impI)
      fix da its and old :: "'b option" assume sh: "shows_a (it # its) da"
      moreover from ar_item_read [OF it(1) this codec_fresh [OF A]] obtain da' where
        "deserialize A da (fresh A) = (Inr x, da')" "shows_a its da'" by blast
      ultimately show "\<exists>da'. deserialize (optional_assembler W R A) da old = (Inr (Some x), da') \<and> shows_a its da'"
        using next_x [OF sh] it(2) by (simp add: optional_assembler_def)
    qed (use it in \<open>simp add: ar_item_def optional_assembler_def\<close>)
    then show ?thesis using Some it(2) by (auto simp: opt_spec_def)
  qed
qed (simp add: opt_spec_def)

subsection \<open>Lists, tuples and maps\<close>

text \<open>\<open>wr\<close> writes the items \<open>its\<close> for a value and \<open>rd\<close> reads it from them.\<close>

definition array_item :: "('n \<Rightarrow> 'a \<Rightarrow> 'a res) \<Rightarrow> ('da \<Rightarrow> 'n \<Rightarrow> 'n res) \<Rightarrow> ('n \<Rightarrow> bool) \<Rightarrow> 'n \<Rightarrow> 'f item list \<Rightarrow> bool" where
  "array_item wr rd ft v its \<longleftrightarrow>
     (\<forall>a. w_a a [] \<longrightarrow> (\<exists>a'. wr v a = Inr a' \<and> w_a a' its)) \<and>
     (\<forall>da old. shows_a its da \<longrightarrow> ft old \<longrightarrow> rd da old = Inr v)"

lemma array_codec:
  assumes "ft z" and "\<And>v. ok v \<Longrightarrow> \<exists>its. array_item wr rd ft v its \<and> (sol v \<longrightarrow> its \<noteq> [])"
  shows "codec (array_assembler W R e wr rd g z) (comp_spec empty_null ft ok sol)" (is "codec ?A ?S")
proof (rule codecI)
  fix v assume "ok_el ?S v"
  with assms(2) obtain its where its: "array_item wr rd ft v its" by (auto simp: comp_spec_def)
  have "el_item ?A ft v (Some (IArray its))"
    unfolding el_item_def
  proof (intro conjI allI impI)
    fix n s f assume "name_ok n" "w_s s f"
    moreover from its open_a obtain c where "wr v (open_array W) = Inr c" "w_a c its" by (auto simp: array_item_def)
    ultimately show "\<exists>s'. serializeElement ?A n v s = Inr s' \<and> w_s s' (f(n := Some (IArray its)))"
      using put_a by (simp add: array_assembler_def)
  next
    fix n ds f old assume ds: "shows_s f ds" "f n = Some (IArray its)" "ft old"
    from get_a [OF ds(1,2)] obtain d where "get_array R n ds = Inr (Some d)" "shows_a its d" by blast
    with its ds(1,3) show "\<exists>ds'. deserializeElement ?A n ds old = (Inr v, ds') \<and> shows_s f ds'"
      by (simp add: array_item_def array_assembler_def)
  qed
  then show "\<exists>io. el_item ?A (fits ?S) v io \<and> (sol_el ?S v \<longrightarrow> io \<noteq> None)"
    by (auto simp: comp_spec_def)
next
  fix v assume "ok_ar ?S v"
  with assms(2) obtain its where its: "array_item wr rd ft v its" "sol v \<Longrightarrow> its \<noteq> []" by (auto simp: comp_spec_def)
  have "ar_item ?A ft v (IArray its)"
    unfolding ar_item_def
  proof (intro conjI allI impI)
    fix a its' assume a: "w_a a its'"
    from its(1) open_i [OF a] obtain c where "wr v (open_inner W a) = Inr c" "w_a c its" by (auto simp: array_item_def)
    with a push_a show "\<exists>a'. serialize ?A v a = Inr a' \<and> w_a a' (its' @ [IArray its])"
      by (simp add: array_assembler_def)
  next
    fix da its' old assume da: "shows_a (IArray its # its') da" "ft old"
    from next_a [OF da(1)] obtain d da' where
      "next_array R da = (Inr (Some d), da')" "shows_a its d" "shows_a its' da'" by blast
    with its da(2) show "\<exists>da'. deserialize ?A da old = (Inr v, da') \<and> shows_a its' da'"
      by (simp add: array_item_def array_assembler_def)
  qed
  then show "\<exists>it. ar_item ?A (fits ?S) v it \<and> (sol_ar ?S v \<longrightarrow> \<not> nullish empty_null it)"
    using its(2) by (intro exI [of _ "IArray its"]) (auto simp: comp_spec_def)
qed (use assms(1) in \<open>simp add: comp_spec_def array_assembler_def\<close>)

lemma list_items:
  assumes A: "codec A S" and "\<forall>v \<in> set vs. ok_ar S v"
  shows "\<exists>its. length its = length vs \<and>
    (\<forall>a its'. w_a a its' \<longrightarrow> (\<exists>a'. ser_each (serialize A) vs a = Inr a' \<and> w_a a' (its' @ its))) \<and>
    (\<forall>fuel da acc. length vs \<le> fuel \<longrightarrow> shows_a its da \<longrightarrow> de_each fuel R A da acc = Inr (acc @ vs))"
  using assms(2)
proof (induction vs)
  case Nil
  then show ?case by (auto simp: de_each.simps complete_a)
next
  case (Cons v vs)
  from Cons obtain its where its: "length its = length vs"
      "\<And>a its'. w_a a its' \<Longrightarrow> \<exists>a'. ser_each (serialize A) vs a = Inr a' \<and> w_a a' (its' @ its)"
      "\<And>fuel da acc. length vs \<le> fuel \<Longrightarrow> shows_a its da \<Longrightarrow> de_each fuel R A da acc = Inr (acc @ vs)"
    by force
  from Cons.prems codec_arE [OF A, of v] obtain it where it: "ar_item A (fits S) v it" by auto
  have wr: "\<exists>a'. ser_each (serialize A) (v # vs) a = Inr a' \<and> w_a a' (its' @ it # its)" if a: "w_a a its'" for a its'
  proof -
    from ar_item_write [OF it a] obtain a1 where a1: "serialize A v a = Inr a1" "w_a a1 (its' @ [it])" by blast
    from its(2) [OF a1(2)] a1(1) show ?thesis by auto
  qed
  have rd: "de_each fuel R A da acc = Inr (acc @ v # vs)"
    if "length (v # vs) \<le> fuel" "shows_a (it # its) da" for fuel da acc
  proof -
    from that(1) obtain n where n: "fuel = Suc n" "length vs \<le> n" by (cases fuel) auto
    from ar_item_read [OF it that(2) codec_fresh [OF A]] obtain da1 where
      "deserialize A da (fresh A) = (Inr v, da1)" "shows_a its da1" by blast
    with n its(3) [of n da1] complete_a [OF that(2)] show ?thesis by (subst de_each.simps) simp
  qed
  show ?case using its(1) wr rd by (intro exI [of _ "it # its"]) auto
qed

lemma list_array_item:
  assumes "codec A S" and ok: "(\<forall>v \<in> set vs. ok_ar S v) \<and> length vs \<le> fuel"
  shows "\<exists>its. array_item (ser_each (serialize A)) (\<lambda>da old. de_each fuel R A da []) (\<lambda>_. True) vs its \<and>
    (vs \<noteq> [] \<longrightarrow> its \<noteq> [])"
proof -
  from list_items [OF assms(1), of vs] ok obtain its where "length its = length vs"
    "\<forall>a its'. w_a a its' \<longrightarrow> (\<exists>a'. ser_each (serialize A) vs a = Inr a' \<and> w_a a' (its' @ its))"
    "\<forall>fuel da acc. length vs \<le> fuel \<longrightarrow> shows_a its da \<longrightarrow> de_each fuel R A da acc = Inr (acc @ vs)" "length vs \<le> fuel"
    by blast
  then show ?thesis by (intro exI [of _ its]) (fastforce simp: array_item_def)
qed

lemma list_codec:
  assumes "codec A S"
  shows "codec (list_assembler fuel W R A) (list_spec empty_null fuel S)"
  unfolding list_assembler_def list_spec_def
  by (rule array_codec) (simp, rule list_array_item [OF assms])

text \<open>An element of a tuple, read into the node \<open>old\<close>, turns it into \<open>u old\<close>.\<close>

definition tup_item :: "('n, 'a, 'da) tuple_element \<Rightarrow> ('n \<Rightarrow> bool) \<Rightarrow> ('n \<Rightarrow> 'n) \<Rightarrow> 'n \<Rightarrow> 'f item \<Rightarrow> bool" where
  "tup_item e ft u v it \<longleftrightarrow>
     (\<forall>a its. w_a a its \<longrightarrow> (\<exists>a'. el_serialize e v a = Inr a' \<and> w_a a' (its @ [it]))) \<and>
     (\<forall>da its old. shows_a (it # its) da \<longrightarrow> ft old \<longrightarrow>
        (\<exists>da'. el_deserialize e da old = (Inr (u old), da') \<and> shows_a its da'))"

lemma std_get_item:
  assumes it: "ar_item A (fits S) (get v) it" and "\<And>old. ft old \<Longrightarrow> fits S (get old)"
  shows "tup_item (std_get A get put) ft (put (get v)) v it"
  unfolding tup_item_def
proof (intro conjI allI impI)
  fix da its old assume da: "shows_a (it # its) da" "ft old"
  from ar_item_read [OF it da(1) assms(2) [OF da(2)]]
  show "\<exists>da'. el_deserialize (std_get A get put) da old = (Inr (put (get v) old), da') \<and> shows_a its da'"
    by (auto simp: std_get_def)
qed (use ar_item_write [OF it] in \<open>simp add: std_get_def\<close>)

text \<open>A sequence of elements that writes the items \<open>its\<close>, and reads them by turning \<open>old\<close> into \<open>u old\<close>.\<close>

definition tup_items :: "('n, 'a, 'da) tuple_element list \<Rightarrow> ('n \<Rightarrow> bool) \<Rightarrow> ('n \<Rightarrow> 'n) \<Rightarrow> 'n \<Rightarrow> 'f item list \<Rightarrow> bool" where
  "tup_items es ft u v its \<longleftrightarrow>
     (\<forall>a its'. w_a a its' \<longrightarrow> (\<exists>a'. serializeTupleElements es v a = Inr a' \<and> w_a a' (its' @ its))) \<and>
     (\<forall>da old. shows_a its da \<longrightarrow> ft old \<longrightarrow> deserializeTupleElements es da old = Inr (u old))"

lemma tup_items_Nil: "tup_items [] ft id v []"
  by (simp add: tup_items_def)

lemma tup_items_Cons:
  assumes e: "tup_item e ft u v it" and es: "tup_items es ft' u' v its" and "\<And>old. ft old \<Longrightarrow> ft' (u old)"
  shows "tup_items (e # es) ft (u' \<circ> u) v (it # its)"
  unfolding tup_items_def
proof (intro conjI allI impI)
  fix a its' assume "w_a a its'"
  with e obtain a1 where a1: "el_serialize e v a = Inr a1" "w_a a1 (its' @ [it])"
    unfolding tup_item_def by blast
  from es a1(2) obtain a2 where "serializeTupleElements es v a1 = Inr a2" "w_a a2 ((its' @ [it]) @ its)"
    unfolding tup_items_def by blast
  with a1(1) show "\<exists>a'. serializeTupleElements (e # es) v a = Inr a' \<and> w_a a' (its' @ it # its)" by simp
next
  fix da old assume da: "shows_a (it # its) da" "ft old"
  with e obtain da1 where da1: "el_deserialize e da old = (Inr (u old), da1)" "shows_a its da1"
    unfolding tup_item_def by blast
  with es assms(3) [OF da(2)] have "deserializeTupleElements es da1 (u old) = Inr (u' (u old))"
    unfolding tup_items_def by blast
  with da1(1) show "deserializeTupleElements (e # es) da old = Inr ((u' \<circ> u) old)" by simp
qed

lemma tuple_codec:
  assumes "ft z" and "\<And>v. ok v \<Longrightarrow> \<exists>its u. tup_items es ft u v its \<and> (\<forall>old. ft old \<longrightarrow> u old = v) \<and> (es \<noteq> [] \<longrightarrow> its \<noteq> [])"
  shows "codec (tuple_assembler W R es z) (comp_spec empty_null ft ok (\<lambda>_. es \<noteq> []))"
  unfolding tuple_assembler_def
proof (rule array_codec [where ft = ft, OF assms(1)])
  fix v assume "ok v"
  from assms(2) [OF this] obtain its u where its: "tup_items es ft u v its" "\<forall>old. ft old \<longrightarrow> u old = v" "es \<noteq> [] \<longrightarrow> its \<noteq> []"
    by blast
  have "array_item (serializeTupleElements es) (deserializeTupleElements es) ft v its"
    unfolding array_item_def
  proof (intro conjI allI impI)
    fix a assume "w_a a []"
    with its(1) show "\<exists>a'. serializeTupleElements es v a = Inr a' \<and> w_a a' its"
      unfolding tup_items_def by (metis append_Nil)
  qed (use its in \<open>simp add: tup_items_def\<close>)
  with its(3) show "\<exists>its. array_item (serializeTupleElements es) (deserializeTupleElements es) ft v its \<and>
      (es \<noteq> [] \<longrightarrow> its \<noteq> [])" by blast
qed

lemma pair_items:
  assumes K: "codec K SK" and V: "codec V SV" and "\<forall>(k, v) \<in> set m. ok_el SK k \<and> ok_el SV v"
  shows "\<exists>its. length its = length m \<and>
    (\<forall>a its'. w_a a its' \<longrightarrow> (\<exists>a'. ser_pairs W K V m a = Inr a' \<and> w_a a' (its' @ its))) \<and>
    (\<forall>fuel da acc. length m \<le> fuel \<longrightarrow> shows_a its da \<longrightarrow> omap_inv (acc @ m) \<longrightarrow>
       de_pairs fuel R K V da acc = Inr (acc @ m))"
  using assms(3)
proof (induction m)
  case Nil
  then show ?case by (auto simp: de_pairs.simps complete_a)
next
  case (Cons p m)
  obtain k v where p: "p = (k, v)" by fastforce
  from Cons obtain its where its: "length its = length m"
      "\<And>a its'. w_a a its' \<Longrightarrow> \<exists>a'. ser_pairs W K V m a = Inr a' \<and> w_a a' (its' @ its)"
      "\<And>fuel da acc. length m \<le> fuel \<Longrightarrow> shows_a its da \<Longrightarrow> omap_inv (acc @ m) \<Longrightarrow>
        de_pairs fuel R K V da acc = Inr (acc @ m)" by force
  have "ok_el SK k" "ok_el SV v" using Cons.prems p by auto
  then obtain ik iv where ik: "el_item K (fits SK) k ik" and iv: "el_item V (fits SV) v iv"
    using codec_elE [OF K] codec_elE [OF V] by metis
  define g where "g = (Map.empty(cKeyName := ik))(cValueName := iv)"
  have names: "cKeyName \<noteq> cValueName" by (simp add: cKeyName_def cValueName_def)
  have wr: "\<exists>a'. ser_pairs W K V (p # m) a = Inr a' \<and> w_a a' (its' @ IStruct g # its)" if a: "w_a a its'" for a its'
  proof -
    from el_item_write [OF ik key_names(1) open_s] obtain s1 where
      s1: "serializeElement K cKeyName k (open_struct W) = Inr s1" "w_s s1 (Map.empty(cKeyName := ik))" by blast
    have "(Map.empty(cKeyName := ik)) cValueName = None" using names by simp
    from el_item_write [OF iv key_names(2) s1(2) this] obtain s2 where
      s2: "serializeElement V cValueName v s1 = Inr s2" "w_s s2 g" unfolding g_def by blast
    from its(2) [OF push_s [OF a s2(2)]] s1(1) s2(1) p show ?thesis by auto
  qed
  have rd: "de_pairs fuel R K V da acc = Inr (acc @ p # m)"
    if h: "length (p # m) \<le> fuel" "shows_a (IStruct g # its) da" "omap_inv (acc @ p # m)" for fuel da acc
  proof -
    from h(1) obtain n where n: "fuel = Suc n" "length m \<le> n" by (cases fuel) auto
    from next_s [OF h(2)] obtain d da1 where d: "next_struct R da = (Inr (Some d), da1)" "shows_s g d" "shows_a its da1" by blast
    have "g cKeyName = ik" "g cValueName = iv" using names by (simp_all add: g_def)
    from el_item_read [OF ik d(2) this(1) codec_fresh [OF K]] obtain d1 where
      d1: "deserializeElement K cKeyName d (fresh K) = (Inr k, d1)" "shows_s g d1" by blast
    from el_item_read [OF iv d1(2) \<open>g cValueName = iv\<close> codec_fresh [OF V]] obtain d2 where
      d2: "deserializeElement V cValueName d1 (fresh V) = (Inr v, d2)" by blast
    have "omap_set k v acc = acc @ [p]" using omap_set_last h(3) p by fastforce
    with its(3) [OF n(2) d(3), of "acc @ [p]"] h(3) have "de_pairs n R K V da1 (omap_set k v acc) = Inr (acc @ p # m)" by simp
    with n(1) d(1) d1(1) d2 complete_a [OF h(2)] show ?thesis by (subst de_pairs.simps) simp
  qed
  show ?case using its(1) wr rd by (intro exI [of _ "IStruct g # its"]) auto
qed

lemma map_codec:
  assumes "codec K SK" "codec V SV"
  shows "codec (map_assembler fuel W R K V) (map_spec empty_null fuel SK SV)"
  unfolding map_assembler_def map_spec_def
proof (rule array_codec)
  fix m assume ok: "omap_inv m \<and> (\<forall>(k, v) \<in> set m. ok_el SK k \<and> ok_el SV v) \<and> length m \<le> fuel"
  with pair_items [OF assms, of m] obtain its where its: "length its = length m"
    "\<And>a its'. w_a a its' \<Longrightarrow> \<exists>a'. ser_pairs W K V m a = Inr a' \<and> w_a a' (its' @ its)"
    "\<And>da acc. shows_a its da \<Longrightarrow> omap_inv (acc @ m) \<Longrightarrow> de_pairs fuel R K V da acc = Inr (acc @ m)" by metis
  have "array_item (ser_pairs W K V) (de_pairs fuel R K V) (\<lambda>m. m = []) m its"
    using its(2) [of _ "[]"] its(3) [of _ "[]"] ok by (simp add: array_item_def)
  with its(1) show "\<exists>its. array_item (ser_pairs W K V) (de_pairs fuel R K V) (\<lambda>m. m = []) m its \<and> (m \<noteq> [] \<longrightarrow> its \<noteq> [])"
    by (intro exI [of _ its]) auto
qed simp

lemma entry_items:
  assumes V: "codec V SV" and "\<forall>(k, v) \<in> set m. name_ok k \<and> ok_el SV v \<and> sol_el SV v"
  shows "\<exists>its. length its = length m \<and>
    (\<forall>a its'. w_a a its' \<longrightarrow> (\<exists>a'. ser_entries W V m a = Inr a' \<and> w_a a' (its' @ its))) \<and>
    (\<forall>fuel da acc. length m \<le> fuel \<longrightarrow> shows_a its da \<longrightarrow> omap_inv (acc @ m) \<longrightarrow>
       de_entries fuel R V da acc = Inr (acc @ m))"
  using assms(2)
proof (induction m)
  case Nil
  then show ?case by (auto simp: de_entries.simps complete_a)
next
  case (Cons p m)
  obtain k v where p: "p = (k, v)" by fastforce
  from Cons obtain its where its: "length its = length m"
      "\<And>a its'. w_a a its' \<Longrightarrow> \<exists>a'. ser_entries W V m a = Inr a' \<and> w_a a' (its' @ its)"
      "\<And>fuel da acc. length m \<le> fuel \<Longrightarrow> shows_a its da \<Longrightarrow> omap_inv (acc @ m) \<Longrightarrow>
        de_entries fuel R V da acc = Inr (acc @ m)" by force
  have v: "ok_el SV v" "sol_el SV v" and k: "name_ok k" using Cons.prems p by auto
  from codec_elE [OF V v(1)] v(2) obtain iv where iv: "el_item V (fits SV) v (Some iv)" by (metis not_Some_eq)
  let ?g = "[k \<mapsto> iv]"
  have wr: "\<exists>a'. ser_entries W V (p # m) a = Inr a' \<and> w_a a' (its' @ IStruct ?g # its)" if a: "w_a a its'" for a its'
  proof -
    from el_item_write [OF iv k open_s] obtain s1 where
      s1: "serializeElement V k v (open_struct W) = Inr s1" "w_s s1 ?g" by blast
    from its(2) [OF push_s [OF a s1(2)]] s1(1) p show ?thesis by auto
  qed
  have rd: "de_entries fuel R V da acc = Inr (acc @ p # m)"
    if h: "length (p # m) \<le> fuel" "shows_a (IStruct ?g # its) da" "omap_inv (acc @ p # m)" for fuel da acc
  proof -
    from h(1) obtain n where n: "fuel = Suc n" "length m \<le> n" by (cases fuel) auto
    from next_s [OF h(2)] obtain d da1 where d: "next_struct R da = (Inr (Some d), da1)" "shows_s ?g d" "shows_a its da1" by blast
    from names_v [OF d(2)] only_element have names: "available_names R d = Inr [k]" by force
    from el_item_read [OF iv d(2) _ codec_fresh [OF V]] obtain d1 where
      d1: "deserializeElement V k d (fresh V) = (Inr v, d1)" by (metis fun_upd_same)
    have "omap_set k v acc = acc @ [p]" using omap_set_last h(3) p by fastforce
    with its(3) [OF n(2) d(3), of "acc @ [p]"] h(3) have "de_entries n R V da1 (omap_set k v acc) = Inr (acc @ p # m)" by simp
    with n(1) d(1) d1(1) names complete_a [OF h(2)] show ?thesis by (subst de_entries.simps) simp
  qed
  show ?case using its(1) wr rd by (intro exI [of _ "IStruct ?g # its"]) auto
qed

lemma strmap_codec:
  assumes "codec V SV"
  shows "codec (strmap_assembler fuel W R V) (strmap_spec empty_null name_ok fuel SV)"
  unfolding strmap_assembler_def strmap_spec_def
proof (rule array_codec)
  fix m :: "(string \<times> 'b) list" assume ok: "omap_inv m \<and> (\<forall>(k, v) \<in> set m. name_ok k \<and> ok_el SV v \<and> sol_el SV v) \<and> length m \<le> fuel"
  then have "\<forall>(k, v) \<in> set m. name_ok k \<and> ok_el SV v \<and> sol_el SV v" "length m \<le> fuel" by blast+
  from entry_items [OF assms this(1)] this(2) obtain its where its: "length its = length m"
    "\<And>a its'. w_a a its' \<Longrightarrow> \<exists>a'. ser_entries W V m a = Inr a' \<and> w_a a' (its' @ its)"
    "\<And>da acc. shows_a its da \<Longrightarrow> omap_inv (acc @ m) \<Longrightarrow> de_entries fuel R V da acc = Inr (acc @ m)" by blast
  have "array_item (ser_entries W V) (\<lambda>da old. de_entries fuel R V da []) (\<lambda>_. True) m its"
    using its(2) [of _ "[]"] its(3) [of _ "[]"] ok by (simp add: array_item_def)
  with its(1) show "\<exists>its. array_item (ser_entries W V) (\<lambda>da old. de_entries fuel R V da []) (\<lambda>_. True) m its \<and>
      (m \<noteq> [] \<longrightarrow> its \<noteq> [])"
    by (intro exI [of _ its]) auto
qed simp

subsection \<open>Structures\<close>

text \<open>A part of a structure that writes the names \<open>N\<close> as \<open>g\<close> has them, and reads them by turning the
  node \<open>old\<close> into \<open>u old\<close>.\<close>

definition flat_item :: "('s \<Rightarrow> 's res) \<Rightarrow> ('ds \<Rightarrow> 'n \<Rightarrow> 'n res \<times> 'ds) \<Rightarrow> string set \<Rightarrow> ('n \<Rightarrow> bool) \<Rightarrow> ('n \<Rightarrow> 'n) \<Rightarrow>
    (string \<Rightarrow> 'f item option) \<Rightarrow> bool" where
  "flat_item wr rd N ft u g \<longleftrightarrow>
     (\<forall>s f. w_s s f \<longrightarrow> (\<forall>n \<in> N. f n = None) \<longrightarrow> (\<exists>s'. wr s = Inr s' \<and> w_s s' (override_on f g N))) \<and>
     (\<forall>ds f old. shows_s f ds \<longrightarrow> (\<forall>n \<in> N. f n = g n) \<longrightarrow> ft old \<longrightarrow>
        (\<exists>ds'. rd ds old = (Inr (u old), ds') \<and> shows_s f ds'))"

lemma flat_write:
  "flat_item wr rd N ft u g \<Longrightarrow> w_s s f \<Longrightarrow> \<forall>n \<in> N. f n = None \<Longrightarrow> \<exists>s'. wr s = Inr s' \<and> w_s s' (override_on f g N)"
  by (simp add: flat_item_def)

lemma flat_read:
  "flat_item wr rd N ft u g \<Longrightarrow> shows_s f ds \<Longrightarrow> \<forall>n \<in> N. f n = g n \<Longrightarrow> ft old \<Longrightarrow>
    \<exists>ds'. rd ds old = (Inr (u old), ds') \<and> shows_s f ds'"
  by (simp add: flat_item_def)

lemma typed_member_item:
  assumes it: "el_item A (fits S) (get v) io" and "\<And>old. ft old \<Longrightarrow> fits S (get old)"
    and nm: "name_ok name" and m: "m = typed_member name p A get put"
  shows "flat_item (m_serialize m v) (m_deserialize m) {name} ft (put (get v)) (\<lambda>_. io)"
  unfolding flat_item_def
proof (intro conjI allI impI)
  fix s f assume s: "w_s s f" "\<forall>n \<in> {name}. f n = None"
  have "override_on f (\<lambda>_. io) {name} = f(name := io)" by (auto simp: override_on_def)
  then show "\<exists>s'. m_serialize m v s = Inr s' \<and> w_s s' (override_on f (\<lambda>_. io) {name})"
    using el_item_write [OF it nm s(1)] s(2) by (simp add: m typed_member_def)
next
  fix ds f old assume ds: "shows_s f ds" "\<forall>n \<in> {name}. f n = io" "ft old"
  from el_item_read [OF it ds(1) _ assms(2) [OF ds(3)], of name] ds(2)
  show "\<exists>ds'. m_deserialize m ds old = (Inr (put (get v) old), ds') \<and> shows_s f ds'"
    by (auto simp: m typed_member_def)
qed

lemma custom_member_item:
  assumes it: "el_item A (fits S) (toC (get v)) io" and "fits S (fresh A)"
    and nm: "name_ok name" and m: "m = custom_member name p A toC fromC g get put"
  shows "flat_item (m_serialize m v) (m_deserialize m) {name} ft (put (fromC (toC (get v)))) (\<lambda>_. io)"
  unfolding flat_item_def
proof (intro conjI allI impI)
  fix s f assume s: "w_s s f" "\<forall>n \<in> {name}. f n = None"
  have "override_on f (\<lambda>_. io) {name} = f(name := io)" by (auto simp: override_on_def)
  then show "\<exists>s'. m_serialize m v s = Inr s' \<and> w_s s' (override_on f (\<lambda>_. io) {name})"
    using el_item_write [OF it nm s(1)] s(2) by (simp add: m custom_member_def)
next
  fix ds f old assume ds: "shows_s f ds" "\<forall>n \<in> {name}. f n = io" "ft old"
  from el_item_read [OF it ds(1) _ assms(2), of name] ds(2)
  show "\<exists>ds'. m_deserialize m ds old = (Inr (put (fromC (toC (get v))) old), ds') \<and> shows_s f ds'"
    by (auto simp: m custom_member_def)
qed

lemma ancestor_item:
  assumes it: "flat_item (struct_write ms (get v)) (struct_read ms) N fb u g" and "\<And>old. ft old \<Longrightarrow> fb (get old)"
    and m: "m = ancestor name ms get put"
  shows "flat_item (m_serialize m v) (m_deserialize m) N ft (\<lambda>old. put (u (get old)) old) g"
  unfolding flat_item_def
proof (intro conjI allI impI)
  fix ds f old assume ds: "shows_s f ds" "\<forall>n \<in> N. f n = g n" "ft old"
  from flat_read [OF it ds(1,2) assms(2) [OF ds(3)]]
  show "\<exists>ds'. m_deserialize m ds old = (Inr (put (u (get old)) old), ds') \<and> shows_s f ds'"
    by (auto simp: m ancestor_def)
qed (use flat_write [OF it] in \<open>simp add: m ancestor_def\<close>)

lemma flat_Nil: "flat_item (struct_write [] v) (struct_read []) {} ft id g"
  by (simp add: flat_item_def override_on_def)

lemma flat_Cons:
  assumes m: "flat_item (m_serialize m v) (m_deserialize m) N ft u g"
    and ms: "flat_item (struct_write ms v) (struct_read ms) N' ft' u' g'"
    and "N \<inter> N' = {}" and "\<And>old. ft old \<Longrightarrow> ft' (u old)"
  shows "flat_item (struct_write (m # ms) v) (struct_read (m # ms)) (N \<union> N') ft (u' \<circ> u) (override_on g' g N)"
  unfolding flat_item_def
proof (intro conjI allI impI)
  fix s f assume s: "w_s s f" "\<forall>n \<in> N \<union> N'. f n = None"
  from flat_write [OF m s(1)] s(2) obtain s1 where s1: "m_serialize m v s = Inr s1" "w_s s1 (override_on f g N)" by blast
  have "\<forall>n \<in> N'. override_on f g N n = None" using s(2) assms(3) by (auto simp: override_on_def)
  from flat_write [OF ms s1(2) this] obtain s2 where
    s2: "struct_write ms v s1 = Inr s2" "w_s s2 (override_on (override_on f g N) g' N')" by blast
  moreover have "override_on (override_on f g N) g' N' = override_on f (override_on g' g N) (N \<union> N')"
    using assms(3) by (auto simp: override_on_def fun_eq_iff)
  ultimately show "\<exists>s'. struct_write (m # ms) v s = Inr s' \<and> w_s s' (override_on f (override_on g' g N) (N \<union> N'))"
    using s1(1) by simp
next
  fix ds f old assume ds: "shows_s f ds" "\<forall>n \<in> N \<union> N'. f n = override_on g' g N n" "ft old"
  have "\<forall>n \<in> N. f n = g n" "\<forall>n \<in> N'. f n = g' n" using ds(2) assms(3) by (auto simp: override_on_def)
  from flat_read [OF m ds(1) this(1) ds(3)] obtain ds1 where
    ds1: "m_deserialize m ds old = (Inr (u old), ds1)" "shows_s f ds1" by blast
  from flat_read [OF ms ds1(2) \<open>\<forall>n \<in> N'. f n = g' n\<close> assms(4) [OF ds(3)]] ds1(1)
  show "\<exists>ds'. struct_read (m # ms) ds old = (Inr ((u' \<circ> u) old), ds') \<and> shows_s f ds'" by auto
qed

lemma struct_codec:
  assumes "ft z" and "\<And>v. ok v \<Longrightarrow> \<exists>N u g. flat_item (struct_write ms v) (struct_read ms) N ft u g \<and>
      (\<forall>old. ft old \<longrightarrow> u old = v) \<and> (sol v \<longrightarrow> (\<exists>n \<in> N. g n \<noteq> None))"
  shows "codec (struct_assembler W R ms z) (comp_spec empty_null ft ok sol)" (is "codec ?A ?S")
proof (rule codecI)
  fix v assume "ok_el ?S v"
  then have "ok v" by (simp add: comp_spec_def)
  from assms(2) [OF this] obtain N u g where it: "flat_item (struct_write ms v) (struct_read ms) N ft u g"
    and u: "\<forall>old. ft old \<longrightarrow> u old = v" by blast
  let ?g = "override_on Map.empty g N"
  from flat_write [OF it open_s] obtain c where c: "struct_write ms v (open_struct W) = Inr c" "w_s c ?g" by auto
  have "el_item ?A ft v (Some (IStruct ?g))"
    unfolding el_item_def
  proof (intro conjI allI impI)
    fix n ds f old assume ds: "shows_s f ds" "f n = Some (IStruct ?g)" "ft old"
    from get_s [OF ds(1,2)] obtain d where d: "get_struct R n ds = Inr (Some d)" "shows_s ?g d" by blast
    from flat_read [OF it d(2) _ ds(3)] obtain d' where "struct_read ms d old = (Inr (u old), d')"
      by (auto simp: override_on_def)
    with d(1) u ds(1,3) show "\<exists>ds'. deserializeElement ?A n ds old = (Inr v, ds') \<and> shows_s f ds'"
      by (simp add: struct_assembler_def)
  qed (use c put_s in \<open>simp add: struct_assembler_def\<close>)
  then show "\<exists>io. el_item ?A (fits ?S) v io \<and> (sol_el ?S v \<longrightarrow> io \<noteq> None)" by (auto simp: comp_spec_def)
next
  fix v assume "ok_ar ?S v"
  then have "ok v" by (simp add: comp_spec_def)
  from assms(2) [OF this] obtain N u g where it: "flat_item (struct_write ms v) (struct_read ms) N ft u g"
    and u: "\<forall>old. ft old \<longrightarrow> u old = v" and sol: "sol v \<longrightarrow> (\<exists>n \<in> N. g n \<noteq> None)" by blast
  let ?g = "override_on Map.empty g N"
  from flat_write [OF it open_s] obtain c where c: "struct_write ms v (open_struct W) = Inr c" "w_s c ?g" by auto
  have "ar_item ?A ft v (IStruct ?g)"
    unfolding ar_item_def
  proof (intro conjI allI impI)
    fix da its old assume da: "shows_a (IStruct ?g # its) da" "ft old"
    from next_s [OF da(1)] obtain d da' where d: "next_struct R da = (Inr (Some d), da')" "shows_s ?g d" "shows_a its da'" by blast
    from flat_read [OF it d(2) _ da(2)] obtain d' where "struct_read ms d old = (Inr (u old), d')"
      by (auto simp: override_on_def)
    with d u da(2) show "\<exists>da'. deserialize ?A da old = (Inr v, da') \<and> shows_a its da'"
      by (simp add: struct_assembler_def)
  qed (use c push_s in \<open>simp add: struct_assembler_def\<close>)
  moreover have "sol v \<Longrightarrow> ?g \<noteq> Map.empty" using sol by (auto simp: override_on_def fun_eq_iff)
  ultimately show "\<exists>it. ar_item ?A (fits ?S) v it \<and> (sol_ar ?S v \<longrightarrow> \<not> nullish empty_null it)"
    by (intro exI [of _ "IStruct ?g"]) (auto simp: comp_spec_def)
qed (use assms(1) in \<open>simp add: comp_spec_def struct_assembler_def\<close>)

end

end
