(* ===== verification/SerialTypes.thy ===== *)
theory SerialTypes
  imports SerialCodec
begin

text \<open>
  The types \<open>ObjectAssembler\<close> is instantiated for, as a datatype, so that one statement can speak
  of all of them.  A node is a C++ object of such a type; \<open>asm\<close> puts the specialisations together
  the way template instantiation does; \<open>store\<close> says which nodes survive in a format.
\<close>

section \<open>Types and nodes\<close>

datatype 'f node =
    NInt int | NBool bool | NFloat 'f | NStr string
  | NOpt "'f node option" | NList "'f node list" | NTup "'f node list"
  | NMap "(int \<times> 'f node) list" | NStrMap "(string \<times> 'f node) list" | NStruct "'f node list"

datatype ty =
    TInt nat bool | TBool | TFloat | TStr | TEnum "(string \<times> int) list"
  | TOpt ty | TList ty | TTup "ty list"
  | TMap nat bool ty | TStrMap ty | TStruct "(string \<times> ty) list"

fun un_int where "un_int (NInt i) = i" | "un_int _ = 0"
fun un_bool where "un_bool (NBool b) = b" | "un_bool _ = False"
fun un_float where "un_float z (NFloat x) = x" | "un_float z _ = z"
fun un_str where "un_str (NStr s) = s" | "un_str _ = []"
fun un_opt where "un_opt (NOpt v) = v" | "un_opt _ = None"
fun un_list where "un_list (NList vs) = vs" | "un_list _ = []"
fun un_tup where "un_tup (NTup vs) = vs" | "un_tup _ = []"
fun un_map where "un_map (NMap m) = m" | "un_map _ = []"
fun un_strmap where "un_strmap (NStrMap m) = m" | "un_strmap _ = []"
fun un_struct where "un_struct (NStruct vs) = vs" | "un_struct _ = []"

text \<open>An assembler of C++ values as one of nodes.\<close>

definition lift :: "('x \<Rightarrow> 'n) \<Rightarrow> ('n \<Rightarrow> 'x) \<Rightarrow> ('x, 's, 'a, 'ds, 'da) assembler \<Rightarrow> ('n, 's, 'a, 'ds, 'da) assembler" where
  "lift mk un A =
     \<lparr>serializeElement = (\<lambda>name v. serializeElement A name (un v)), serialize = (\<lambda>v. serialize A (un v)),
      deserializeElement = (\<lambda>name ds old. apfst (map_sum id mk) (deserializeElement A name ds (un old))),
      deserialize = (\<lambda>da old. apfst (map_sum id mk) (deserialize A da (un old))),
      graph_of = graph_of A, fresh = mk (fresh A)\<rparr>"

text \<open>The members of a structure and the elements of a tuple, by their position.\<close>

definition row_members :: "('x list \<Rightarrow> 'n) \<Rightarrow> ('n \<Rightarrow> 'x list) \<Rightarrow> nat \<Rightarrow> (string \<times> ('x, 's, 'a, 'ds, 'da) assembler) list \<Rightarrow>
    ('n, 's, 'ds) base_member list" where
  "row_members mk un k nAs =
     map (\<lambda>(i, name, A). typed_member name i A (\<lambda>n. un n ! i) (\<lambda>x n. mk ((un n)[i := x]))) (enumerate k nAs)"

definition row_elements :: "('x list \<Rightarrow> 'n) \<Rightarrow> ('n \<Rightarrow> 'x list) \<Rightarrow> nat \<Rightarrow> ('x, 's, 'a, 'ds, 'da) assembler list \<Rightarrow>
    ('n, 'a, 'da) tuple_element list" where
  "row_elements mk un k As =
     map (\<lambda>(i, A). std_get A (\<lambda>n. un n ! i) (\<lambda>x n. mk ((un n)[i := x]))) (enumerate k As)"

primrec asm :: "nat \<Rightarrow> ('f, 's, 'a) writer \<Rightarrow> ('f, 'ds, 'da) reader \<Rightarrow> ('f, 'f) float_conv \<Rightarrow> ty \<Rightarrow>
    ('f node, 's, 'a, 'ds, 'da) assembler" where
  "asm fuel W R fc (TInt bits sgnd) = lift NInt un_int (int_assembler W R bits sgnd)"
| "asm fuel W R fc TBool = lift NBool un_bool (bool_assembler W R)"
| "asm fuel W R fc TFloat = lift NFloat (un_float (float_zero fc)) (float_assembler W R fc)"
| "asm fuel W R fc TStr = lift NStr un_str (string_assembler W R)"
| "asm fuel W R fc (TEnum m) = lift NInt un_int (enum_assembler W R m)"
| "asm fuel W R fc (TOpt t) = lift NOpt un_opt (optional_assembler W R (asm fuel W R fc t))"
| "asm fuel W R fc (TList t) = lift NList un_list (list_assembler fuel W R (asm fuel W R fc t))"
| "asm fuel W R fc (TTup ts) =
     tuple_assembler W R (row_elements NTup un_tup 0 (map (asm fuel W R fc) ts)) (NTup (map fresh (map (asm fuel W R fc) ts)))"
| "asm fuel W R fc (TMap bits sgnd t) =
     lift NMap un_map (map_assembler fuel W R (int_assembler W R bits sgnd) (asm fuel W R fc t))"
| "asm fuel W R fc (TStrMap t) = lift NStrMap un_strmap (strmap_assembler fuel W R (asm fuel W R fc t))"
| "asm fuel W R fc (TStruct ms) =
     struct_assembler W R (row_members NStruct un_struct 0 (map (map_prod id (asm fuel W R fc)) ms))
       (NStruct (map fresh (map snd (map (map_prod id (asm fuel W R fc)) ms))))"

definition asm_members :: "nat \<Rightarrow> ('f, 's, 'a) writer \<Rightarrow> ('f, 'ds, 'da) reader \<Rightarrow> ('f, 'f) float_conv \<Rightarrow> (string \<times> ty) list \<Rightarrow>
    ('f node, 's, 'ds) base_member list" where
  "asm_members fuel W R fc ms = row_members NStruct un_struct 0 (map (map_prod id (asm fuel W R fc)) ms)"

section \<open>Which nodes survive\<close>

definition lift_spec :: "('x \<Rightarrow> 'n) \<Rightarrow> 'x spec \<Rightarrow> 'n spec" where
  "lift_spec mk S =
     \<lparr>fits = \<lambda>n. \<exists>x. n = mk x \<and> fits S x, ok_el = \<lambda>n. \<exists>x. n = mk x \<and> ok_el S x, ok_ar = \<lambda>n. \<exists>x. n = mk x \<and> ok_ar S x,
      sol_el = \<lambda>n. \<exists>x. n = mk x \<and> sol_el S x, sol_ar = \<lambda>n. \<exists>x. n = mk x \<and> sol_ar S x\<rparr>"

definition row_spec :: "bool \<Rightarrow> ('x list \<Rightarrow> 'n) \<Rightarrow> ('x spec \<Rightarrow> 'x \<Rightarrow> bool) \<Rightarrow> ('x spec list \<Rightarrow> 'n \<Rightarrow> bool) \<Rightarrow> 'x spec list \<Rightarrow> 'n spec" where
  "row_spec en mk ok sol Ss =
     comp_spec en (\<lambda>n. \<exists>xs. n = mk xs \<and> list_all2 fits Ss xs) (\<lambda>n. \<exists>xs. n = mk xs \<and> list_all2 ok Ss xs)
       (sol Ss)"

text \<open>\<open>en\<close>: the format has no null; \<open>nm\<close>: the names it can write; \<open>prim_ok\<close>: the primitives it keeps.\<close>

primrec store :: "bool \<Rightarrow> (string \<Rightarrow> bool) \<Rightarrow> ('f cpp_value \<Rightarrow> bool) \<Rightarrow> nat \<Rightarrow> ('f, 'f) float_conv \<Rightarrow> ty \<Rightarrow> 'f node spec" where
  "store en nm prim_ok fuel fc (TInt bits sgnd) = lift_spec NInt (prim_spec (\<lambda>v. int_min bits sgnd \<le> v \<and> v \<le> int_max bits sgnd))"
| "store en nm prim_ok fuel fc TBool = lift_spec NBool (prim_spec (\<lambda>_. True))"
| "store en nm prim_ok fuel fc TFloat = lift_spec NFloat
     (prim_spec (\<lambda>x. prim_ok (VDouble (to_double fc x)) \<and> from_double fc (to_double fc x) = x))"
| "store en nm prim_ok fuel fc TStr = lift_spec NStr (prim_spec (\<lambda>s. prim_ok (VString s)))"
| "store en nm prim_ok fuel fc (TEnum m) = lift_spec NInt (prim_spec (\<lambda>v. v \<in> snd ` set m))"
| "store en nm prim_ok fuel fc (TOpt t) = lift_spec NOpt (opt_spec (store en nm prim_ok fuel fc t))"
| "store en nm prim_ok fuel fc (TList t) = lift_spec NList (list_spec en fuel (store en nm prim_ok fuel fc t))"
| "store en nm prim_ok fuel fc (TTup ts) = row_spec en NTup ok_ar (\<lambda>Ss n. Ss \<noteq> []) (map (store en nm prim_ok fuel fc) ts)"
| "store en nm prim_ok fuel fc (TMap bits sgnd t) = lift_spec NMap (map_spec en fuel
     (prim_spec (\<lambda>v. int_min bits sgnd \<le> v \<and> v \<le> int_max bits sgnd)) (store en nm prim_ok fuel fc t))"
| "store en nm prim_ok fuel fc (TStrMap t) = lift_spec NStrMap (strmap_spec en nm fuel (store en nm prim_ok fuel fc t))"
| "store en nm prim_ok fuel fc (TStruct ms) = row_spec en NStruct ok_el (\<lambda>Ss n. \<exists>i < length Ss. sol_el (Ss ! i) (un_struct n ! i))
     (map snd (map (map_prod id (store en nm prim_ok fuel fc)) ms))"

text \<open>Types C++ has: widths up to 64 bits, distinct names.\<close>

primrec wf_ty :: "(string \<Rightarrow> bool) \<Rightarrow> ('f cpp_value \<Rightarrow> bool) \<Rightarrow> ty \<Rightarrow> bool" where
  "wf_ty nm prim_ok (TInt bits sgnd) = (1 \<le> bits \<and> bits \<le> 64)"
| "wf_ty nm prim_ok TBool = True"
| "wf_ty nm prim_ok TFloat = True"
| "wf_ty nm prim_ok TStr = True"
| "wf_ty nm prim_ok (TEnum m) = (omap_inv m \<and> (\<forall>n \<in> fst ` set m. prim_ok (VString n)))"
| "wf_ty nm prim_ok (TOpt t) = wf_ty nm prim_ok t"
| "wf_ty nm prim_ok (TList t) = wf_ty nm prim_ok t"
| "wf_ty nm prim_ok (TTup ts) = list_all id (map (wf_ty nm prim_ok) ts)"
| "wf_ty nm prim_ok (TMap bits sgnd t) = (1 \<le> bits \<and> bits \<le> 64 \<and> wf_ty nm prim_ok t)"
| "wf_ty nm prim_ok (TStrMap t) = wf_ty nm prim_ok t"
| "wf_ty nm prim_ok (TStruct ms) = (distinct (map fst ms) \<and> list_all nm (map fst ms) \<and> list_all snd (map (map_prod id (wf_ty nm prim_ok)) ms))"

section \<open>Every assembler of the universe reads back what it writes\<close>

lemma list_update_take_drop:
  "k < length xs \<Longrightarrow> length ys = length xs \<Longrightarrow> take (Suc k) (ys[k := xs ! k]) @ drop (Suc k) xs = take k ys @ drop k xs"
  by (simp add: take_Suc_conv_app_nth Cons_nth_drop_Suc)

context archive
begin

lemma lift_codec:
  assumes un: "\<And>x. un (mk x) = x" and A: "codec A S"
  shows "codec (lift mk un A) (lift_spec mk S)"
proof -
  have "inj mk" by (rule inj_on_inverseI [of _ un]) (rule un)
  then have inj: "mk x = mk y \<longleftrightarrow> x = y" for x y by (auto dest: injD)
  show ?thesis
proof (rule codecI)
  show "fits (lift_spec mk S) (fresh (lift mk un A))"
    using codec_fresh [OF A] by (auto simp: lift_spec_def lift_def)
next
  fix n assume "ok_el (lift_spec mk S) n"
  then obtain x where x: "n = mk x" "ok_el S x" by (auto simp: lift_spec_def)
  from codec_elE [OF A x(2)] obtain io where io: "el_item A (fits S) x io" "sol_el S x \<longrightarrow> io \<noteq> None" by blast
  have "el_item (lift mk un A) (fits (lift_spec mk S)) n io"
    unfolding el_item_def
  proof (intro conjI allI impI)
    fix m ds f old assume ds: "shows_s f ds" "f m = io" "fits (lift_spec mk S) old"
    then have "fits S (un old)" using un by (auto simp: lift_spec_def)
    from el_item_read [OF io(1) ds(1,2) this] x(1)
    show "\<exists>ds'. deserializeElement (lift mk un A) m ds old = (Inr n, ds') \<and> shows_s f ds'" by (auto simp: lift_def)
  qed (use el_item_write [OF io(1)] x(1) un in \<open>simp add: lift_def\<close>)
  then show "\<exists>io. el_item (lift mk un A) (fits (lift_spec mk S)) n io \<and> (sol_el (lift_spec mk S) n \<longrightarrow> io \<noteq> None)"
    using io(2) x(1) inj by (auto simp: lift_spec_def)
next
  fix n assume "ok_ar (lift_spec mk S) n"
  then obtain x where x: "n = mk x" "ok_ar S x" by (auto simp: lift_spec_def)
  from codec_arE [OF A x(2)] obtain it where it: "ar_item A (fits S) x it" "sol_ar S x \<longrightarrow> \<not> nullish empty_null it" by blast
  have "ar_item (lift mk un A) (fits (lift_spec mk S)) n it"
    unfolding ar_item_def
  proof (intro conjI allI impI)
    fix da its old assume da: "shows_a (it # its) da" "fits (lift_spec mk S) old"
    then have "fits S (un old)" using un by (auto simp: lift_spec_def)
    from ar_item_read [OF it(1) da(1) this] x(1)
    show "\<exists>da'. deserialize (lift mk un A) da old = (Inr n, da') \<and> shows_a its da'" by (auto simp: lift_def)
  qed (use ar_item_write [OF it(1)] x(1) un in \<open>simp add: lift_def\<close>)
  then show "\<exists>it. ar_item (lift mk un A) (fits (lift_spec mk S)) n it \<and> (sol_ar (lift_spec mk S) n \<longrightarrow> \<not> nullish empty_null it)"
    using it(2) x(1) inj by (auto simp: lift_spec_def)
qed
qed

text \<open>The members from position \<open>k\<close> on copy the elements from \<open>k\<close> on.\<close>

lemma flat_cong:
  "flat_item wr rd N ft u g \<Longrightarrow> (\<And>old. ft old \<Longrightarrow> u old = u' old) \<Longrightarrow> flat_item wr rd N ft u' g"
  by (auto simp: flat_item_def)

text \<open>The elements from \<open>k\<close> on still fit; those before have been read.\<close>

definition row_fits :: "('x list \<Rightarrow> 'n) \<Rightarrow> 'x spec list \<Rightarrow> nat \<Rightarrow> 'n \<Rightarrow> bool" where
  "row_fits mk Ss k n \<longleftrightarrow> (\<exists>ys. n = mk ys \<and> length ys = length Ss \<and> (\<forall>i. k \<le> i \<longrightarrow> i < length Ss \<longrightarrow> fits (Ss ! i) (ys ! i)))"

lemma row_fits_0: "row_fits mk Ss 0 n \<longleftrightarrow> (\<exists>ys. n = mk ys \<and> list_all2 fits Ss ys)"
  by (auto simp: row_fits_def list_all2_conv_all_nth)

lemma row_put:
  assumes "\<And>xs. un (mk xs) = xs" "row_fits mk Ss k n"
  shows "row_fits mk Ss (Suc k) (mk ((un n)[k := x]))"
  using assms by (auto simp: row_fits_def nth_list_update)

lemma row_get: "(\<And>xs. un (mk xs) = xs) \<Longrightarrow> row_fits mk Ss k n \<Longrightarrow> k < length Ss \<Longrightarrow> fits (Ss ! k) (un n ! k)"
  by (auto simp: row_fits_def)

lemma row_copy:
  assumes "\<And>xs. un (mk xs) = xs" "row_fits mk Ss k n" "k < length xs" "length Ss = length xs"
  shows "((\<lambda>n. mk (take (Suc k) (un n) @ drop (Suc k) xs)) \<circ> (\<lambda>n. mk ((un n)[k := xs ! k]))) n =
    mk (take k (un n) @ drop k xs)"
  using assms list_update_take_drop [of k xs] by (auto simp: row_fits_def)

lemma row_done:
  assumes "\<And>xs. un (mk xs) = xs" "row_fits mk Ss (length xs) n" "length Ss = length xs"
  shows "mk (take (length xs) (un n) @ drop (length xs) xs) = n"
  using assms by (auto simp: row_fits_def)

lemma row_flat:
  assumes un: "\<And>xs. un (mk xs) = xs" and "distinct (map fst nAs) \<and> list_all name_ok (map fst nAs)"
    and "length xs = k + length nAs" "length Ss = k + length nAs"
    and "\<And>i. i < length nAs \<Longrightarrow> codec (snd (nAs ! i)) (Ss ! (k + i)) \<and> ok_el (Ss ! (k + i)) (xs ! (k + i))"
  shows "\<exists>g. flat_item (struct_write (row_members mk un k nAs) (mk xs)) (struct_read (row_members mk un k nAs))
      (fst ` set nAs) (row_fits mk Ss k) (\<lambda>n. mk (take k (un n) @ drop k xs)) g \<and>
    (\<forall>i < length nAs. sol_el (Ss ! (k + i)) (xs ! (k + i)) \<longrightarrow> g (fst (nAs ! i)) \<noteq> None)"
  using assms(2-)
proof (induction nAs arbitrary: k)
  case Nil
  have "flat_item (struct_write [] (mk xs)) (struct_read []) {} (row_fits mk Ss k) (\<lambda>n. mk (take k (un n) @ drop k xs)) Map.empty"
  proof (rule flat_cong [OF flat_Nil])
    fix n assume "row_fits mk Ss k n"
    then show "id n = mk (take k (un n) @ drop k xs)"
      using row_done [where un = un and mk = mk and Ss = Ss and xs = xs and n = n, OF un] Nil(2,3) by simp
  qed
  then show ?case
    by (intro exI [of _ Map.empty]) (simp add: row_members_def del: struct_write.simps struct_read.simps)
next
  case (Cons nA nAs)
  obtain name A where nA: "nA = (name, A)" by fastforce
  have k: "k < length xs" "k < length Ss" "length Ss = length xs" using Cons.prems(2,3) by simp_all
  let ?m = "typed_member name k A (\<lambda>n. un n ! k) (\<lambda>x n. mk ((un n)[k := x]))"
  have A: "codec A (Ss ! k)" "ok_el (Ss ! k) (xs ! k)" using Cons.prems(4) [of 0] nA by simp_all
  have nm: "name_ok name" using Cons.prems(1) nA by simp
  from codec_elE [OF A] obtain io where
    io: "el_item A (fits (Ss ! k)) (xs ! k) io" "sol_el (Ss ! k) (xs ! k) \<longrightarrow> io \<noteq> None" by blast
  have 1: "flat_item (m_serialize ?m (mk xs)) (m_deserialize ?m) {name} (row_fits mk Ss k) (\<lambda>n. mk ((un n)[k := xs ! k])) (\<lambda>_. io)"
    using typed_member_item [where get = "\<lambda>n. un n ! k" and v = "mk xs" and A = A and S = "Ss ! k" and io = io
        and ft = "row_fits mk Ss k" and put = "\<lambda>x n. mk ((un n)[k := x])" and name = name and p = k,
        OF _ row_get [where un = un and mk = mk, OF un _ k(2)] nm refl] io(1) un by simp
  have "\<exists>g. flat_item (struct_write (row_members mk un (Suc k) nAs) (mk xs)) (struct_read (row_members mk un (Suc k) nAs))
      (fst ` set nAs) (row_fits mk Ss (Suc k)) (\<lambda>n. mk (take (Suc k) (un n) @ drop (Suc k) xs)) g \<and>
    (\<forall>i < length nAs. sol_el (Ss ! (Suc k + i)) (xs ! (Suc k + i)) \<longrightarrow> g (fst (nAs ! i)) \<noteq> None)"
  proof (rule Cons.IH)
    fix i assume "i < length nAs"
    with Cons.prems(4) [of "Suc i"] show "codec (snd (nAs ! i)) (Ss ! (Suc k + i)) \<and> ok_el (Ss ! (Suc k + i)) (xs ! (Suc k + i))"
      by simp
  qed (use Cons.prems in simp_all)
  then obtain g where g: "flat_item (struct_write (row_members mk un (Suc k) nAs) (mk xs)) (struct_read (row_members mk un (Suc k) nAs))
      (fst ` set nAs) (row_fits mk Ss (Suc k)) (\<lambda>n. mk (take (Suc k) (un n) @ drop (Suc k) xs)) g"
    "\<forall>i < length nAs. sol_el (Ss ! (Suc k + i)) (xs ! (Suc k + i)) \<longrightarrow> g (fst (nAs ! i)) \<noteq> None" by blast
  have members: "row_members mk un k ((name, A) # nAs) = ?m # row_members mk un (Suc k) nAs"
    by (simp add: row_members_def)
  have disj: "{name} \<inter> fst ` set nAs = {}" using Cons.prems(1) nA by simp
  let ?g = "override_on g (\<lambda>_. io) {name}"
  have "flat_item (struct_write (row_members mk un k (nA # nAs)) (mk xs)) (struct_read (row_members mk un k (nA # nAs)))
      (fst ` set (nA # nAs)) (row_fits mk Ss k) (\<lambda>n. mk (take k (un n) @ drop k xs)) ?g"
    using flat_cong [OF flat_Cons [OF 1 g(1) disj row_put [where un = un and mk = mk, OF un]] row_copy [where un = un and mk = mk, OF un _ k(1,3)]]
    by (simp add: members nA del: struct_write.simps struct_read.simps)
  moreover have "\<forall>i < length (nA # nAs). sol_el (Ss ! (k + i)) (xs ! (k + i)) \<longrightarrow> ?g (fst ((nA # nAs) ! i)) \<noteq> None"
  proof (intro allI impI)
    fix i assume i: "i < length (nA # nAs)" "sol_el (Ss ! (k + i)) (xs ! (k + i))"
    show "?g (fst ((nA # nAs) ! i)) \<noteq> None"
    proof (cases i)
      case 0
      then show ?thesis using i io(2) nA by (simp add: override_on_def)
    next
      case (Suc j)
      then have "fst (nAs ! j) \<noteq> name" using i(1) disj by (force simp: set_conv_nth)
      with Suc i g(2) show ?thesis by (simp add: override_on_def)
    qed
  qed
  ultimately show ?case by blast
qed

lemma fresh_fits: "list_all2 codec As Ss \<Longrightarrow> list_all2 fits Ss (map fresh As)"
  by (simp add: list_all2_conv_all_nth codec_fresh)

lemma row_struct_item:
  assumes un: "\<And>xs. un (mk xs) = xs" and names: "distinct (map fst nAs) \<and> list_all name_ok (map fst nAs)"
    and cs: "list_all2 codec (map snd nAs) Ss" and ok: "list_all2 ok_el Ss xs"
  shows "\<exists>g. flat_item (struct_write (row_members mk un 0 nAs) (mk xs)) (struct_read (row_members mk un 0 nAs))
      (fst ` set nAs) (\<lambda>n. \<exists>xs. n = mk xs \<and> list_all2 fits Ss xs) (\<lambda>n. mk xs) g \<and>
    ((\<exists>i < length Ss. sol_el (Ss ! i) (xs ! i)) \<longrightarrow> (\<exists>n \<in> fst ` set nAs. g n \<noteq> None))"
proof -
  have len: "length Ss = length nAs" using cs by (auto dest: list_all2_lengthD)
  have "\<exists>g. flat_item (struct_write (row_members mk un 0 nAs) (mk xs)) (struct_read (row_members mk un 0 nAs))
      (fst ` set nAs) (row_fits mk Ss 0) (\<lambda>n. mk (take 0 (un n) @ drop 0 xs)) g \<and>
    (\<forall>i < length nAs. sol_el (Ss ! (0 + i)) (xs ! (0 + i)) \<longrightarrow> g (fst (nAs ! i)) \<noteq> None)"
    using names cs ok len by (intro row_flat un) (auto simp: list_all2_conv_all_nth)
  then obtain g where g: "flat_item (struct_write (row_members mk un 0 nAs) (mk xs)) (struct_read (row_members mk un 0 nAs))
      (fst ` set nAs) (row_fits mk Ss 0) (\<lambda>n. mk xs) g"
    "\<And>i. i < length nAs \<Longrightarrow> sol_el (Ss ! i) (xs ! i) \<Longrightarrow> g (fst (nAs ! i)) \<noteq> None" by auto
  have "\<exists>n \<in> fst ` set nAs. g n \<noteq> None" if "\<exists>i < length Ss. sol_el (Ss ! i) (xs ! i)"
    using that g(2) len by (metis image_eqI nth_mem)
  moreover have "row_fits mk Ss 0 = (\<lambda>n. \<exists>xs. n = mk xs \<and> list_all2 fits Ss xs)"
    by (intro ext row_fits_0)
  ultimately show ?thesis using g(1) by (intro exI [of _ g]) simp
qed

lemma row_struct_codec:
  assumes un: "\<And>xs. un (mk xs) = xs" and names: "distinct (map fst nAs) \<and> list_all name_ok (map fst nAs)"
    and cs: "list_all2 codec (map snd nAs) Ss"
  shows "codec (struct_assembler W R (row_members mk un 0 nAs) (mk (map fresh (map snd nAs))))
    (row_spec empty_null mk ok_el (\<lambda>Ss n. \<exists>i < length Ss. sol_el (Ss ! i) (un n ! i)) Ss)"
  unfolding row_spec_def
proof (rule struct_codec)
  show "\<exists>xs. mk (map fresh (map snd nAs)) = mk xs \<and> list_all2 fits Ss xs"
    by (intro exI [of _ "map fresh (map snd nAs)"] conjI refl fresh_fits cs)
  fix v assume "\<exists>xs. v = mk xs \<and> list_all2 ok_el Ss xs"
  then obtain xs where v: "v = mk xs" "list_all2 ok_el Ss xs" by blast
  from row_struct_item [where mk = mk and un = un, OF un names cs v(2)] obtain g where
    g: "flat_item (struct_write (row_members mk un 0 nAs) v) (struct_read (row_members mk un 0 nAs))
      (fst ` set nAs) (\<lambda>n. \<exists>xs. n = mk xs \<and> list_all2 fits Ss xs) (\<lambda>n. v) g"
      "(\<exists>i < length Ss. sol_el (Ss ! i) (un v ! i)) \<longrightarrow> (\<exists>n \<in> fst ` set nAs. g n \<noteq> None)"
    unfolding v(1) un by blast
  show "\<exists>N u g. flat_item (struct_write (row_members mk un 0 nAs) v) (struct_read (row_members mk un 0 nAs)) N
      (\<lambda>n. \<exists>xs. n = mk xs \<and> list_all2 fits Ss xs) u g \<and>
    (\<forall>old. (\<exists>xs. old = mk xs \<and> list_all2 fits Ss xs) \<longrightarrow> u old = v) \<and>
    ((\<exists>i < length Ss. sol_el (Ss ! i) (un v ! i)) \<longrightarrow> (\<exists>n \<in> N. g n \<noteq> None))"
    using g by (intro exI [of _ "fst ` set nAs"] exI [of _ "\<lambda>n. v"] exI [of _ g]) simp
qed

lemma row_tup:
  assumes un: "\<And>xs. un (mk xs) = xs"
    and "length xs = k + length As" "length Ss = k + length As"
    and "\<And>i. i < length As \<Longrightarrow> codec (As ! i) (Ss ! (k + i)) \<and> ok_ar (Ss ! (k + i)) (xs ! (k + i))"
  shows "\<exists>its. tup_items (row_elements mk un k As) (row_fits mk Ss k) (\<lambda>n. mk (take k (un n) @ drop k xs)) (mk xs) its \<and>
    length its = length As"
  using assms(2-)
proof (induction As arbitrary: k)
  case Nil
  have "tup_items [] (row_fits mk Ss k) (\<lambda>n. mk (take k (un n) @ drop k xs)) (mk xs) []"
    unfolding tup_items_def
  proof (intro conjI allI impI)
    fix da n assume "row_fits mk Ss k n"
    then show "deserializeTupleElements [] da n = Inr (mk (take k (un n) @ drop k xs))"
      using row_done [where un = un and mk = mk and Ss = Ss and xs = xs and n = n, OF un] Nil(1,2) by simp
  qed simp
  then show ?case by (intro exI [of _ "[]"]) (simp add: row_elements_def)
next
  case (Cons A As)
  have k: "k < length xs" "k < length Ss" "length Ss = length xs" using Cons.prems(1,2) by simp_all
  let ?e = "std_get A (\<lambda>n. un n ! k) (\<lambda>x n. mk ((un n)[k := x]))"
  have A: "codec A (Ss ! k)" "ok_ar (Ss ! k) (xs ! k)" using Cons.prems(3) [of 0] by simp_all
  from codec_arE [OF A] obtain it where it: "ar_item A (fits (Ss ! k)) (xs ! k) it" by blast
  have 1: "tup_item ?e (row_fits mk Ss k) (\<lambda>n. mk ((un n)[k := xs ! k])) (mk xs) it"
    using std_get_item [where get = "\<lambda>n. un n ! k" and v = "mk xs" and A = A and S = "Ss ! k" and it = it
        and ft = "row_fits mk Ss k" and put = "\<lambda>x n. mk ((un n)[k := x])",
        OF _ row_get [where un = un and mk = mk, OF un _ k(2)]] it un by simp
  have "\<exists>its. tup_items (row_elements mk un (Suc k) As) (row_fits mk Ss (Suc k))
      (\<lambda>n. mk (take (Suc k) (un n) @ drop (Suc k) xs)) (mk xs) its \<and> length its = length As"
  proof (rule Cons.IH)
    fix i assume "i < length As"
    with Cons.prems(3) [of "Suc i"] show "codec (As ! i) (Ss ! (Suc k + i)) \<and> ok_ar (Ss ! (Suc k + i)) (xs ! (Suc k + i))"
      by simp
  qed (use Cons.prems in simp_all)
  then obtain its where its: "tup_items (row_elements mk un (Suc k) As) (row_fits mk Ss (Suc k))
      (\<lambda>n. mk (take (Suc k) (un n) @ drop (Suc k) xs)) (mk xs) its" "length its = length As" by blast
  have "tup_items (row_elements mk un k (A # As)) (row_fits mk Ss k)
      ((\<lambda>n. mk (take (Suc k) (un n) @ drop (Suc k) xs)) \<circ> (\<lambda>n. mk ((un n)[k := xs ! k]))) (mk xs) (it # its)"
    using tup_items_Cons [OF 1 its(1) row_put [where un = un and mk = mk, OF un]]
    by (simp add: row_elements_def)
  then have "tup_items (row_elements mk un k (A # As)) (row_fits mk Ss k)
      (\<lambda>n. mk (take k (un n) @ drop k xs)) (mk xs) (it # its)"
    using row_copy [where un = un and mk = mk, OF un _ k(1,3)] by (simp add: tup_items_def)
  then show ?case using its(2) by (intro exI [of _ "it # its"]) simp
qed

lemma row_tuple_codec:
  assumes un: "\<And>xs. un (mk xs) = xs" and cs: "list_all2 codec As Ss"
  shows "codec (tuple_assembler W R (row_elements mk un 0 As) (mk (map fresh As)))
    (row_spec empty_null mk ok_ar (\<lambda>Ss n. Ss \<noteq> []) Ss)"
proof -
  have len: "length Ss = length As" using cs by (auto dest: list_all2_lengthD)
  let ?es = "row_elements mk un 0 As"
  have ft: "row_fits mk Ss 0 = (\<lambda>n. \<exists>xs. n = mk xs \<and> list_all2 fits Ss xs)"
    by (intro ext row_fits_0)
  have "codec (tuple_assembler W R ?es (mk (map fresh As)))
      (comp_spec empty_null (row_fits mk Ss 0) (\<lambda>n. \<exists>xs. n = mk xs \<and> list_all2 ok_ar Ss xs) (\<lambda>_. ?es \<noteq> []))"
  proof (rule tuple_codec)
    show "row_fits mk Ss 0 (mk (map fresh As))"
      unfolding ft by (intro exI [of _ "map fresh As"] conjI refl fresh_fits cs)
    fix v assume "\<exists>xs. v = mk xs \<and> list_all2 ok_ar Ss xs"
    then obtain xs where v: "v = mk xs" "list_all2 ok_ar Ss xs" by blast
    have "\<exists>its. tup_items ?es (row_fits mk Ss 0) (\<lambda>n. mk (take 0 (un n) @ drop 0 xs)) (mk xs) its \<and> length its = length As"
      using cs v(2) len by (intro row_tup un) (auto simp: list_all2_conv_all_nth)
    then obtain its where "tup_items ?es (row_fits mk Ss 0) (\<lambda>n. v) v its" "length its = length As"
      by (auto simp: v(1))
    then show "\<exists>its u. tup_items ?es (row_fits mk Ss 0) u v its \<and> (\<forall>old. row_fits mk Ss 0 old \<longrightarrow> u old = v) \<and>
        (?es \<noteq> [] \<longrightarrow> its \<noteq> [])"
      by (intro exI [of _ its] exI [of _ "\<lambda>n. v"]) (auto simp: row_elements_def)
  qed
  moreover have "?es \<noteq> [] \<longleftrightarrow> Ss \<noteq> []"
    using len by (cases As) (auto simp: row_elements_def)
  ultimately show ?thesis by (simp add: row_spec_def ft)
qed

lemma asm_codec:
  assumes "wf_ty name_ok prim_ok t"
  shows "codec (asm fuel W R fc t) (store empty_null name_ok prim_ok fuel fc t)"
  using assms
proof (induction t)
  case (TTup ts)
  have "list_all2 codec (map (asm fuel W R fc) ts) (map (store empty_null name_ok prim_ok fuel fc) ts)"
    using TTup by (auto simp: list_all2_conv_all_nth list_all_length)
  then show ?case
    unfolding asm.simps store.simps by (rule row_tuple_codec [where mk = NTup and un = un_tup, OF un_tup.simps(1)])
next
  case (TStruct ms)
  have "codec (asm fuel W R fc (snd p)) (store empty_null name_ok prim_ok fuel fc (snd p))" if p: "p \<in> set ms" for p
  proof (rule TStruct.IH [OF p])
    show "snd p \<in> Basic_BNFs.snds p" by (cases p) (simp add: snds.intros)
    from TStruct.prems p show "wf_ty name_ok prim_ok (snd p)" by (auto simp: list_all_iff)
  qed
  then have "list_all2 codec (map snd (map (map_prod id (asm fuel W R fc)) ms))
      (map snd (map (map_prod id (store empty_null name_ok prim_ok fuel fc)) ms))"
    by (simp add: list_all2_conv_all_nth)
  moreover have "distinct (map fst (map (map_prod id (asm fuel W R fc)) ms)) \<and> list_all name_ok (map fst (map (map_prod id (asm fuel W R fc)) ms))" using TStruct.prems by (simp add: comp_def)
  ultimately show ?case
    unfolding asm.simps store.simps by (intro row_struct_codec [where mk = NStruct and un = un_struct, OF un_struct.simps(1)])
qed (simp_all add: lift_codec int_codec bool_codec float_codec string_codec enum_codec optional_codec list_codec map_codec strmap_codec)

text \<open>The members of a structure are written and read without a nested serializer at the root.\<close>

lemma asm_struct_item:
  assumes "wf_ty name_ok prim_ok (TStruct ms)" and "ok_el (store empty_null name_ok prim_ok fuel fc (TStruct ms)) v"
  shows "\<exists>N g. flat_item (struct_write (asm_members fuel W R fc ms) v) (struct_read (asm_members fuel W R fc ms)) N
    (fits (store empty_null name_ok prim_ok fuel fc (TStruct ms))) (\<lambda>n. v) g"
proof -
  let ?nAs = "map (map_prod id (asm fuel W R fc)) ms" and ?Ss = "map snd (map (map_prod id (store empty_null name_ok prim_ok fuel fc)) ms)"
  have "list_all2 codec (map snd ?nAs) ?Ss"
    using assms(1) by (auto simp: list_all2_conv_all_nth list_all_length intro!: asm_codec)
  moreover have "distinct (map fst ?nAs) \<and> list_all name_ok (map fst ?nAs)" using assms(1) by (simp add: comp_def)
  moreover from assms(2) obtain xs where "v = NStruct xs" "list_all2 ok_el ?Ss xs"
    by (auto simp: row_spec_def comp_spec_def)
  ultimately show ?thesis
    using row_struct_item [where mk = NStruct and un = un_struct and nAs = ?nAs and Ss = ?Ss and xs = xs, OF un_struct.simps(1)]
    by (auto simp: asm_members_def row_spec_def comp_spec_def)
qed

end

end
