(* ===== verification/SerialJson.thy ===== *)
theory SerialJson
  imports SerialTypes
begin

text \<open>
  \<open>components/serialization/extensions/json/\<close> and \<open>json.hh\<close>: the serializers over nlohmann's JSON
  values.  The library is a parameter, the record \<open>json_lib\<close>, and the locale \<open>json_library\<close> states
  what its documentation promises; from it follows that the JSON serializers are an \<open>archive\<close>.
\<close>

section \<open>The library\<close>

datatype json_type = JsonNull | JsonObject | JsonArray | JsonString | JsonBoolean | JsonInteger | JsonUnsigned | JsonFloat

text \<open>The operations of \<open>nlohmann::json\<close> the sources use, on values of type \<open>'j\<close> and texts \<open>'t\<close>:
  the conversions from C++ values, \<open>json()\<close>, \<open>object()\<close>, \<open>array()\<close>, \<open>j[name] = v\<close>, \<open>push_back\<close>,
  \<open>j[name]\<close> (with the value after it, which may have got a member), \<open>j[index]\<close>, \<open>find\<close>, the keys
  of its iteration, \<open>size\<close>, \<open>type\<close>, \<open>is_null\<close>, \<open>is_primitive\<close>, \<open>get<T>\<close>, \<open>dump\<close> and \<open>>>\<close>.\<close>

record ('f, 'j, 't) json_lib =
  j_value :: "'f cpp_value \<Rightarrow> 'j"
  j_null :: 'j
  j_object :: 'j
  j_array :: 'j
  j_assign :: "string \<Rightarrow> 'j \<Rightarrow> 'j \<Rightarrow> 'j"
  j_push :: "'j \<Rightarrow> 'j \<Rightarrow> 'j"
  j_member :: "string \<Rightarrow> 'j \<Rightarrow> cpp_error + 'j \<times> 'j"
  j_at :: "nat \<Rightarrow> 'j \<Rightarrow> cpp_error + 'j"
  j_find :: "string \<Rightarrow> 'j \<Rightarrow> 'j option"
  j_keys :: "'j \<Rightarrow> cpp_error + string list"
  j_size :: "'j \<Rightarrow> nat"
  j_type :: "'j \<Rightarrow> json_type"
  j_is_null :: "'j \<Rightarrow> bool"
  j_is_primitive :: "'j \<Rightarrow> bool"
  j_bool :: "'j \<Rightarrow> bool"
  j_int :: "'j \<Rightarrow> int"
  j_uint :: "'j \<Rightarrow> int"
  j_double :: "'j \<Rightarrow> 'f"
  j_string :: "'j \<Rightarrow> string"
  j_dump :: "'j \<Rightarrow> cpp_error + 't"
  j_parse :: "'t \<Rightarrow> cpp_error option + 'j"

section \<open>The serializers\<close>

text \<open>\<open>json_array_serializer.hh\<close>: the reference to the value, and whether the object is a
  \<open>RootJsonArraySerializer\<close>, whose \<open>serializeArray\<close> hands out its own value.\<close>

record 'j json_array =
  array_json :: 'j
  is_root :: bool

text \<open>The members of a structure: a value is assigned, and so is what a nested serializer has filled,
  which works on a reference to its place.\<close>

definition json_put_value :: "('f, 'j, 't) json_lib \<Rightarrow> string \<Rightarrow> 'f cpp_value \<Rightarrow> 'j \<Rightarrow> 'j" where
  "json_put_value J name v j = j_assign J name (j_value J v) j"

definition json_put_struct :: "('f, 'j, 't) json_lib \<Rightarrow> string \<Rightarrow> 'j \<Rightarrow> 'j \<Rightarrow> 'j" where
  "json_put_struct J name c j = j_assign J name c j"

definition json_put_array :: "('f, 'j, 't) json_lib \<Rightarrow> string \<Rightarrow> 'j json_array \<Rightarrow> 'j \<Rightarrow> 'j" where
  "json_put_array J name c j = j_assign J name (array_json c) j"

declare json_put_value_def [simp] json_put_struct_def [simp] json_put_array_def [simp]

definition json_writer :: "('f, 'j, 't) json_lib \<Rightarrow> ('f, 'j, 'j json_array) writer" where
  "json_writer J =
     \<lparr>put_value = json_put_value J,
      open_struct = j_object J,
      put_struct = json_put_struct J,
      open_array = \<lparr>array_json = j_array J, is_root = False\<rparr>,
      put_array = json_put_array J,
      push_value = (\<lambda>v a. a\<lparr>array_json := j_push J (array_json a) (j_value J v)\<rparr>),
      push_empty = (\<lambda>a. a\<lparr>array_json := j_push J (array_json a) (j_null J)\<rparr>),
      push_struct = (\<lambda>c a. a\<lparr>array_json := j_push J (array_json a) c\<rparr>),
      open_inner = (\<lambda>a. \<lparr>array_json = (if is_root a then array_json a else j_array J), is_root = False\<rparr>),
      push_array = (\<lambda>c a. a\<lparr>array_json := (if is_root a then array_json c else j_push J (array_json a) (array_json c))\<rparr>)\<rparr>"

section \<open>The deserializers\<close>

definition getPrimitiveDataFrom :: "('f, 'j, 't) json_lib \<Rightarrow> 'j \<Rightarrow> 'f any" where
  "getPrimitiveDataFrom J j =
     (case j_type J j of
        JsonBoolean \<Rightarrow> any_of (VBool (j_bool J j))
      | JsonUnsigned \<Rightarrow> any_of (VUInt64 (j_uint J j))
      | JsonInteger \<Rightarrow> any_of (VInt64 (j_int J j))
      | JsonFloat \<Rightarrow> any_of (VDouble (j_double J j))
      | JsonString \<Rightarrow> any_of (VString (j_string J j))
      | _ \<Rightarrow> any_empty)"

definition findNestedNotNullElement :: "('f, 'j, 't) json_lib \<Rightarrow> string \<Rightarrow> 'j \<Rightarrow> 'j option" where
  "findNestedNotNullElement J name j =
     (case j_find J name j of Some e \<Rightarrow> if \<not> j_is_null J e then Some e else None | None \<Rightarrow> None)"

definition json_value :: "('f, 'j, 't) json_lib \<Rightarrow> string \<Rightarrow> 'j \<Rightarrow> (cpp_error + 'f any) \<times> 'j" where
  "json_value J name j =
     (case j_member J name j of
        Inl e \<Rightarrow> (Inl e, j)
      | Inr (el, j1) \<Rightarrow> (Inr (if j_is_primitive J el then getPrimitiveDataFrom J el else any_empty), j1))"

text \<open>\<open>json_array_deserializer.hh\<close>: the value, the index, and whether the object is a
  \<open>RootJsonArrayDeserializer\<close>.\<close>

record 'j json_cursor =
  json_doc :: 'j
  json_index :: nat
  json_top :: bool

definition json_cursor_new :: "'j \<Rightarrow> 'j json_cursor" where
  "json_cursor_new j = \<lparr>json_doc = j, json_index = 0, json_top = False\<rparr>"

definition json_next_value :: "('f, 'j, 't) json_lib \<Rightarrow> 'j json_cursor \<Rightarrow> (cpp_error + 'f any) \<times> 'j json_cursor" where
  "json_next_value J c =
     (if json_index c < j_size J (json_doc c)
      then (case j_at J (json_index c) (json_doc c) of
              Inl e \<Rightarrow> (Inl e, c)
            | Inr el \<Rightarrow> if j_is_primitive J el
                then (Inr (getPrimitiveDataFrom J el), c\<lparr>json_index := json_index c + 1\<rparr>)
                else (Inr any_empty, c))
      else (Inr any_empty, c))"

definition json_complete :: "('f, 'j, 't) json_lib \<Rightarrow> 'j json_cursor \<Rightarrow> bool" where
  "json_complete J c \<longleftrightarrow> json_index c = j_size J (json_doc c)"

definition json_next_exists :: "('f, 'j, 't) json_lib \<Rightarrow> 'j json_cursor \<Rightarrow> cpp_error + bool" where
  "json_next_exists J c =
     (if json_complete J c then Inr False
      else case j_at J (json_index c) (json_doc c) of Inl e \<Rightarrow> Inl e | Inr el \<Rightarrow> Inr (\<not> j_is_null J el))"

text \<open>\<open>_jsonObject[_index++]\<close>: the index has moved also when the access throws; the type error
  becomes a \<open>ParseException\<close>.\<close>

definition json_next :: "('f, 'j, 't) json_lib \<Rightarrow> ('j \<Rightarrow> 'x) \<Rightarrow> 'j json_cursor \<Rightarrow> (cpp_error + 'x option) \<times> 'j json_cursor" where
  "json_next J mk c =
     (if json_index c < j_size J (json_doc c)
      then (case j_at J (json_index c) (json_doc c) of Inl e \<Rightarrow> Inl ParseException | Inr el \<Rightarrow> Inr (Some (mk el)),
            c\<lparr>json_index := json_index c + 1\<rparr>)
      else (Inr None, c))"

definition json_next_array :: "('f, 'j, 't) json_lib \<Rightarrow> 'j json_cursor \<Rightarrow> (cpp_error + 'j json_cursor option) \<times> 'j json_cursor" where
  "json_next_array J c =
     (if json_top c then (Inr (Some (json_cursor_new (json_doc c))), c) else json_next J json_cursor_new c)"

definition json_reader :: "('f, 'j, 't) json_lib \<Rightarrow> ('f, 'j, 'j json_cursor) reader" where
  "json_reader J =
     \<lparr>get_value = json_value J,
      value_exists = (\<lambda>name j. findNestedNotNullElement J name j \<noteq> None),
      available_names = j_keys J,
      get_struct = (\<lambda>name j. Inr (findNestedNotNullElement J name j)),
      get_array = (\<lambda>name j. Inr (map_option json_cursor_new (findNestedNotNullElement J name j))),
      next_value = json_next_value J,
      complete = json_complete J,
      next_exists = json_next_exists J,
      next_struct = json_next J id,
      next_array = json_next_array J\<rparr>"

section \<open>The functions of json.hh\<close>

text \<open>A structure is given by its members, any other node by its assembler.\<close>

definition json_dump :: "('f, 'j, 't) json_lib \<Rightarrow> 'j res \<Rightarrow> 't res" where
  "json_dump J r = (case r of Inl e \<Rightarrow> Inl e | Inr j \<Rightarrow> thrown (j_dump J j))"

text \<open>\<open>setRawInput\<close>: a \<open>parse_error\<close>, here \<open>None\<close>, becomes a \<open>ParseException\<close>.\<close>

definition setRawInput :: "('f, 'j, 't) json_lib \<Rightarrow> 't \<Rightarrow> 'j res" where
  "setRawInput J t = (case j_parse J t of
        Inl None \<Rightarrow> Inl (Thrown ParseException) | Inl (Some e) \<Rightarrow> Inl (Thrown e) | Inr j \<Rightarrow> Inr j)"

definition serializeAsJsonObject :: "('f, 'j, 't) json_lib \<Rightarrow> ('r, 'j, 'j) base_member list \<Rightarrow> 'r \<Rightarrow> 't res" where
  "serializeAsJsonObject J ms r = json_dump J (struct_write ms r (j_object J))"

definition deserializeFromJsonObject :: "('f, 'j, 't) json_lib \<Rightarrow> ('r, 'j, 'j) base_member list \<Rightarrow> 'r \<Rightarrow> 't \<Rightarrow> 'r res" where
  "deserializeFromJsonObject J ms z t =
     (case setRawInput J t of Inl e \<Rightarrow> Inl e | Inr j \<Rightarrow> fst (struct_read ms j z))"

definition serializeAsJsonArray :: "('f, 'j, 't) json_lib \<Rightarrow>
    ('n, 'j, 'j json_array, 'j, 'j json_cursor) assembler \<Rightarrow> 'n \<Rightarrow> 't res" where
  "serializeAsJsonArray J A v =
     json_dump J (map_sum id array_json (serialize A v \<lparr>array_json = j_array J, is_root = True\<rparr>))"

definition deserializeFromJsonArray :: "('f, 'j, 't) json_lib \<Rightarrow>
    ('n, 'j, 'j json_array, 'j, 'j json_cursor) assembler \<Rightarrow> 't \<Rightarrow> 'n res" where
  "deserializeFromJsonArray J A t =
     (case setRawInput J t of Inl e \<Rightarrow> Inl e
      | Inr j \<Rightarrow> fst (deserialize A \<lparr>json_doc = j, json_index = 0, json_top = True\<rparr> (fresh A)))"

section \<open>What a value is read back as\<close>

definition json_prim :: "('f \<Rightarrow> bool) \<Rightarrow> 'f cpp_value \<Rightarrow> bool" where
  "json_prim fin p = (case p of VInt64 _ \<Rightarrow> True | VUInt64 k \<Rightarrow> 0 \<le> k | VBool _ \<Rightarrow> True | VString _ \<Rightarrow> True
     | VDouble d \<Rightarrow> fin d | _ \<Rightarrow> False)"

definition json_readback :: "'f cpp_value \<Rightarrow> 'f any" where
  "json_readback p = any_of (case p of VInt64 i \<Rightarrow> (if 0 \<le> i then VUInt64 i else VInt64 i) | _ \<Rightarrow> p)"

section \<open>What the library promises\<close>

text \<open>\<open>is_object()\<close> and \<open>is_array()\<close>, the doubles JSON can express, and \<open>norm\<close>, the value a text is
  read back as: an integer that is not negative comes back as an unsigned one.\<close>

locale json_library =
  fixes J :: "('f, 'j, 't) json_lib" and obj :: "'j \<Rightarrow> bool" and arr :: "'j \<Rightarrow> bool"
    and finite_double :: "'f \<Rightarrow> bool" and norm :: "'j \<Rightarrow> 'j"
  assumes object_obj: "obj (j_object J)" and object_find: "j_find J n (j_object J) = None"
    and assign_obj: "obj j \<Longrightarrow> obj (j_assign J n v j)"
    and assign_find: "obj j \<Longrightarrow> j_find J m (j_assign J n v j) = (if m = n then Some v else j_find J m j)"
    and keys_find: "obj j \<Longrightarrow> \<exists>ks. j_keys J j = Inr ks \<and> distinct ks \<and> set ks = {n. j_find J n j \<noteq> None}"
    and member_find: "obj j \<Longrightarrow> j_find J n j = Some v \<Longrightarrow> j_member J n j = Inr (v, j)"
    and array_arr: "arr (j_array J)" and array_size: "j_size J (j_array J) = 0"
    and push_arr: "arr j \<Longrightarrow> arr (j_push J j v)" and push_size: "arr j \<Longrightarrow> j_size J (j_push J j v) = Suc (j_size J j)"
    and push_at: "arr j \<Longrightarrow> i \<le> j_size J j \<Longrightarrow> j_at J i (j_push J j v) = (if i = j_size J j then Inr v else j_at J i j)"
    and null_null: "j_is_null J (j_null J)" and null_prim: "j_is_primitive J (j_null J)"
    and obj_null: "obj j \<Longrightarrow> \<not> j_is_null J j" and arr_null: "arr j \<Longrightarrow> \<not> j_is_null J j"
    and value_null: "\<not> j_is_null J (j_value J p)" and value_prim: "j_is_primitive J (j_value J p)"
    and value_int: "j_type J (j_value J (VInt64 k)) = JsonInteger \<and> j_int J (j_value J (VInt64 k)) = k"
    and value_uint: "0 \<le> k \<Longrightarrow> j_type J (j_value J (VUInt64 k)) = JsonUnsigned \<and> j_uint J (j_value J (VUInt64 k)) = k"
    and value_bool: "j_type J (j_value J (VBool b)) = JsonBoolean \<and> j_bool J (j_value J (VBool b)) = b"
    and value_double: "j_type J (j_value J (VDouble d)) = JsonFloat \<and> j_double J (j_value J (VDouble d)) = d"
    and value_string: "j_type J (j_value J (VString s)) = JsonString \<and> j_string J (j_value J (VString s)) = s"
    and parse_dump: "j_dump J j = Inr t \<Longrightarrow> j_parse J t = Inr (norm j)"
    and norm_obj: "obj j \<Longrightarrow> obj (norm j) \<and> j_find J n (norm j) = map_option norm (j_find J n j)"
    and norm_arr: "arr j \<Longrightarrow> arr (norm j) \<and> j_size J (norm j) = j_size J j \<and> j_at J i (norm j) = map_sum id norm (j_at J i j)"
    and norm_null: "norm (j_null J) = j_null J"
    and norm_int: "norm (j_value J (VInt64 k)) = j_value J (if 0 \<le> k then VUInt64 k else VInt64 k)"
    and norm_uint: "0 \<le> k \<Longrightarrow> norm (j_value J (VUInt64 k)) = j_value J (VUInt64 k)"
    and norm_bool: "norm (j_value J (VBool b)) = j_value J (VBool b)"
    and norm_string: "norm (j_value J (VString s)) = j_value J (VString s)"
    and norm_double: "finite_double d \<Longrightarrow> norm (j_value J (VDouble d)) = j_value J (VDouble d)"
begin

text \<open>The JSON value that is written for an abstract item; no null is written into a structure.\<close>

inductive w_item :: "'f item \<Rightarrow> 'j \<Rightarrow> bool" where
  w_val: "json_prim finite_double p \<Longrightarrow> w_item (IVal p) (j_value J p)"
| w_emp: "w_item IEmpty (j_null J)"
| w_str: "obj j \<Longrightarrow> (\<And>n. f n \<noteq> Some IEmpty) \<Longrightarrow> (\<And>n. f n = None \<longleftrightarrow> j_find J n j = None) \<Longrightarrow>
    (\<And>n it v. f n = Some it \<Longrightarrow> j_find J n j = Some v \<Longrightarrow> w_item it v) \<Longrightarrow> w_item (IStruct f) j"
| w_arr: "arr j \<Longrightarrow> j_size J j = length its \<Longrightarrow>
    (\<And>i. i < length its \<Longrightarrow> \<exists>v. j_at J i j = Inr v \<and> w_item (its ! i) v) \<Longrightarrow> w_item (IArray its) j"

inductive_cases w_valE: "w_item (IVal p) j"
inductive_cases w_empE: "w_item IEmpty j"
inductive_cases w_strE: "w_item (IStruct f) j"
inductive_cases w_arrE: "w_item (IArray its) j"

definition w_a :: "'j json_array \<Rightarrow> 'f item list \<Rightarrow> bool" where
  "w_a a its \<longleftrightarrow> \<not> is_root a \<and> w_item (IArray its) (array_json a)"

definition shows_s :: "(string \<Rightarrow> 'f item option) \<Rightarrow> 'j \<Rightarrow> bool" where
  "shows_s f d \<longleftrightarrow> (\<exists>j. w_item (IStruct f) j \<and> d = norm j)"

definition shows_a :: "'f item list \<Rightarrow> 'j json_cursor \<Rightarrow> bool" where
  "shows_a its c \<longleftrightarrow> \<not> json_top c \<and> (\<exists>j pre. w_item (IArray (pre @ its)) j \<and> json_doc c = norm j \<and> json_index c = length pre)"

lemma w_assign:
  assumes "w_item (IStruct f) j" "w_item it v" "it \<noteq> IEmpty"
  shows "w_item (IStruct (f(n \<mapsto> it))) (j_assign J n v j)"
  using assms(1)
  by (rule w_strE) (auto intro!: w_str simp: assign_obj assign_find assms(2,3) split: if_splits)

lemma w_push:
  assumes "w_item (IArray its) j" "w_item it v"
  shows "w_item (IArray (its @ [it])) (j_push J j v)"
  using assms(1)
proof (rule w_arrE)
  assume j: "arr j" "j_size J j = length its" "\<And>i. i < length its \<Longrightarrow> \<exists>v. j_at J i j = Inr v \<and> w_item (its ! i) v"
  show ?thesis
  proof (rule w_arr)
    fix i assume "i < length (its @ [it])"
    then show "\<exists>v'. j_at J i (j_push J j v) = Inr v' \<and> w_item ((its @ [it]) ! i) v'"
      using j assms(2) by (cases "i = length its") (auto simp: push_at nth_append)
  qed (use j in \<open>simp_all add: push_arr push_size\<close>)
qed

lemma w_new_object: "w_item (IStruct Map.empty) (j_object J)"
  by (rule w_str) (simp_all add: object_obj object_find)

lemma w_new_array: "w_item (IArray []) (j_array J)"
  by (rule w_arr) (simp_all add: array_arr array_size)

lemma w_not_null: "w_item it j \<Longrightarrow> it \<noteq> IEmpty \<Longrightarrow> \<not> j_is_null J (norm j)"
  by (cases rule: w_item.cases)
    (auto simp: obj_null arr_null norm_obj norm_arr value_null norm_int norm_uint norm_bool norm_string norm_double
      json_prim_def split: cpp_value.splits)

lemma read_val:
  "w_item (IVal p) j \<Longrightarrow> j_is_primitive J (norm j) \<and> getPrimitiveDataFrom J (norm j) = json_readback p"
  by (erule w_valE)
    (auto simp: json_prim_def json_readback_def getPrimitiveDataFrom_def norm_int norm_uint norm_bool norm_string
      norm_double value_prim value_int value_uint value_bool value_string value_double split: cpp_value.splits)

text \<open>A member of a written object, and an element of a written array, as they are read.\<close>

lemma shown_member:
  assumes "shows_s f d" "f n = Some it"
  obtains v where "w_item it v" "obj d" "j_find J n d = Some (norm v)"
  using assms by (auto simp: shows_s_def norm_obj elim!: w_strE) (metis not_Some_eq option.map(2))

lemma shown_element:
  assumes "shows_a (it # its) c"
  obtains v where "w_item it v" "json_index c < j_size J (json_doc c)"
    "j_at J (json_index c) (json_doc c) = Inr (norm v)" "shows_a its (c\<lparr>json_index := json_index c + 1\<rparr>)"
proof -
  from assms obtain j pre where j: "\<not> json_top c" "w_item (IArray (pre @ it # its)) j" "json_doc c = norm j"
    "json_index c = length pre" by (auto simp: shows_a_def)
  from j(2) have a: "arr j" "j_size J j = length (pre @ it # its)"
    "\<exists>v. j_at J (length pre) j = Inr v \<and> w_item it v"
    by (auto elim!: w_arrE) (metis add_Suc_right length_append length_Cons less_add_Suc1 nth_append_length)
  then obtain v where v: "j_at J (length pre) j = Inr v" "w_item it v" by blast
  have "shows_a its (c\<lparr>json_index := json_index c + 1\<rparr>)"
    using j by (auto simp: shows_a_def intro!: exI [of _ j] exI [of _ "pre @ [it]"])
  with a v j that show ?thesis by (simp add: norm_arr)
qed

end

section \<open>The JSON serializers are an archive\<close>

context json_library
begin

lemma json_get_value:
  assumes "shows_s f ds" "f n = Some (IVal p)"
  shows "get_value (json_reader J) n ds = (Inr (json_readback p), ds)"
proof -
  from shown_member [OF assms] obtain v where "w_item (IVal p) v" "obj ds" "j_find J n ds = Some (norm v)" .
  with read_val [of p v] member_find [of ds n] show ?thesis by (simp add: json_reader_def json_value_def)
qed

lemma json_found:
  assumes "shows_s f ds" "f n = Some it"
  shows "\<exists>v. findNestedNotNullElement J n ds = Some (norm v) \<and> w_item it v"
proof -
  from shown_member [OF assms] obtain v where v: "w_item it v" "j_find J n ds = Some (norm v)" .
  moreover have "it \<noteq> IEmpty" using assms by (auto simp: shows_s_def elim!: w_strE)
  ultimately show ?thesis using w_not_null by (auto simp: findNestedNotNullElement_def)
qed

lemma json_names:
  assumes "shows_s f ds"
  shows "\<exists>ks. j_keys J ds = Inr ks \<and> distinct ks \<and> set ks = dom f"
proof -
  from assms obtain j where j: "w_item (IStruct f) j" "ds = norm j" by (auto simp: shows_s_def)
  then have "obj ds" "\<And>n. j_find J n ds = None \<longleftrightarrow> f n = None" by (auto elim!: w_strE simp: norm_obj)
  with keys_find [of ds] show ?thesis by (auto simp: dom_def)
qed

lemma json_step:
  assumes "shows_a (it # its) c"
  obtains v where "w_item it v" "json_next J mk c = (Inr (Some (mk (norm v))), c\<lparr>json_index := json_index c + 1\<rparr>)"
    "shows_a its (c\<lparr>json_index := json_index c + 1\<rparr>)"
proof -
  from shown_element [OF assms] obtain v where v: "w_item it v" "json_index c < j_size J (json_doc c)"
    "j_at J (json_index c) (json_doc c) = Inr (norm v)" "shows_a its (c\<lparr>json_index := json_index c + 1\<rparr>)" .
  then have "json_next J mk c = (Inr (Some (mk (norm v))), c\<lparr>json_index := json_index c + 1\<rparr>)"
    by (simp add: json_next_def)
  with v that show ?thesis by blast
qed

lemma json_complete_iff: "shows_a its c \<Longrightarrow> json_complete J c \<longleftrightarrow> its = []"
  by (auto simp: shows_a_def json_complete_def norm_arr elim!: w_arrE)

lemma shows_a_new: "w_item (IArray its) j \<Longrightarrow> shows_a its (json_cursor_new (norm j))"
  by (auto simp: shows_a_def json_cursor_new_def)

end

sublocale json_library \<subseteq> archive "json_writer J" "json_reader J"
  "\<lambda>s f. w_item (IStruct f) s" w_a shows_s shows_a
  False "\<lambda>_. True" "json_prim finite_double" json_readback
proof (unfold_locales, goal_cases)
  case 1
  show ?case by (simp add: json_writer_def w_new_object)
next
  case (2 s f p n)
  then show ?case by (simp add: json_writer_def w_assign w_val)
next
  case (3 s f c g n)
  then show ?case by (simp add: json_writer_def w_assign)
next
  case (4 s f ca its n)
  then show ?case by (simp add: json_writer_def w_assign w_a_def)
next
  case 6
  show ?case by (simp add: json_writer_def w_a_def w_new_array)
next
  case (7 a its)
  then show ?case by (simp add: json_writer_def w_a_def w_new_array)
next
  case (8 a its p)
  then show ?case by (simp add: json_writer_def w_a_def w_push w_val)
next
  case (9 a its)
  then show ?case by (simp add: json_writer_def w_a_def w_push w_emp)
next
  case (10 a its c g)
  then show ?case by (simp add: json_writer_def w_a_def w_push)
next
  case (11 a its ca its')
  then show ?case by (simp add: json_writer_def w_a_def w_push)
next
  case (12 f ds n p)
  then show ?case using json_get_value by blast
next
  case (13 f ds n)
  show ?case
  proof (cases "f n")
    case None
    with 13 have "j_find J n ds = None" by (auto simp: shows_s_def norm_obj elim!: w_strE)
    with None show ?thesis by (simp add: json_reader_def findNestedNotNullElement_def)
  next
    case (Some it)
    with json_found [OF 13] show ?thesis by (auto simp: json_reader_def)
  qed
next
  case (14 f ds)
  then show ?case using json_names by (simp add: json_reader_def)
next
  case (15 f ds n g)
  with json_found [OF 15] show ?case by (auto simp: json_reader_def shows_s_def)
next
  case (16 f ds n its)
  with json_found [OF 16] show ?case by (auto simp: json_reader_def shows_a_new)
next
  case (17 its da)
  then show ?case by (simp add: json_reader_def json_complete_iff)
next
  case (18 p its da)
  from shown_element [OF 18] obtain v where v: "w_item (IVal p) v" "json_index da < j_size J (json_doc da)"
    "j_at J (json_index da) (json_doc da) = Inr (norm v)" "shows_a its (da\<lparr>json_index := json_index da + 1\<rparr>)" .
  with read_val [OF v(1)] show ?case by (simp add: json_reader_def json_next_value_def)
next
  case (19 its da)
  from shown_element [OF 19] obtain v where v: "w_item IEmpty v" "json_index da < j_size J (json_doc da)"
    "j_at J (json_index da) (json_doc da) = Inr (norm v)" "shows_a its (da\<lparr>json_index := json_index da + 1\<rparr>)" .
  then show ?case by (auto simp: json_reader_def json_next_value_def norm_null null_prim elim!: w_empE)
next
  case (20 g its da)
  from json_step [OF 20, where mk = id] obtain v where "w_item (IStruct g) v"
    "json_next J id da = (Inr (Some (id (norm v))), da\<lparr>json_index := json_index da + 1\<rparr>)"
    "shows_a its (da\<lparr>json_index := json_index da + 1\<rparr>)" .
  then show ?case by (auto simp: json_reader_def shows_s_def)
next
  case (21 its' its da)
  then have "\<not> json_top da" by (simp add: shows_a_def)
  moreover from json_step [OF 21, where mk = json_cursor_new] obtain v where "w_item (IArray its') v"
    "json_next J json_cursor_new da = (Inr (Some (json_cursor_new (norm v))), da\<lparr>json_index := json_index da + 1\<rparr>)"
    "shows_a its (da\<lparr>json_index := json_index da + 1\<rparr>)" .
  ultimately show ?case by (auto simp: json_reader_def json_next_array_def shows_a_new)
next
  case (22 it its da)
  from shown_element [OF 22] obtain v where v: "w_item it v"
    "j_at J (json_index da) (json_doc da) = Inr (norm v)" .
  have "j_is_null J (norm v) \<longleftrightarrow> nullish False it"
    using w_not_null [OF v(1)] v(1) by (cases it) (auto simp: norm_null null_null elim!: w_empE)
  with v(2) json_complete_iff [OF 22] show ?case by (simp add: json_reader_def json_next_exists_def)
qed (auto simp: json_readback_def json_prim_def)

section \<open>Round trips\<close>

context json_library
begin

lemma object_roundtrip:
  assumes it: "flat_item (struct_write ms v) (struct_read ms) N ft (\<lambda>n. v) g" and "ft z"
  shows "\<exists>j. serializeAsJsonObject J ms v = thrown (j_dump J j) \<and>
    (\<forall>t. j_dump J j = Inr t \<longrightarrow> deserializeFromJsonObject J ms z t = Inr v)"
proof -
  let ?g = "override_on Map.empty g N"
  have "w_item (IStruct Map.empty) (j_object J)" by (rule w_new_object)
  from flat_write [OF it this] obtain j where j: "struct_write ms v (j_object J) = Inr j" "w_item (IStruct ?g) j" by auto
  have "deserializeFromJsonObject J ms z t = Inr v" if t: "j_dump J j = Inr t" for t
  proof -
    have "shows_s ?g (norm j)" using j(2) by (auto simp: shows_s_def)
    from flat_read [OF it this _ assms(2)] obtain d where "struct_read ms (norm j) z = (Inr v, d)"
      by (auto simp: override_on_def)
    with parse_dump [OF t] show ?thesis by (simp add: deserializeFromJsonObject_def setRawInput_def)
  qed
  with j(1) show ?thesis by (auto simp: serializeAsJsonObject_def json_dump_def)
qed

lemma array_roundtrip:
  assumes it: "array_item wr rd ft v its" and "ft z"
  shows "\<exists>j. serializeAsJsonArray J (array_assembler (json_writer J) (json_reader J) e wr rd g z) v = thrown (j_dump J j) \<and>
    (\<forall>t. j_dump J j = Inr t \<longrightarrow>
      deserializeFromJsonArray J (array_assembler (json_writer J) (json_reader J) e wr rd g z) t = Inr v)"
    (is "\<exists>j. serializeAsJsonArray J ?A v = thrown (j_dump J j) \<and> ?back j")
proof -
  let ?a = "\<lparr>array_json = j_array J, is_root = False\<rparr>"
  have "w_a ?a []" by (simp add: w_a_def w_new_array)
  with it obtain c where c: "wr v ?a = Inr c" "w_a c its" by (auto simp: array_item_def)
  have "serializeAsJsonArray J ?A v = thrown (j_dump J (array_json c))"
    using c(1) by (simp add: serializeAsJsonArray_def array_assembler_def json_writer_def json_dump_def)
  moreover have "deserializeFromJsonArray J ?A t = Inr v" if t: "j_dump J (array_json c) = Inr t" for t
  proof -
    have "shows_a its (json_cursor_new (norm (array_json c)))" using c(2) shows_a_new by (simp add: w_a_def)
    with it assms(2) have "rd (json_cursor_new (norm (array_json c))) z = Inr v" by (simp add: array_item_def)
    with parse_dump [OF t] show ?thesis
      by (simp add: deserializeFromJsonArray_def setRawInput_def array_assembler_def json_reader_def json_next_array_def)
  qed
  ultimately show ?thesis by blast
qed

lemma struct_roundtrip:
  assumes "wf_ty (\<lambda>_. True) (json_prim finite_double) (TStruct ms)"
    and "ok_el (store False (\<lambda>_. True) (json_prim finite_double) fuel fc (TStruct ms)) v"
  shows "\<exists>j. serializeAsJsonObject J (asm_members fuel (json_writer J) (json_reader J) fc ms) v = thrown (j_dump J j) \<and>
    (\<forall>t. j_dump J j = Inr t \<longrightarrow> deserializeFromJsonObject J (asm_members fuel (json_writer J) (json_reader J) fc ms)
       (fresh (asm fuel (json_writer J) (json_reader J) fc (TStruct ms))) t = Inr v)"
proof -
  from asm_struct_item [OF assms] obtain N g where
    it: "flat_item (struct_write (asm_members fuel (json_writer J) (json_reader J) fc ms) v)
      (struct_read (asm_members fuel (json_writer J) (json_reader J) fc ms)) N
      (fits (store False (\<lambda>_. True) (json_prim finite_double) fuel fc (TStruct ms))) (\<lambda>n. v) g" by blast
  show ?thesis by (rule object_roundtrip [OF it codec_fresh [OF asm_codec [OF assms(1)]]])
qed

lemma vector_roundtrip:
  assumes "wf_ty (\<lambda>_. True) (json_prim finite_double) t"
    and "\<forall>v \<in> set vs. ok_ar (store False (\<lambda>_. True) (json_prim finite_double) fuel fc t) v" and "length vs \<le> fuel"
  shows "\<exists>j. serializeAsJsonArray J (list_assembler fuel (json_writer J) (json_reader J) (asm fuel (json_writer J) (json_reader J) fc t)) vs
      = thrown (j_dump J j) \<and>
    (\<forall>x. j_dump J j = Inr x \<longrightarrow> deserializeFromJsonArray J
       (list_assembler fuel (json_writer J) (json_reader J) (asm fuel (json_writer J) (json_reader J) fc t)) x = Inr vs)"
proof -
  have "\<exists>its. array_item (ser_each (serialize (asm fuel (json_writer J) (json_reader J) fc t)))
      (\<lambda>da old. de_each fuel (json_reader J) (asm fuel (json_writer J) (json_reader J) fc t) da []) (\<lambda>_. True) vs its \<and>
      (vs \<noteq> [] \<longrightarrow> its \<noteq> [])"
    by (rule list_array_item [OF asm_codec [OF assms(1)]]) (use assms in simp)
  then obtain its where "array_item (ser_each (serialize (asm fuel (json_writer J) (json_reader J) fc t)))
      (\<lambda>da old. de_each fuel (json_reader J) (asm fuel (json_writer J) (json_reader J) fc t) da []) (\<lambda>_. True) vs its" by blast
  from array_roundtrip [OF this] show ?thesis unfolding list_assembler_def by simp
qed

end

text \<open>C1: Whatever the type of a structure, what \<open>serializeAsJsonObject\<close> makes of an object is the text
  of a JSON value from which \<open>deserializeFromJsonObject\<close> makes the same object, if the text is
  made at all; so it is for a vector of any type and the functions for arrays.  The objects are
  those whose integers are in range, doubles finite and enumeration values named, where no
  optional holds an empty optional and no map entry an empty one.\<close>

theorem json_roundtrip:
  assumes lib: "json_library J obj arr fin norm"
    and s: "wf_ty (\<lambda>_. True) (json_prim fin) (TStruct ms)" "ok_el (store False (\<lambda>_. True) (json_prim fin) fuel fc (TStruct ms)) v"
    and a: "wf_ty (\<lambda>_. True) (json_prim fin) t" "\<forall>v \<in> set vs. ok_ar (store False (\<lambda>_. True) (json_prim fin) fuel fc t) v" "length vs \<le> fuel"
  shows "(\<exists>j. serializeAsJsonObject J (asm_members fuel (json_writer J) (json_reader J) fc ms) v = thrown (j_dump J j) \<and>
      (\<forall>x. j_dump J j = Inr x \<longrightarrow> deserializeFromJsonObject J (asm_members fuel (json_writer J) (json_reader J) fc ms)
        (fresh (asm fuel (json_writer J) (json_reader J) fc (TStruct ms))) x = Inr v)) \<and>
    (\<exists>j. serializeAsJsonArray J (list_assembler fuel (json_writer J) (json_reader J) (asm fuel (json_writer J) (json_reader J) fc t)) vs
        = thrown (j_dump J j) \<and>
      (\<forall>x. j_dump J j = Inr x \<longrightarrow> deserializeFromJsonArray J
        (list_assembler fuel (json_writer J) (json_reader J) (asm fuel (json_writer J) (json_reader J) fc t)) x = Inr vs))"
  using json_library.struct_roundtrip [OF lib s] json_library.vector_roundtrip [OF lib a] by (rule conjI)

section \<open>A library that keeps the promises\<close>

text \<open>A JSON value as a tree, the text of which is the tree; members are kept in the order of their
  names, as nlohmann's map has them.\<close>

datatype 'f jtree =
    JNull | JBool bool | JInt int | JUInt nat | JDouble 'f | JString string
  | JArr "'f jtree list" | JObj "(string, 'f jtree) omap"

fun tree_value :: "'f cpp_value \<Rightarrow> 'f jtree" where
  "tree_value (VBool b) = JBool b"
| "tree_value (VInt64 i) = JInt i"
| "tree_value (VUInt64 i) = JUInt (nat i)"
| "tree_value (VDouble d) = JDouble d"
| "tree_value (VString s) = JString s"
| "tree_value _ = JString []"

fun tree_norm :: "'f jtree \<Rightarrow> 'f jtree" where
  "tree_norm (JInt i) = (if 0 \<le> i then JUInt (nat i) else JInt i)"
| "tree_norm (JArr js) = JArr (map tree_norm js)"
| "tree_norm (JObj m) = JObj (map (\<lambda>(n, j). (n, tree_norm j)) m)"
| "tree_norm j = j"

fun tree_type :: "'f jtree \<Rightarrow> json_type" where
  "tree_type JNull = JsonNull" | "tree_type (JBool _) = JsonBoolean" | "tree_type (JInt _) = JsonInteger"
| "tree_type (JUInt _) = JsonUnsigned" | "tree_type (JDouble _) = JsonFloat" | "tree_type (JString _) = JsonString"
| "tree_type (JArr _) = JsonArray" | "tree_type (JObj _) = JsonObject"

fun tree_members :: "'f jtree \<Rightarrow> (string, 'f jtree) omap" where
  "tree_members (JObj m) = m" | "tree_members _ = []"

fun tree_elements :: "'f jtree \<Rightarrow> 'f jtree list" where
  "tree_elements (JArr js) = js" | "tree_elements _ = []"

fun tree_size :: "'f jtree \<Rightarrow> nat" where
  "tree_size JNull = 0" | "tree_size (JArr js) = length js" | "tree_size (JObj m) = length m" | "tree_size _ = 1"

definition tree_assign :: "string \<Rightarrow> 'f jtree \<Rightarrow> 'f jtree \<Rightarrow> 'f jtree" where
  "tree_assign n v j = JObj (omap_set n v (tree_members j))"

definition tree_member :: "string \<Rightarrow> 'f jtree \<Rightarrow> cpp_error + 'f jtree \<times> 'f jtree" where
  "tree_member n j =
     (if tree_type j \<in> {JsonNull, JsonObject}
      then (case map_of (tree_members j) n of Some v \<Rightarrow> Inr (v, j) | None \<Rightarrow> Inr (JNull, tree_assign n JNull j))
      else Inl LogicError)"

definition tree_at :: "nat \<Rightarrow> 'f jtree \<Rightarrow> cpp_error + 'f jtree" where
  "tree_at i j = (if i < length (tree_elements j) then Inr (tree_elements j ! i) else Inl LogicError)"

definition tree_lib :: "'f \<Rightarrow> ('f, 'f jtree, 'f jtree) json_lib" where
  "tree_lib z =
     \<lparr>j_value = tree_value, j_null = JNull, j_object = JObj [], j_array = JArr [],
      j_assign = tree_assign, j_push = (\<lambda>j v. JArr (tree_elements j @ [v])),
      j_member = tree_member, j_at = tree_at,
      j_find = (\<lambda>n j. map_of (tree_members j) n), j_keys = (\<lambda>j. Inr (map fst (tree_members j))),
      j_size = tree_size, j_type = tree_type, j_is_null = (\<lambda>j. tree_type j = JsonNull),
      j_is_primitive = (\<lambda>j. tree_type j \<notin> {JsonArray, JsonObject}),
      j_bool = (\<lambda>j. case j of JBool b \<Rightarrow> b | _ \<Rightarrow> False), j_int = (\<lambda>j. case j of JInt i \<Rightarrow> i | JUInt i \<Rightarrow> int i | _ \<Rightarrow> 0),
      j_uint = (\<lambda>j. case j of JUInt i \<Rightarrow> int i | _ \<Rightarrow> 0),
      j_double = (\<lambda>j. case j of JDouble d \<Rightarrow> d | _ \<Rightarrow> z), j_string = (\<lambda>j. case j of JString s \<Rightarrow> s | _ \<Rightarrow> []),
      j_dump = Inr, j_parse = (\<lambda>j. Inr (tree_norm j))\<rparr>"

definition tree_obj :: "'f jtree \<Rightarrow> bool" where
  "tree_obj j \<longleftrightarrow> (case j of JObj m \<Rightarrow> omap_inv m | _ \<Rightarrow> False)"

definition tree_arr :: "'f jtree \<Rightarrow> bool" where
  "tree_arr j \<longleftrightarrow> tree_type j = JsonArray"

lemma map_of_map_snd: "map_of (map (\<lambda>(n, j). (n, f j)) m) k = map_option f (map_of m k)"
  by (induction m) auto

lemma omap_inv_map_snd: "omap_inv (map (\<lambda>(n, j). (n, f j)) m) \<longleftrightarrow> omap_inv m"
  by (simp add: omap_inv_def comp_def case_prod_unfold)

lemma tree_obj_iff: "tree_obj j \<longleftrightarrow> (\<exists>m. j = JObj m \<and> omap_inv m)"
  by (cases j) (simp_all add: tree_obj_def)

lemma tree_arr_iff: "tree_arr j \<longleftrightarrow> (\<exists>js. j = JArr js)"
  by (cases j) (simp_all add: tree_arr_def)

lemma tree_type_value: "tree_type (tree_value p) \<in> {JsonBoolean, JsonInteger, JsonUnsigned, JsonFloat, JsonString}"
  by (cases p) simp_all

lemmas tree_defs = tree_lib_def tree_assign_def tree_member_def tree_at_def

interpretation tree: json_library "tree_lib z" tree_obj tree_arr "\<lambda>_. True" tree_norm
proof (unfold_locales, goal_cases)
  case (5 j)
  then obtain m where m: "j = JObj m" "omap_inv m" by (auto simp: tree_obj_iff)
  then show ?case
    by (auto simp: tree_lib_def omap_inv_distinct map_of_eq_None_iff)
next
  case (16 p)
  then show ?case using tree_type_value [of p] by (auto simp: tree_lib_def)
next
  case (17 p)
  then show ?case using tree_type_value [of p] by (auto simp: tree_lib_def)
qed (auto simp: tree_defs tree_obj_iff tree_arr_iff nth_append omap_inv_set map_of_omap_set
  map_of_map_snd omap_inv_map_snd split: option.splits)

text \<open>A structure, and a vector of vectors, with hardware that is exact.\<close>

definition exact_conv :: "(int, int) float_conv" where
  "exact_conv = \<lparr>to_double = id, from_double = id, from_int = id, float_zero = 0\<rparr>"

abbreviation "tree_W \<equiv> json_writer (tree_lib (0 :: int))"
abbreviation "tree_R \<equiv> json_reader (tree_lib (0 :: int))"

lemma json_roundtrip_witness:
  "\<exists>x y. serializeAsJsonObject (tree_lib 0)
       (asm_members 9 tree_W tree_R exact_conv [(''id'', TInt 16 False), (''tag'', TOpt TStr), (''xs'', TList TFloat)])
       (NStruct [NInt 7, NOpt (Some (NStr ''a'')), NList [NFloat 2, NFloat 3]]) = Inr x \<and>
     deserializeFromJsonObject (tree_lib 0)
       (asm_members 9 tree_W tree_R exact_conv [(''id'', TInt 16 False), (''tag'', TOpt TStr), (''xs'', TList TFloat)])
       (NStruct [NInt 0, NOpt None, NList []]) x = Inr (NStruct [NInt 7, NOpt (Some (NStr ''a'')), NList [NFloat 2, NFloat 3]]) \<and>
     serializeAsJsonArray (tree_lib 0)
       (list_assembler 9 tree_W tree_R (asm 9 tree_W tree_R exact_conv (TOpt (TInt 8 True)))) [NOpt (Some (NInt (- 3))), NOpt None] = Inr y \<and>
     deserializeFromJsonArray (tree_lib 0)
       (list_assembler 9 tree_W tree_R (asm 9 tree_W tree_R exact_conv (TOpt (TInt 8 True)))) y = Inr [NOpt (Some (NInt (- 3))), NOpt None]"
proof -
  let ?ms = "[(''id'', TInt 16 False), (''tag'', TOpt TStr), (''xs'', TList TFloat)]"
  let ?v = "NStruct [NInt 7, NOpt (Some (NStr ''a'')), NList [NFloat 2, NFloat 3]]"
  let ?vs = "[NOpt (Some (NInt (- 3))), NOpt None]"
  have s: "wf_ty (\<lambda>_. True) (json_prim (\<lambda>_ :: int. True)) (TStruct ?ms)"
    "ok_el (store False (\<lambda>_. True) (json_prim (\<lambda>_. True)) 9 exact_conv (TStruct ?ms)) ?v"
    by (simp_all add: row_spec_def comp_spec_def lift_spec_def prim_spec_def opt_spec_def list_spec_def json_prim_def
        exact_conv_def int_min_def int_max_def)
  have a: "wf_ty (\<lambda>_. True) (json_prim (\<lambda>_ :: int. True)) (TOpt (TInt 8 True))"
    "\<forall>v \<in> set ?vs. ok_ar (store False (\<lambda>_. True) (json_prim (\<lambda>_. True)) 9 exact_conv (TOpt (TInt 8 True))) v" "length ?vs \<le> 9"
    by (simp_all add: lift_spec_def prim_spec_def opt_spec_def int_min_def int_max_def)
  have z: "fresh (asm 9 tree_W tree_R exact_conv (TStruct ?ms)) = NStruct [NInt 0, NOpt None, NList []]"
    by (simp add: struct_assembler_def lift_def int_assembler_def prim_assembler_def optional_assembler_def
        list_assembler_def array_assembler_def)
  have dump: "j_dump (tree_lib 0) j = Inr j" for j :: "int jtree" by (simp add: tree_lib_def)
  from json_roundtrip [OF tree.json_library_axioms s a, of 0]
  show ?thesis unfolding z dump by auto
qed

end
