(* ===== verification/SerialXml.thy ===== *)
theory SerialXml
  imports SerialTypes
begin

text \<open>
  \<open>components/serialization/extensions/xml/\<close> and \<open>xml.hh\<close>: the serializers over libxml2's trees.
  The library is a parameter, the record \<open>xml_lib\<close>, and the locale \<open>xml_library\<close> states what its
  documentation promises of the trees the serializers build; from it follows that the XML
  serializers are an \<open>archive\<close>, in which an entry without content stands for null.
\<close>

section \<open>The library\<close>

text \<open>The functions of libxml2 the sources use, on nodes of type \<open>'x\<close> and texts \<open>'t\<close>:
  \<open>xmlNewDocNode\<close> and \<open>xmlNewChild\<close> without content, \<open>xmlNewChild\<close> with content (in which an
  ampersand starts a reference), \<open>xmlNodeAddContent\<close>, \<open>xmlNewProp\<close>, the link of a child to its
  parent, the list of \<open>xmlChildrenNode\<close> and its \<open>next\<close>, \<open>name\<close>, whether \<open>type\<close> is
  \<open>XML_ELEMENT_NODE\<close>, \<open>xmlGetProp\<close>, \<open>xmlNodeListGetString\<close>, \<open>xmlDocDumpMemory\<close>, and
  \<open>xmlReadMemory\<close> with \<open>xmlDocGetRootElement\<close>: the root and the nodes after it.\<close>

record ('x, 't) xml_lib =
  x_element :: "string \<Rightarrow> 'x"
  x_element_with :: "string \<Rightarrow> string \<Rightarrow> 'x"
  x_add_content :: "string \<Rightarrow> 'x \<Rightarrow> 'x"
  x_prop :: "string \<Rightarrow> string \<Rightarrow> 'x \<Rightarrow> 'x"
  x_append :: "'x \<Rightarrow> 'x \<Rightarrow> 'x"
  x_children :: "'x \<Rightarrow> 'x list"
  x_name :: "'x \<Rightarrow> string"
  x_is_element :: "'x \<Rightarrow> bool"
  x_get_prop :: "string \<Rightarrow> 'x \<Rightarrow> string option"
  x_list_string :: "'x list \<Rightarrow> string option"
  x_dump :: "'x \<Rightarrow> 't"
  x_read :: "'t \<Rightarrow> ('x \<times> 'x list) option"

text \<open>\<open>std::to_string(double)\<close> and \<open>std::stod\<close>\<close>

record 'f double_text =
  to_text :: "'f \<Rightarrow> string"
  of_text :: "string \<Rightarrow> cpp_error + 'f"

text \<open>\<open>std::stoul\<close>: a minus sign negates the unsigned value.\<close>

definition std_stoul :: "string \<Rightarrow> cpp_error + int" where
  "std_stoul s = (case strtol10 s of
      None \<Rightarrow> Inl InvalidArgument
    | Some v \<Rightarrow> if \<bar>v\<bar> < 2 ^ 64 then Inr (v mod 2 ^ 64) else Inl OutOfRange)"

section \<open>xml_utils\<close>

definition typeProperty :: string where "typeProperty = ''type''"
definition containerEntry :: string where "containerEntry = ''___containerEntry___''"
definition rootNodeName :: string where "rootNodeName = ''root''"

definition discover :: "('x, 't) xml_lib \<Rightarrow> 'x list \<Rightarrow> (string, 'x) omap" where
  "discover X xs = foldl (\<lambda>m x. if x_is_element X x then omap_set (x_name X x) x m else m) [] xs"

definition discoverNodes :: "('x, 't) xml_lib \<Rightarrow> 'x \<Rightarrow> (string, 'x) omap" where
  "discoverNodes X root = discover X (x_children X root)"

definition parseValue :: "'f double_text \<Rightarrow> string \<Rightarrow> string \<Rightarrow> cpp_error + 'f any" where
  "parseValue D str ty =
     (let r = (if ty = ''int'' then map_sum id (\<lambda>v. any_of (VInt64 v)) (std_stol str)
               else if ty = ''uint''
               then (if length str > 1 \<and> str ! 0 = CHR ''-''
                     then map_sum id (\<lambda>v. any_of (VInt64 v)) (std_stol str)
                     else map_sum id (\<lambda>v. any_of (VUInt64 v)) (std_stoul str))
               else if ty = ''float'' then map_sum id (\<lambda>d. any_of (VDouble d)) (of_text D str)
               else if ty = ''bool''
               then Inr (if str = ''true'' then any_of (VBool True)
                         else if str = ''false'' then any_of (VBool False) else any_empty)
               else if ty = ''string'' then Inr (any_of (VString str))
               else Inl ParseException)
      in case r of Inl e \<Rightarrow> if e = InvalidArgument \<or> e = OutOfRange then Inr any_empty else Inl e | Inr a \<Rightarrow> Inr a)"

definition nodeValue :: "('x, 't) xml_lib \<Rightarrow> 'f double_text \<Rightarrow> 'x \<Rightarrow> cpp_error + 'f any" where
  "nodeValue X D node =
     (case x_get_prop X typeProperty node of
        None \<Rightarrow> Inr any_empty
      | Some ty \<Rightarrow> (case x_list_string X (x_children X node) of
            None \<Rightarrow> Inr any_empty | Some str \<Rightarrow> parseValue D str ty))"

definition isEmptyNode :: "('x, 't) xml_lib \<Rightarrow> 'x \<Rightarrow> bool" where
  "isEmptyNode X node \<longleftrightarrow> x_children X node = []"

section \<open>The serializers\<close>

text \<open>The text and the type attribute of a value; the serializers are called for no other types.\<close>

fun value_text :: "'f double_text \<Rightarrow> 'f cpp_value \<Rightarrow> string \<times> string" where
  "value_text D (VInt64 i) = (show_int i, ''int'')"
| "value_text D (VUInt64 i) = (show_int i, ''uint'')"
| "value_text D (VDouble d) = (to_text D d, ''float'')"
| "value_text D (VBool b) = (if b then ''true'' else ''false'', ''bool'')"
| "value_text D (VString s) = (s, ''string'')"
| "value_text D _ = ([], [])"

text \<open>The state of a serializer is the list of the children it has given its node; the node is made,
  with its name, when it is put into its parent.\<close>

definition add_leaf :: "('x, 't) xml_lib \<Rightarrow> string \<Rightarrow> string \<times> string \<Rightarrow> 'x list \<Rightarrow> 'x list" where
  "add_leaf X name vt xs = xs @ [x_prop X typeProperty (snd vt) (x_add_content X (fst vt) (x_element X name))]"

definition add_branch :: "('x, 't) xml_lib \<Rightarrow> string \<Rightarrow> 'x list \<Rightarrow> 'x list \<Rightarrow> 'x list" where
  "add_branch X name cs xs = xs @ [foldl (x_append X) (x_element X name) cs]"

definition add_entry :: "('x, 't) xml_lib \<Rightarrow> string \<times> string \<Rightarrow> 'x list \<Rightarrow> 'x list" where
  "add_entry X vt xs = xs @ [x_prop X typeProperty (snd vt) (x_element_with X containerEntry (fst vt))]"

text \<open>An array remembers the type of its last value; \<open>at_root\<close> for a \<open>RootXmlArraySerializer\<close>.\<close>

record 'x xml_array =
  entries :: "'x list"
  entry_type :: string
  at_root :: bool

definition xml_new_array :: "'x list \<Rightarrow> 'x xml_array" where
  "xml_new_array xs = \<lparr>entries = xs, entry_type = [], at_root = False\<rparr>"

definition xml_push :: "('x, 't) xml_lib \<Rightarrow> string \<times> string \<Rightarrow> 'x xml_array \<Rightarrow> 'x xml_array" where
  "xml_push X vt a = a\<lparr>entries := add_entry X vt (entries a), entry_type := snd vt\<rparr>"

definition xml_put_struct :: "('x, 't) xml_lib \<Rightarrow> string \<Rightarrow> 'x list \<Rightarrow> 'x list \<Rightarrow> 'x list" where
  "xml_put_struct X name c xs = add_branch X name c xs"

definition xml_put_array :: "('x, 't) xml_lib \<Rightarrow> string \<Rightarrow> 'x xml_array \<Rightarrow> 'x list \<Rightarrow> 'x list" where
  "xml_put_array X name c xs = add_branch X name (entries c) xs"

declare xml_put_struct_def [simp] xml_put_array_def [simp]

definition xml_writer :: "('x, 't) xml_lib \<Rightarrow> 'f double_text \<Rightarrow> ('f, 'x list, 'x xml_array) writer" where
  "xml_writer X D =
     \<lparr>put_value = (\<lambda>name v. add_leaf X name (value_text D v)),
      open_struct = [],
      put_struct = xml_put_struct X,
      open_array = xml_new_array [],
      put_array = xml_put_array X,
      push_value = (\<lambda>v. xml_push X (value_text D v)),
      push_empty = (\<lambda>a. a\<lparr>entries := add_entry X ([], entry_type a) (entries a)\<rparr>),
      push_struct = (\<lambda>c a. a\<lparr>entries := add_branch X containerEntry c (entries a)\<rparr>),
      open_inner = (\<lambda>a. xml_new_array (if at_root a then entries a else [])),
      push_array = (\<lambda>c a. a\<lparr>entries := (if at_root a then entries c else add_branch X containerEntry (entries c) (entries a))\<rparr>)\<rparr>"

section \<open>The deserializers\<close>

definition xml_value :: "('x, 't) xml_lib \<Rightarrow> 'f double_text \<Rightarrow> string \<Rightarrow> (string, 'x) omap \<Rightarrow>
    (cpp_error + 'f any) \<times> (string, 'x) omap" where
  "xml_value X D name nodes = (case map_of nodes name of None \<Rightarrow> Inl OutOfRange | Some x \<Rightarrow> nodeValue X D x, nodes)"

text \<open>\<open>_node\<close>, with the nodes that follow it, \<open>_index\<close>, and whether it is a \<open>RootXmlArrayDeserializer\<close>.\<close>

record 'x xml_cursor =
  xc_nodes :: "'x list"
  xc_index :: nat
  xc_top :: bool

definition xml_cursor_new :: "('x, 't) xml_lib \<Rightarrow> 'x \<Rightarrow> 'x xml_cursor" where
  "xml_cursor_new X node = \<lparr>xc_nodes = x_children X node, xc_index = 0, xc_top = False\<rparr>"

definition xml_step :: "('x, 't) xml_lib \<Rightarrow> ('x \<Rightarrow> cpp_error + 'v) \<Rightarrow> 'v \<Rightarrow> 'x xml_cursor \<Rightarrow> (cpp_error + 'v) \<times> 'x xml_cursor" where
  "xml_step X f none c =
     (case xc_nodes c of
        [] \<Rightarrow> (Inr none, c)
      | x # xs \<Rightarrow> if x_name X x \<noteq> containerEntry then (Inl ParseException, c)
          else (case f x of Inl e \<Rightarrow> (Inl e, c) | Inr v \<Rightarrow> (Inr v, c\<lparr>xc_nodes := xs, xc_index := xc_index c + 1\<rparr>)))"

definition xml_next_exists :: "('x, 't) xml_lib \<Rightarrow> 'x xml_cursor \<Rightarrow> cpp_error + bool" where
  "xml_next_exists X c = Inr (case xc_nodes c of [] \<Rightarrow> False | x # _ \<Rightarrow> \<not> isEmptyNode X x)"

definition xml_next_array :: "('x, 't) xml_lib \<Rightarrow> 'x xml_cursor \<Rightarrow> (cpp_error + 'x xml_cursor option) \<times> 'x xml_cursor" where
  "xml_next_array X c =
     (if xc_top c
      then (case xc_nodes c of [] \<Rightarrow> Inl UndefinedBehaviour | x # _ \<Rightarrow> Inr (Some (xml_cursor_new X x)), c)
      else xml_step X (\<lambda>x. Inr (Some (xml_cursor_new X x))) None c)"

definition xml_reader :: "('x, 't) xml_lib \<Rightarrow> 'f double_text \<Rightarrow> ('f, (string, 'x) omap, 'x xml_cursor) reader" where
  "xml_reader X D =
     \<lparr>get_value = xml_value X D,
      value_exists = (\<lambda>name nodes. map_of nodes name \<noteq> None),
      available_names = (\<lambda>nodes. Inr (map fst nodes)),
      get_struct = (\<lambda>name nodes. Inr (map_option (discoverNodes X) (map_of nodes name))),
      get_array = (\<lambda>name nodes. Inr (map_option (xml_cursor_new X) (map_of nodes name))),
      next_value = xml_step X (nodeValue X D) any_empty,
      complete = (\<lambda>c. xc_nodes c = []),
      next_exists = xml_next_exists X,
      next_struct = xml_step X (\<lambda>x. Inr (Some (discoverNodes X x))) None,
      next_array = xml_next_array X\<rparr>"

section \<open>The functions of xml.hh\<close>

definition dumpXml :: "('x, 't) xml_lib \<Rightarrow> 'x list res \<Rightarrow> 't res" where
  "dumpXml X r = (case r of Inl e \<Rightarrow> Inl e | Inr xs \<Rightarrow> Inr (x_dump X (foldl (x_append X) (x_element X rootNodeName) xs)))"

definition xml_setRawInput :: "('x, 't) xml_lib \<Rightarrow> 't \<Rightarrow> ('x \<times> 'x list) res" where
  "xml_setRawInput X t = (case x_read X t of None \<Rightarrow> Inl (Thrown ParseException) | Some r \<Rightarrow> Inr r)"

definition serializeAsXmlObject :: "('x, 't) xml_lib \<Rightarrow> ('r, 'x list, 'ds) base_member list \<Rightarrow> 'r \<Rightarrow> 't res" where
  "serializeAsXmlObject X ms r = dumpXml X (struct_write ms r [])"

definition deserializeFromXmlObject :: "('x, 't) xml_lib \<Rightarrow> ('r, 's, (string, 'x) omap) base_member list \<Rightarrow> 'r \<Rightarrow> 't \<Rightarrow> 'r res" where
  "deserializeFromXmlObject X ms z t =
     (case xml_setRawInput X t of Inl e \<Rightarrow> Inl e | Inr (root, rest) \<Rightarrow> fst (struct_read ms (discoverNodes X root) z))"

definition serializeAsXmlArray :: "('x, 't) xml_lib \<Rightarrow>
    ('n, 'x list, 'x xml_array, 'ds, 'da) assembler \<Rightarrow> 'n \<Rightarrow> 't res" where
  "serializeAsXmlArray X A v =
     dumpXml X (map_sum id entries (serialize A v \<lparr>entries = [], entry_type = [], at_root = True\<rparr>))"

definition deserializeFromXmlArray :: "('x, 't) xml_lib \<Rightarrow>
    ('n, 's, 'a, (string, 'x) omap, 'x xml_cursor) assembler \<Rightarrow> 't \<Rightarrow> 'n res" where
  "deserializeFromXmlArray X A t =
     (case xml_setRawInput X t of Inl e \<Rightarrow> Inl e
      | Inr (root, rest) \<Rightarrow> fst (deserialize A \<lparr>xc_nodes = root # rest, xc_index = 0, xc_top = True\<rparr> (fresh A)))"

section \<open>What the library promises\<close>

text \<open>The trees the serializers build: a value with its type and text, and a branch.\<close>

datatype xtree = XLeaf string string string | XBranch string "xtree list"

fun tree_name :: "xtree \<Rightarrow> string" where
  "tree_name (XLeaf n _ _) = n" | "tree_name (XBranch n _) = n"

text \<open>Names and texts that XML can express.\<close>

primrec xml_ok :: "(string \<Rightarrow> bool) \<Rightarrow> (string \<Rightarrow> bool) \<Rightarrow> xtree \<Rightarrow> bool" where
  "xml_ok nm tx (XLeaf n ty v) = (nm n \<and> (v = [] \<or> tx v))"
| "xml_ok nm tx (XBranch n ts) = (nm n \<and> list_all id (map (xml_ok nm tx) ts))"

definition plain_text :: "string \<Rightarrow> bool" where
  "plain_text s \<longleftrightarrow> (\<forall>c \<in> set s. c = CHR ''-'' \<or> is_digit c \<or> c \<in> set ''truefalse'')"

text \<open>\<open>built x t\<close>: the node \<open>x\<close> has been built as \<open>t\<close>; \<open>parsed x t\<close>: the parser has made \<open>x\<close> of
  the text of such a node.  An element without text has no children after parsing.\<close>

locale xml_library =
  fixes X :: "('x, 't) xml_lib" and built :: "'x \<Rightarrow> xtree \<Rightarrow> bool" and parsed :: "'x \<Rightarrow> xtree \<Rightarrow> bool"
    and nm :: "string \<Rightarrow> bool" and tx :: "string \<Rightarrow> bool" and D :: "'f double_text"
  assumes built_element: "built (x_element X n) (XBranch n [])"
    and built_append: "built x (XBranch n ts) \<Longrightarrow> built c t \<Longrightarrow> built (x_append X x c) (XBranch n (ts @ [t]))"
    and built_leaf: "built (x_prop X ''type'' ty (x_add_content X v (x_element X n))) (XLeaf n ty v)"
    and built_entry: "CHR ''&'' \<notin> set v \<Longrightarrow> built (x_prop X ''type'' ty (x_element_with X n v)) (XLeaf n ty v)"
    and read_dump: "built x t \<Longrightarrow> xml_ok nm tx t \<Longrightarrow> \<exists>y ys. x_read X (x_dump X x) = Some (y, ys) \<and> parsed y t"
    and parsed_element: "parsed y t \<Longrightarrow> x_is_element X y \<and> x_name X y = tree_name t"
    and parsed_branch: "parsed y (XBranch n ts) \<Longrightarrow> list_all2 parsed (x_children X y) ts"
    and parsed_leaf: "parsed y (XLeaf n ty v) \<Longrightarrow> x_get_prop X ''type'' y = Some ty \<and>
      (x_children X y = [] \<longleftrightarrow> v = []) \<and> x_list_string X (x_children X y) = (if v = [] then None else Some v)"
    and source_names: "nm cKeyName" "nm cValueName" "nm containerEntry" "nm rootNodeName"
    and plain_texts: "plain_text s \<Longrightarrow> tx s"

text \<open>The primitive values that can be written and read: integers in range, texts XML can express,
  without an ampersand and not empty, and doubles that \<open>std::to_string\<close> shows in full.\<close>

definition xml_prim :: "'f double_text \<Rightarrow> (string \<Rightarrow> bool) \<Rightarrow> 'f cpp_value \<Rightarrow> bool" where
  "xml_prim D tx p = (case p of
     VInt64 i \<Rightarrow> LONG_MIN \<le> i \<and> i \<le> LONG_MAX | VUInt64 i \<Rightarrow> 0 \<le> i \<and> i < 2 ^ 64 | VBool _ \<Rightarrow> True
   | VString s \<Rightarrow> tx s \<and> s \<noteq> [] \<and> CHR ''&'' \<notin> set s
   | VDouble d \<Rightarrow> of_text D (to_text D d) = Inr d \<and> tx (to_text D d) \<and> to_text D d \<noteq> [] \<and> CHR ''&'' \<notin> set (to_text D d)
   | _ \<Rightarrow> False)"

text \<open>The last tree of a name.\<close>

definition named :: "string \<Rightarrow> xtree list \<Rightarrow> xtree option" where
  "named n ts = map_of (rev (map (\<lambda>t. (tree_name t, t)) ts)) n"

lemma named_snoc: "named n (ts @ [t]) = (if tree_name t = n then Some t else named n ts)"
  by (simp add: named_def)

lemma named_Nil: "named n [] = None"
  by (simp add: named_def)

lemma named_tree: "named n ts = Some t \<Longrightarrow> t \<in> set ts \<and> tree_name t = n"
  by (auto simp: named_def dest!: map_of_SomeD)

lemma named_none: "(\<forall>n. named n ts = None) \<longleftrightarrow> ts = []"
  by (cases ts rule: rev_cases) (auto simp: named_snoc named_Nil)

subsection \<open>Texts of integers\<close>

lemma show_int_char: "c \<in> set (show_int i) \<Longrightarrow> c = CHR ''-'' \<or> is_digit c"
  using show_nat_digits by (auto simp: show_int_def split: if_splits)

lemma show_int_nonempty: "show_int i \<noteq> []"
  by (simp add: show_int_def show_nat_neq_Nil)

lemma show_int_no_minus:
  assumes "0 \<le> i"
  shows "show_int i ! 0 \<noteq> CHR ''-''"
proof -
  have "show_nat (nat i) ! 0 \<in> set (show_nat (nat i))" using show_nat_neq_Nil [of "nat i"] by (intro nth_mem) simp
  with show_nat_digits have "is_digit (show_nat (nat i) ! 0)" by blast
  with assms show ?thesis by (auto simp: show_int_def is_digit_def)
qed

lemma plain_show_int: "plain_text (show_int i)"
  using show_int_char by (auto simp: plain_text_def)

lemma no_ampersand: "plain_text s \<Longrightarrow> CHR ''&'' \<notin> set s"
  unfolding plain_text_def by (rule notI) (drule (1) bspec, simp add: is_digit_def)

lemma parse_int: "LONG_MIN \<le> i \<Longrightarrow> i \<le> LONG_MAX \<Longrightarrow> parseValue D (show_int i) ''int'' = Inr (any_of (VInt64 i))"
  by (simp add: parseValue_def std_stol_show_int)

lemma parse_uint: "0 \<le> i \<Longrightarrow> i < 2 ^ 64 \<Longrightarrow> parseValue D (show_int i) ''uint'' = Inr (any_of (VUInt64 i))"
  using show_int_no_minus [of i] by (simp add: parseValue_def std_stoul_def strtol10_show_int)

lemma plain_value:
  assumes "plain_text v" "v \<noteq> []" "\<forall>s. plain_text s \<longrightarrow> tx s" "parseValue D v ty = Inr (any_of p)"
  shows "v \<noteq> [] \<and> tx v \<and> CHR ''&'' \<notin> set v \<and> parseValue D v ty = Inr (any_of p)"
  using assms no_ampersand by blast

lemma value_text_ok:
  assumes "xml_prim D tx p" "\<forall>s. plain_text s \<longrightarrow> tx s" "value_text D p = (v, ty)"
  shows "v \<noteq> [] \<and> tx v \<and> CHR ''&'' \<notin> set v \<and> parseValue D v ty = Inr (any_of p)"
proof (cases p)
  case (VInt64 i)
  with assms(1,3) have "v = show_int i" "ty = ''int''" "LONG_MIN \<le> i" "i \<le> LONG_MAX" by (simp_all add: xml_prim_def)
  then show ?thesis using plain_value [where v = "show_int i" and D = D and ty = ty and p = p, OF plain_show_int show_int_nonempty assms(2)] VInt64 by (simp add: parse_int)
next
  case (VUInt64 i)
  with assms(1,3) have "v = show_int i" "ty = ''uint''" "0 \<le> i" "i < 2 ^ 64" by (simp_all add: xml_prim_def)
  then show ?thesis using plain_value [where v = "show_int i" and D = D and ty = ty and p = p, OF plain_show_int show_int_nonempty assms(2)] VUInt64 by (simp add: parse_uint)
next
  case (VBool b)
  with assms(3) have v: "v = (if b then ''true'' else ''false'')" "ty = ''bool''" by simp_all
  show ?thesis
  proof (rule plain_value [OF _ _ assms(2)])
    show "plain_text v" "v \<noteq> []" by (simp_all add: v plain_text_def)
    show "parseValue D v ty = Inr (any_of p)" by (simp add: v VBool parseValue_def)
  qed
qed (use assms(1,3) in \<open>auto simp: xml_prim_def parseValue_def\<close>)

section \<open>The XML serializers are an archive\<close>

context xml_library
begin

text \<open>The tree that is written for an abstract item.\<close>

inductive x_item :: "'f item \<Rightarrow> xtree \<Rightarrow> bool" where
  x_val: "xml_prim D tx p \<Longrightarrow> value_text D p = (v, ty) \<Longrightarrow> x_item (IVal p) (XLeaf n ty v)"
| x_emp: "x_item IEmpty (XLeaf n ty [])"
| x_str: "(\<And>m. f m = None \<longleftrightarrow> named m ts = None) \<Longrightarrow>
    (\<And>m it t. f m = Some it \<Longrightarrow> named m ts = Some t \<Longrightarrow> x_item it t) \<Longrightarrow> x_item (IStruct f) (XBranch n ts)"
| x_arr: "list_all2 x_item its ts \<Longrightarrow> list_all (\<lambda>t. tree_name t = containerEntry) ts \<Longrightarrow>
    x_item (IArray its) (XBranch n ts)"
monos list_all2_mono

inductive_cases x_valE: "x_item (IVal p) t"
inductive_cases x_empE: "x_item IEmpty t"
inductive_cases x_strE: "x_item (IStruct f) t"
inductive_cases x_arrE: "x_item (IArray its) t"

text \<open>The children of a serializer, and those a deserializer has found.\<close>

definition holds :: "(string \<Rightarrow> 'f item option) \<Rightarrow> xtree list \<Rightarrow> bool" where
  "holds f ts \<longleftrightarrow> x_item (IStruct f) (XBranch [] ts)"

definition lists :: "'f item list \<Rightarrow> xtree list \<Rightarrow> bool" where
  "lists its ts \<longleftrightarrow> list_all2 x_item its ts \<and> list_all (\<lambda>t. tree_name t = containerEntry) ts"

definition written :: "'x list \<Rightarrow> xtree list \<Rightarrow> bool" where
  "written xs ts \<longleftrightarrow> list_all2 built xs ts \<and> list_all (xml_ok nm tx) ts"

definition w_s :: "'x list \<Rightarrow> (string \<Rightarrow> 'f item option) \<Rightarrow> bool" where
  "w_s xs f \<longleftrightarrow> (\<exists>ts. written xs ts \<and> holds f ts)"

definition w_a :: "'x xml_array \<Rightarrow> 'f item list \<Rightarrow> bool" where
  "w_a a its \<longleftrightarrow> \<not> at_root a \<and> (\<exists>ts. written (entries a) ts \<and> lists its ts)"

definition shows_s :: "(string \<Rightarrow> 'f item option) \<Rightarrow> (string, 'x) omap \<Rightarrow> bool" where
  "shows_s f nodes \<longleftrightarrow> (\<exists>xs ts. list_all2 parsed xs ts \<and> holds f ts \<and> nodes = discover X xs)"

definition shows_a :: "'f item list \<Rightarrow> 'x xml_cursor \<Rightarrow> bool" where
  "shows_a its c \<longleftrightarrow> \<not> xc_top c \<and> (\<exists>ts. list_all2 parsed (xc_nodes c) ts \<and> lists its ts)"

lemma array_item_tree: "x_item (IArray its) t \<longleftrightarrow> (\<exists>n ts. t = XBranch n ts \<and> lists its ts)"
  unfolding lists_def by (auto elim!: x_arrE intro: x_arr)

lemma holds_iff:
  "holds f ts \<longleftrightarrow> (\<forall>m. f m = None \<longleftrightarrow> named m ts = None) \<and> (\<forall>m it t. f m = Some it \<longrightarrow> named m ts = Some t \<longrightarrow> x_item it t)"
  unfolding holds_def by (auto elim!: x_strE intro: x_str)

lemma struct_item: "x_item (IStruct f) t \<longleftrightarrow> (\<exists>n ts. t = XBranch n ts \<and> holds f ts)"
  unfolding holds_iff by (auto elim!: x_strE intro!: x_str)

lemma holds_put: "holds f ts \<Longrightarrow> x_item it t \<Longrightarrow> holds (f(tree_name t \<mapsto> it)) (ts @ [t])"
  by (auto simp: holds_iff named_snoc)

lemma lists_push: "lists its ts \<Longrightarrow> x_item it t \<Longrightarrow> tree_name t = containerEntry \<Longrightarrow> lists (its @ [it]) (ts @ [t])"
  by (auto simp: lists_def list_all2_appendI)

lemma written_push: "written xs ts \<Longrightarrow> built x t \<Longrightarrow> xml_ok nm tx t \<Longrightarrow> written (xs @ [x]) (ts @ [t])"
  by (auto simp: written_def list_all2_appendI)

lemma built_branch: "list_all2 built xs ts \<Longrightarrow> built (foldl (x_append X) (x_element X n) xs) (XBranch n ts)"
proof (induction xs arbitrary: ts rule: rev_induct)
  case (snoc x xs)
  then obtain us t where "ts = us @ [t]" "list_all2 built xs us" "built x t"
    by (auto simp: list_all2_append1 list_all2_Cons1)
  with snoc.IH built_append show ?case by simp
qed (simp add: built_element)

lemma written_branch: "written xs ts \<Longrightarrow> nm n \<Longrightarrow>
    built (foldl (x_append X) (x_element X n) xs) (XBranch n ts) \<and> xml_ok nm tx (XBranch n ts)"
  by (simp add: written_def built_branch list_all_iff)

lemma value_leaf:
  assumes "xml_prim D tx p" "value_text D p = (v, ty)"
  shows "v \<noteq> [] \<and> tx v \<and> CHR ''&'' \<notin> set v \<and> parseValue D v ty = Inr (any_of p)"
  using value_text_ok [OF assms(1) _ assms(2)] plain_texts by blast

text \<open>The node map has the last node of every name.\<close>

lemma discover_inv: "omap_inv (discover X xs)"
  by (induction xs rule: rev_induct) (auto simp: discover_def)

lemma discover_named:
  assumes "list_all2 parsed xs ts"
  shows "rel_option parsed (map_of (discover X xs) m) (named m ts)"
  using assms
proof (induction xs arbitrary: ts rule: rev_induct)
  case Nil
  then show ?case by (simp add: discover_def named_Nil)
next
  case (snoc x xs)
  then obtain us t where t: "ts = us @ [t]" "list_all2 parsed xs us" "parsed x t"
    by (auto simp: list_all2_append1 list_all2_Cons1)
  have "discover X (xs @ [x]) = omap_set (tree_name t) x (discover X xs)"
    using parsed_element [OF t(3)] by (simp add: discover_def)
  with snoc.IH [OF t(2)] t(3) show ?case
    by (simp add: t(1) named_snoc map_of_omap_set [OF discover_inv])
qed

lemma shown_member:
  assumes "shows_s f nodes" "f m = Some it"
  obtains x t where "map_of nodes m = Some x" "parsed x t" "x_item it t"
proof -
  from assms(1) obtain xs ts where xs: "list_all2 parsed xs ts" "holds f ts" "nodes = discover X xs"
    by (auto simp: shows_s_def)
  from xs(2) assms(2) have "named m ts \<noteq> None" unfolding holds_iff by (metis option.distinct(1))
  then obtain t where t: "named m ts = Some t" by blast
  with xs(2) assms(2) have it: "x_item it t" unfolding holds_iff by blast
  from discover_named [OF xs(1), of m] t obtain x where "map_of nodes m = Some x" "parsed x t"
    by (auto simp: xs(3) option_rel_Some2)
  with it that show ?thesis by blast
qed

lemma shown_absent:
  assumes "shows_s f nodes"
  shows "map_of nodes m = None \<longleftrightarrow> f m = None"
proof -
  from assms obtain xs ts where xs: "list_all2 parsed xs ts" "holds f ts" "nodes = discover X xs" by (auto simp: shows_s_def)
  from discover_named [OF xs(1), of m] have "map_of nodes m = None \<longleftrightarrow> named m ts = None"
    unfolding xs(3) by (cases "named m ts"; cases "map_of (discover X xs) m") simp_all
  with xs(2) show ?thesis by (simp add: holds_iff)
qed

lemma shown_entry:
  assumes "shows_a (it # its) c"
  obtains x xs t where "xc_nodes c = x # xs" "x_name X x = containerEntry" "parsed x t" "x_item it t"
    "shows_a its (c\<lparr>xc_nodes := xs, xc_index := xc_index c + 1\<rparr>)"
proof -
  from assms obtain ts where ts: "\<not> xc_top c" "list_all2 parsed (xc_nodes c) ts" "lists (it # its) ts" by (auto simp: shows_a_def)
  from ts(3) obtain t us where t: "ts = t # us" "x_item it t" "tree_name t = containerEntry" "lists its us"
    by (auto simp: lists_def list_all2_Cons1)
  from ts(2) t(1) obtain x xs where x: "xc_nodes c = x # xs" "parsed x t" "list_all2 parsed xs us" by (auto simp: list_all2_Cons2)
  have "shows_a its (c\<lparr>xc_nodes := xs, xc_index := xc_index c + 1\<rparr>)" using ts(1) x(3) t(4) by (auto simp: shows_a_def)
  with that x(1,2) t(2,3) parsed_element [OF x(2)] show ?thesis by metis
qed

lemma shown_struct:
  assumes "parsed x t" "x_item (IStruct f) t"
  shows "shows_s f (discoverNodes X x)"
proof -
  from assms(2) obtain n ts where "t = XBranch n ts" "holds f ts" by (auto simp: struct_item)
  with parsed_branch assms(1) show ?thesis unfolding shows_s_def discoverNodes_def by blast
qed

lemma shown_array:
  assumes "parsed x t" "x_item (IArray its) t"
  shows "shows_a its (xml_cursor_new X x)"
proof -
  from assms(2) obtain n ts where "t = XBranch n ts" "lists its ts" by (auto simp: array_item_tree)
  with parsed_branch assms(1) show ?thesis unfolding shows_a_def xml_cursor_new_def by auto
qed

lemma read_value: "parsed x t \<Longrightarrow> x_item (IVal p) t \<Longrightarrow> nodeValue X D x = Inr (any_of p)"
  using value_leaf by (auto simp: nodeValue_def typeProperty_def dest!: parsed_leaf elim!: x_valE)

lemma read_empty: "parsed x t \<Longrightarrow> x_item IEmpty t \<Longrightarrow> nodeValue X D x = Inr any_empty"
  by (auto simp: nodeValue_def typeProperty_def dest!: parsed_leaf elim!: x_empE)

lemma read_exists:
  assumes "parsed x t" "x_item it t"
  shows "isEmptyNode X x \<longleftrightarrow> nullish True it"
proof (cases it)
  case (IVal p)
  with assms obtain n ty v where "t = XLeaf n ty v" "xml_prim D tx p" "value_text D p = (v, ty)" by (auto elim!: x_valE)
  with value_leaf parsed_leaf assms(1) IVal show ?thesis by (fastforce simp: isEmptyNode_def)
next
  case (IStruct f)
  with assms(2) obtain n ts where ts: "t = XBranch n ts" "holds f ts" by (auto simp: struct_item)
  with parsed_branch assms(1) have "x_children X x = [] \<longleftrightarrow> ts = []" by fastforce
  moreover have "f = Map.empty \<longleftrightarrow> (\<forall>n. named n ts = None)" using ts(2) by (auto simp: holds_iff fun_eq_iff)
  ultimately show ?thesis using IStruct by (simp add: isEmptyNode_def named_none)
next
  case (IArray its)
  with assms(2) obtain n ts where ts: "t = XBranch n ts" "lists its ts" by (auto simp: array_item_tree)
  with parsed_branch assms(1) have "x_children X x = [] \<longleftrightarrow> ts = []" by fastforce
  moreover have "its = [] \<longleftrightarrow> ts = []" using ts(2) by (auto simp: lists_def)
  ultimately show ?thesis using IArray by (simp add: isEmptyNode_def)
next
  case IEmpty
  with assms show ?thesis by (auto simp: isEmptyNode_def dest!: parsed_leaf elim!: x_empE)
qed

text \<open>What the operations of the writer do.\<close>

lemma put_leaf:
  assumes "w_s xs f" "nm n" "xml_prim D tx p"
  shows "w_s (add_leaf X n (value_text D p) xs) (f(n \<mapsto> IVal p))"
proof -
  obtain v ty where v: "value_text D p = (v, ty)" by fastforce
  note ok = value_leaf [OF assms(3) v]
  from assms(1) obtain ts where ts: "written xs ts" "holds f ts" by (auto simp: w_s_def)
  have "xml_ok nm tx (XLeaf n ty v)" using ok assms(2) by simp
  with ts(1) built_leaf have "written (add_leaf X n (v, ty) xs) (ts @ [XLeaf n ty v])"
    by (simp add: add_leaf_def typeProperty_def written_push)
  moreover have "holds (f(n \<mapsto> IVal p)) (ts @ [XLeaf n ty v])"
    using holds_put [OF ts(2) x_val [OF assms(3) v, of n]] by simp
  ultimately show ?thesis using v by (auto simp: w_s_def)
qed

lemma put_branch:
  assumes "w_s xs f" "nm n" "written cs us" "x_item it (XBranch n us)"
  shows "w_s (add_branch X n cs xs) (f(n \<mapsto> it))"
proof -
  from assms(1) obtain ts where ts: "written xs ts" "holds f ts" by (auto simp: w_s_def)
  have "written (add_branch X n cs xs) (ts @ [XBranch n us])"
    using written_push [OF ts(1)] written_branch [OF assms(3,2)] by (simp add: add_branch_def)
  moreover have "holds (f(n \<mapsto> it)) (ts @ [XBranch n us])" using holds_put [OF ts(2) assms(4)] by simp
  ultimately show ?thesis by (auto simp: w_s_def)
qed

lemma push_entry:
  assumes "w_a a its" "x_item it (XLeaf containerEntry ty v)" "CHR ''&'' \<notin> set v" "v = [] \<or> tx v"
  shows "w_a (a\<lparr>entries := add_entry X (v, ty) (entries a), entry_type := ty'\<rparr>) (its @ [it])"
proof -
  from assms(1) obtain ts where ts: "\<not> at_root a" "written (entries a) ts" "lists its ts" by (auto simp: w_a_def)
  have "written (add_entry X (v, ty) (entries a)) (ts @ [XLeaf containerEntry ty v])"
    using written_push [OF ts(2) built_entry [OF assms(3)]] assms(4) source_names(3)
    by (simp add: add_entry_def typeProperty_def)
  moreover have "lists (its @ [it]) (ts @ [XLeaf containerEntry ty v])" using lists_push [OF ts(3) assms(2)] by simp
  ultimately show ?thesis using ts(1) by (auto simp: w_a_def)
qed

lemma push_branch:
  assumes "w_a a its" "written cs us" "x_item it (XBranch containerEntry us)"
  shows "w_a (a\<lparr>entries := add_branch X containerEntry cs (entries a)\<rparr>) (its @ [it])"
proof -
  from assms(1) obtain ts where ts: "\<not> at_root a" "written (entries a) ts" "lists its ts" by (auto simp: w_a_def)
  have "written (add_branch X containerEntry cs (entries a)) (ts @ [XBranch containerEntry us])"
    using written_push [OF ts(2)] written_branch [OF assms(2) source_names(3)] by (simp add: add_branch_def)
  moreover have "lists (its @ [it]) (ts @ [XBranch containerEntry us])" using lists_push [OF ts(3) assms(3)] by simp
  ultimately show ?thesis using ts(1) by (auto simp: w_a_def)
qed

lemma empty_struct: "w_s [] Map.empty"
  unfolding w_s_def by (intro exI [of _ "[]"]) (simp add: written_def holds_iff named_Nil)

lemma empty_array: "w_a (xml_new_array []) []"
  unfolding w_a_def xml_new_array_def by (simp, intro exI [of _ "[]"]) (simp add: written_def lists_def)

lemma branch_item: "holds f us \<Longrightarrow> x_item (IStruct f) (XBranch n us)" "lists its us \<Longrightarrow> x_item (IArray its) (XBranch n us)"
  by (auto simp: struct_item array_item_tree)

lemma xml_step_reads:
  assumes "shows_a (it # its) c" and "\<And>x t. parsed x t \<Longrightarrow> x_item it t \<Longrightarrow> \<exists>v. f x = Inr v \<and> Q v"
  shows "\<exists>v c'. xml_step X f none c = (Inr v, c') \<and> Q v \<and> shows_a its c'"
proof -
  from shown_entry [OF assms(1)] obtain x xs t where x: "xc_nodes c = x # xs" "x_name X x = containerEntry" "parsed x t" "x_item it t"
    "shows_a its (c\<lparr>xc_nodes := xs, xc_index := xc_index c + 1\<rparr>)" .
  from assms(2) [OF x(3,4)] obtain v where "f x = Inr v" "Q v" by blast
  with x(1,2,5) show ?thesis by (simp add: xml_step_def)
qed

lemma xml_exists_reads:
  assumes "shows_a (it # its) c"
  shows "xml_next_exists X c = Inr (\<not> nullish True it)"
proof -
  from shown_entry [OF assms] obtain x xs t where x: "xc_nodes c = x # xs" "parsed x t" "x_item it t" by metis
  with read_exists [OF x(2,3)] show ?thesis by (simp add: xml_next_exists_def)
qed

end

sublocale xml_library \<subseteq> archive "xml_writer X D" "xml_reader X D" w_s w_a shows_s shows_a
  True nm "xml_prim D tx" any_of
proof (unfold_locales, goal_cases)
  case 1
  show ?case by (simp add: xml_writer_def empty_struct)
next
  case (2 s f n p)
  then show ?case by (simp add: xml_writer_def put_leaf)
next
  case (3 s f n c g)
  then show ?case by (auto simp: xml_writer_def w_s_def [of c] branch_item intro: put_branch)
next
  case (4 s f n ca its)
  then show ?case by (auto simp: xml_writer_def w_a_def [of ca] branch_item intro: put_branch)
next
  case 5
  show ?case by (rule source_names)
next
  case 6
  show ?case by (rule source_names)
next
  case 7
  show ?case by (simp add: xml_writer_def empty_array)
next
  case (8 a its)
  then show ?case using empty_array by (simp add: xml_writer_def w_a_def)
next
  case (9 a its p)
  obtain v ty where v: "value_text D p = (v, ty)" by fastforce
  from value_leaf [OF 9(2) v] push_entry [OF 9(1) x_val [OF 9(2) v, of containerEntry]] show ?case
    by (simp add: xml_writer_def xml_push_def v)
next
  case (10 a its)
  have "w_a (a\<lparr>entries := add_entry X ([], entry_type a) (entries a), entry_type := entry_type a\<rparr>) (its @ [IEmpty])"
    by (rule push_entry [OF 10 x_emp]) simp_all
  then show ?case by (simp add: xml_writer_def)
next
  case (11 a its c g)
  then show ?case by (auto simp: xml_writer_def w_s_def branch_item intro: push_branch)
next
  case (12 a its ca its')
  then have "\<not> at_root a" by (simp add: w_a_def)
  with 12 show ?case by (auto simp: xml_writer_def w_a_def [of ca] branch_item intro: push_branch)
next
  case (13 f ds n p)
  from shown_member [OF 13] obtain x t where "map_of ds n = Some x" "parsed x t" "x_item (IVal p) t" .
  with read_value 13(1) show ?case by (simp add: xml_reader_def xml_value_def)
next
  case (14 f ds n)
  then show ?case using shown_absent [OF 14, of n] by (cases "f n"; cases "map_of ds n") (simp_all add: xml_reader_def)
next
  case (15 f ds)
  then have inv: "omap_inv ds" using discover_inv by (auto simp: shows_s_def)
  have "m \<in> fst ` set ds \<longleftrightarrow> m \<in> dom f" for m
    using shown_absent [OF 15, of m] unfolding map_of_eq_None_iff domIff by argo
  then have "fst ` set ds = dom f" by blast
  with inv show ?case by (simp add: xml_reader_def omap_inv_distinct)
next
  case (16 f ds n g)
  from shown_member [OF 16] obtain x t where "map_of ds n = Some x" "parsed x t" "x_item (IStruct g) t" .
  with shown_struct show ?case by (simp add: xml_reader_def)
next
  case (17 f ds n its)
  from shown_member [OF 17] obtain x t where "map_of ds n = Some x" "parsed x t" "x_item (IArray its) t" .
  with shown_array show ?case by (simp add: xml_reader_def)
next
  case (18 its da)
  then show ?case by (auto simp: xml_reader_def shows_a_def lists_def)
next
  case (19 p its da)
  from xml_step_reads [OF 19, of "nodeValue X D" "\<lambda>v. v = any_of p"] read_value show ?case
    by (auto simp: xml_reader_def)
next
  case (20 its da)
  from xml_step_reads [OF 20, of "nodeValue X D" "\<lambda>v. True"] read_empty show ?case
    by (auto simp: xml_reader_def)
next
  case (21 g its da)
  have "\<exists>v c'. xml_step X (\<lambda>x. Inr (Some (discoverNodes X x))) None da = (Inr v, c') \<and>
      (\<exists>d. v = Some d \<and> shows_s g d) \<and> shows_a its c'"
    by (rule xml_step_reads [OF 21]) (use shown_struct in blast)
  then show ?case by (auto simp: xml_reader_def)
next
  case (22 its' its da)
  then have "\<not> xc_top da" by (simp add: shows_a_def)
  moreover have "\<exists>v c'. xml_step X (\<lambda>x. Inr (Some (xml_cursor_new X x))) None da = (Inr v, c') \<and>
      (\<exists>d. v = Some d \<and> shows_a its' d) \<and> shows_a its c'"
    by (rule xml_step_reads [OF 22]) (use shown_array in blast)
  ultimately show ?case by (auto simp: xml_reader_def xml_next_array_def)
next
  case (23 it its da)
  then show ?case by (simp add: xml_reader_def xml_exists_reads)
qed (auto simp: xml_prim_def)

section \<open>Round trips\<close>

context xml_library
begin

lemma read_root:
  assumes "written xs ts"
  shows "\<exists>y ys. x_read X (x_dump X (foldl (x_append X) (x_element X rootNodeName) xs)) = Some (y, ys) \<and> list_all2 parsed (x_children X y) ts"
  using read_dump written_branch [OF assms source_names(4)] parsed_branch by meson

lemma xml_object_roundtrip:
  assumes it: "flat_item (struct_write ms v) (struct_read ms) N ft (\<lambda>n. v) g" and "ft z"
  shows "\<exists>x. serializeAsXmlObject X ms v = Inr x \<and> deserializeFromXmlObject X ms z x = Inr v"
proof -
  let ?g = "override_on Map.empty g N"
  from flat_write [OF it empty_struct] obtain xs where xs: "struct_write ms v [] = Inr xs" "w_s xs ?g" by auto
  then obtain ts where ts: "written xs ts" "holds ?g ts" by (auto simp: w_s_def)
  from read_root [OF ts(1)] obtain y ys where
    y: "x_read X (x_dump X (foldl (x_append X) (x_element X rootNodeName) xs)) = Some (y, ys)" "list_all2 parsed (x_children X y) ts"
    by blast
  have "shows_s ?g (discoverNodes X y)" using ts(2) y(2) by (auto simp: shows_s_def discoverNodes_def)
  from flat_read [OF it this _ assms(2)] obtain d where "struct_read ms (discoverNodes X y) z = (Inr v, d)"
    by (auto simp: override_on_def)
  with xs(1) y(1) show ?thesis
    by (simp add: serializeAsXmlObject_def dumpXml_def deserializeFromXmlObject_def xml_setRawInput_def)
qed

lemma xml_array_roundtrip:
  assumes it: "array_item wr rd ft v its" and "ft z"
  shows "\<exists>x. serializeAsXmlArray X (array_assembler (xml_writer X D) (xml_reader X D) e wr rd g z) v = Inr x \<and>
    deserializeFromXmlArray X (array_assembler (xml_writer X D) (xml_reader X D) e wr rd g z) x = Inr v"
proof -
  from it empty_array obtain c where c: "wr v (xml_new_array []) = Inr c" "w_a c its" by (auto simp: array_item_def)
  then obtain ts where ts: "written (entries c) ts" "lists its ts" by (auto simp: w_a_def)
  from read_root [OF ts(1)] obtain y ys where
    y: "x_read X (x_dump X (foldl (x_append X) (x_element X rootNodeName) (entries c))) = Some (y, ys)"
      "list_all2 parsed (x_children X y) ts" by blast
  have "shows_a its (xml_cursor_new X y)" using ts(2) y(2) by (auto simp: shows_a_def xml_cursor_new_def)
  with it assms(2) have "rd (xml_cursor_new X y) z = Inr v" by (simp add: array_item_def)
  with c(1) y(1) show ?thesis
    by (simp add: serializeAsXmlArray_def deserializeFromXmlArray_def xml_setRawInput_def dumpXml_def array_assembler_def
        xml_writer_def xml_reader_def xml_next_array_def)
qed

lemma xml_struct_roundtrip:
  assumes "wf_ty nm (xml_prim D tx) (TStruct ms)" and "ok_el (store True nm (xml_prim D tx) fuel fc (TStruct ms)) v"
  shows "\<exists>x. serializeAsXmlObject X (asm_members fuel (xml_writer X D) (xml_reader X D) fc ms) v = Inr x \<and>
    deserializeFromXmlObject X (asm_members fuel (xml_writer X D) (xml_reader X D) fc ms)
      (fresh (asm fuel (xml_writer X D) (xml_reader X D) fc (TStruct ms))) x = Inr v"
proof -
  from asm_struct_item [OF assms] obtain N g where
    it: "flat_item (struct_write (asm_members fuel (xml_writer X D) (xml_reader X D) fc ms) v)
      (struct_read (asm_members fuel (xml_writer X D) (xml_reader X D) fc ms)) N
      (fits (store True nm (xml_prim D tx) fuel fc (TStruct ms))) (\<lambda>n. v) g" by blast
  show ?thesis by (rule xml_object_roundtrip [OF it codec_fresh [OF asm_codec [OF assms(1)]]])
qed

lemma xml_vector_roundtrip:
  assumes "wf_ty nm (xml_prim D tx) t"
    and "\<forall>v \<in> set vs. ok_ar (store True nm (xml_prim D tx) fuel fc t) v" and "length vs \<le> fuel"
  shows "\<exists>x. serializeAsXmlArray X (list_assembler fuel (xml_writer X D) (xml_reader X D) (asm fuel (xml_writer X D) (xml_reader X D) fc t)) vs = Inr x \<and>
    deserializeFromXmlArray X (list_assembler fuel (xml_writer X D) (xml_reader X D) (asm fuel (xml_writer X D) (xml_reader X D) fc t)) x = Inr vs"
proof -
  have "\<exists>its. array_item (ser_each (serialize (asm fuel (xml_writer X D) (xml_reader X D) fc t)))
      (\<lambda>da old. de_each fuel (xml_reader X D) (asm fuel (xml_writer X D) (xml_reader X D) fc t) da []) (\<lambda>_. True) vs its \<and>
      (vs \<noteq> [] \<longrightarrow> its \<noteq> [])"
    by (rule list_array_item [OF asm_codec [OF assms(1)]]) (use assms in simp)
  then obtain its where "array_item (ser_each (serialize (asm fuel (xml_writer X D) (xml_reader X D) fc t)))
      (\<lambda>da old. de_each fuel (xml_reader X D) (asm fuel (xml_writer X D) (xml_reader X D) fc t) da []) (\<lambda>_. True) vs its" by blast
  from xml_array_roundtrip [OF this] show ?thesis unfolding list_assembler_def by simp
qed

end


section \<open>A library that keeps the promises\<close>

text \<open>Elements with attributes and children, and texts; the text of a document is its tree.\<close>

datatype xnode = XElem string "(string \<times> string) list" "xnode list" | XText string

definition xnode_texts :: "string \<Rightarrow> xnode list" where
  "xnode_texts v = (if v = [] then [] else [XText v])"

fun xnode_children :: "xnode \<Rightarrow> xnode list" where
  "xnode_children (XElem _ _ cs) = cs" | "xnode_children (XText _) = []"

fun xnode_string :: "xnode list \<Rightarrow> string option" where
  "xnode_string [] = None"
| "xnode_string (XText v # cs) = Some (v @ (case xnode_string cs of Some w \<Rightarrow> w | None \<Rightarrow> []))"
| "xnode_string (XElem _ _ _ # cs) = xnode_string cs"

definition xnode_lib :: "(xnode, xnode) xml_lib" where
  "xnode_lib =
     \<lparr>x_element = (\<lambda>n. XElem n [] []), x_element_with = (\<lambda>n v. XElem n [] (xnode_texts v)),
      x_add_content = (\<lambda>v x. case x of XElem n as cs \<Rightarrow> XElem n as (cs @ xnode_texts v) | _ \<Rightarrow> x),
      x_prop = (\<lambda>p v x. case x of XElem n as cs \<Rightarrow> XElem n (as @ [(p, v)]) cs | _ \<Rightarrow> x),
      x_append = (\<lambda>x c. case x of XElem n as cs \<Rightarrow> XElem n as (cs @ [c]) | _ \<Rightarrow> x),
      x_children = xnode_children,
      x_name = (\<lambda>x. case x of XElem n _ _ \<Rightarrow> n | XText _ \<Rightarrow> ''text''),
      x_is_element = (\<lambda>x. case x of XElem _ _ _ \<Rightarrow> True | XText _ \<Rightarrow> False),
      x_get_prop = (\<lambda>p x. case x of XElem _ as _ \<Rightarrow> map_of as p | XText _ \<Rightarrow> None),
      x_list_string = xnode_string,
      x_dump = id, x_read = (\<lambda>x. Some (x, []))\<rparr>"

primrec xnode_of :: "xtree \<Rightarrow> xnode" where
  "xnode_of (XLeaf n ty v) = XElem n [(''type'', ty)] (xnode_texts v)"
| "xnode_of (XBranch n ts) = XElem n [] (map xnode_of ts)"

interpretation xnode: xml_library xnode_lib "\<lambda>x t. x = xnode_of t" "\<lambda>x t. x = xnode_of t" "\<lambda>_. True" "\<lambda>_. True" D for D :: "'f double_text"
proof (unfold_locales, goal_cases)
  case (6 y t)
  then show ?case by (cases t) (simp_all add: xnode_lib_def)
next
  case (7 y n ts)
  then show ?case by (simp add: xnode_lib_def list_all2_map1 list.rel_refl_strong)
qed (auto simp: xnode_lib_def xnode_texts_def)

text \<open>Numbers as their own texts.\<close>

definition int_conv :: "(int, int) float_conv" where
  "int_conv = \<lparr>to_double = id, from_double = id, from_int = id, float_zero = 0\<rparr>"

definition int_text :: "int double_text" where
  "int_text = \<lparr>to_text = show_int, of_text = std_stol\<rparr>"

abbreviation "xnode_W \<equiv> xml_writer xnode_lib int_text"
abbreviation "xnode_R \<equiv> xml_reader xnode_lib int_text"


section \<open>What XML loses\<close>

context xml_library
begin

lemma empty_string_lost:
  assumes n: "nm n"
  shows "\<exists>x. serializeAsXmlObject X (asm_members fuel (xml_writer X D) (xml_reader X D) fc [(n, TStr)]) (NStruct [NStr []]) = Inr x \<and>
    deserializeFromXmlObject X (asm_members fuel (xml_writer X D) (xml_reader X D) fc [(n, TStr)]) (NStruct [NStr []]) x
      = Inl (Thrown ParseException)"
proof -
  have "written (add_leaf X n ([], ''string'') []) [XLeaf n ''string'' []]"
    using written_push [of "[]" "[]" _ "XLeaf n ''string'' []", OF _ built_leaf] n
    by (simp add: add_leaf_def typeProperty_def written_def)
  from read_root [OF this] obtain y ys where
    y: "x_read X (x_dump X (foldl (x_append X) (x_element X rootNodeName) (add_leaf X n ([], ''string'') []))) = Some (y, ys)"
      "list_all2 parsed (x_children X y) [XLeaf n ''string'' []]" by blast
  from discover_named [OF y(2), of n] obtain x where x: "map_of (discoverNodes X y) n = Some x" "parsed x (XLeaf n ''string'' [])"
    by (auto simp: named_def option_rel_Some2 discoverNodes_def)
  from read_empty [OF x(2) x_emp] have "get_value (xml_reader X D) n (discoverNodes X y) = (Inr any_empty, discoverNodes X y)"
    by (simp add: xml_reader_def xml_value_def x(1))
  with y(1) show ?thesis
    by (simp add: serializeAsXmlObject_def dumpXml_def deserializeFromXmlObject_def xml_setRawInput_def asm_members_def row_members_def
        typed_member_def lift_def string_assembler_def prim_assembler_def xml_writer_def extract_string_def any_defs caught_def)
qed

end



end
