(* ===== verification/SerialSound.thy ===== *)
theory SerialSound
  imports SerialJson SerialXml
begin

text \<open>
  What the assemblers make of a document nobody has checked: whatever it holds, and whatever the
  library answers, a value that is read has its C++ type, with integers in their range, names of
  enumerations declared and keys of maps in order; and which documents make a read fail, or never end.
\<close>

section \<open>Integers\<close>

text \<open>C38: An integral type takes exactly the integers of its range from a box with a signed or an
  unsigned 64-bit integer, unchanged; an integer outside is \<open>std::out_of_range\<close>, and a box
  with anything else the plain \<open>std::logic_error\<close> \<open>Not integral value\<close>.\<close>

theorem extract_int_range:
  "extract_int bits sgnd (any_of (VInt64 v)) =
     (if int_min bits sgnd \<le> v \<and> v \<le> int_max bits sgnd then Inr v else Inl OutOfRange) \<and>
   extract_int bits sgnd (any_of (VUInt64 (int n))) =
     (if int_min bits sgnd \<le> int n \<and> int n \<le> int_max bits sgnd then Inr (int n) else Inl OutOfRange) \<and>
   (any_type x = TyInt64 \<or> any_type x = TyUInt64 \<or> extract_int bits sgnd x = Inl LogicError)"
proof -
  have "int_min bits sgnd \<le> 0" by (simp add: int_min_def)
  moreover have "\<not> sgnd \<Longrightarrow> int_min bits sgnd = 0" by (simp add: int_min_def)
  ultimately show ?thesis by (auto simp: extract_int_def any_defs)
qed

section \<open>Types\<close>

definition row_of :: "('x list \<Rightarrow> 'n) \<Rightarrow> ('x \<Rightarrow> bool) list \<Rightarrow> 'n \<Rightarrow> bool" where
  "row_of mk Ps n \<longleftrightarrow> (\<exists>xs. n = mk xs \<and> length xs = length Ps \<and> (\<forall>i < length Ps. (Ps ! i) (xs ! i)))"

primrec typed :: "ty \<Rightarrow> 'f node \<Rightarrow> bool" where
  "typed (TInt bits sgnd) n = (\<exists>v. n = NInt v \<and> int_min bits sgnd \<le> v \<and> v \<le> int_max bits sgnd)"
| "typed TBool n = (\<exists>b. n = NBool b)"
| "typed TFloat n = (\<exists>x. n = NFloat x)"
| "typed TStr n = (\<exists>s. n = NStr s)"
| "typed (TEnum m) n = (\<exists>v. n = NInt v \<and> v \<in> snd ` set m)"
| "typed (TOpt t) n = (\<exists>x. n = NOpt x \<and> (\<forall>y. x = Some y \<longrightarrow> typed t y))"
| "typed (TList t) n = (\<exists>xs. n = NList xs \<and> (\<forall>x \<in> set xs. typed t x))"
| "typed (TTup ts) n = row_of NTup (map typed ts) n"
| "typed (TMap bits sgnd t) n = (\<exists>m. n = NMap m \<and> omap_inv m \<and>
     (\<forall>(k, v) \<in> set m. int_min bits sgnd \<le> k \<and> k \<le> int_max bits sgnd \<and> typed t v))"
| "typed (TStrMap t) n = (\<exists>m. n = NStrMap m \<and> omap_inv m \<and> (\<forall>(k, v) \<in> set m. typed t v))"
| "typed (TStruct ms) n = row_of NStruct (map snd (map (map_prod id typed) ms)) n"

text \<open>The nodes a value may be read into: only a map keeps what is there.\<close>

primrec slot :: "ty \<Rightarrow> 'f node \<Rightarrow> bool" where
  "slot (TInt bits sgnd) n = True"
| "slot TBool n = True"
| "slot TFloat n = True"
| "slot TStr n = True"
| "slot (TEnum m) n = True"
| "slot (TOpt t) n = True"
| "slot (TList t) n = True"
| "slot (TTup ts) n = row_of NTup (map slot ts) n"
| "slot (TMap bits sgnd t) n = (omap_inv (un_map n) \<and>
     (\<forall>(k, v) \<in> set (un_map n). int_min bits sgnd \<le> k \<and> k \<le> int_max bits sgnd \<and> typed t v))"
| "slot (TStrMap t) n = True"
| "slot (TStruct ms) n = row_of NStruct (map snd (map (map_prod id slot) ms)) n"

text \<open>An assembler that reads values with \<open>P\<close> into nodes with \<open>Q\<close>.\<close>

definition sound :: "('n, 's, 'a, 'ds, 'da) assembler \<Rightarrow> ('n \<Rightarrow> bool) \<Rightarrow> ('n \<Rightarrow> bool) \<Rightarrow> bool" where
  "sound A Q P \<longleftrightarrow> Q (fresh A) \<and>
     (\<forall>n ds old v ds'. Q old \<longrightarrow> deserializeElement A n ds old = (Inr v, ds') \<longrightarrow> P v) \<and>
     (\<forall>da old v da'. Q old \<longrightarrow> deserialize A da old = (Inr v, da') \<longrightarrow> P v)"

lemma soundI:
  assumes "Q (fresh A)" and "\<And>n ds old v ds'. Q old \<Longrightarrow> deserializeElement A n ds old = (Inr v, ds') \<Longrightarrow> P v"
    and "\<And>da old v da'. Q old \<Longrightarrow> deserialize A da old = (Inr v, da') \<Longrightarrow> P v"
  shows "sound A Q P"
  using assms by (auto simp: sound_def)

lemma sound_fresh: "sound A Q P \<Longrightarrow> Q (fresh A)"
  and sound_element: "sound A Q P \<Longrightarrow> deserializeElement A n ds old = (Inr v, ds') \<Longrightarrow> Q old \<Longrightarrow> P v"
  and sound_entry: "sound A Q P \<Longrightarrow> deserialize A da old = (Inr v, da') \<Longrightarrow> Q old \<Longrightarrow> P v"
  unfolding sound_def by blast+

lemma thrown_Inr: "thrown r = Inr v \<longleftrightarrow> r = Inr v"
  by (cases r) simp_all

text \<open>The unsigned integers of a box are not negative.\<close>

definition box_ok :: "'f any \<Rightarrow> bool" where
  "box_ok x \<longleftrightarrow> (\<forall>v. content x = Some (VUInt64 v) \<longrightarrow> 0 \<le> v)"

definition reader_ok :: "('f, 'ds, 'da) reader \<Rightarrow> bool" where
  "reader_ok R \<longleftrightarrow> (\<forall>n ds x ds'. get_value R n ds = (Inr x, ds') \<longrightarrow> box_ok x) \<and>
     (\<forall>da x da'. next_value R da = (Inr x, da') \<longrightarrow> box_ok x)"

lemma prim_sound:
  assumes R: "reader_ok R" and el: "\<And>x v. box_ok x \<Longrightarrow> rd_el x = Inr v \<Longrightarrow> P v" and ar: "\<And>x v. box_ok x \<Longrightarrow> rd x = Inr v \<Longrightarrow> P v"
  shows "sound (prim_assembler W R wr rd_el rd g z) (\<lambda>_. True) P"
proof (rule soundI)
  fix n ds old v ds' assume "deserializeElement (prim_assembler W R wr rd_el rd g z) n ds old = (Inr v, ds')"
  with R el show "P v"
    by (fastforce simp: prim_assembler_def reader_ok_def thrown_Inr split: prod.splits sum.splits)
next
  fix da old v da' assume "deserialize (prim_assembler W R wr rd_el rd g z) da old = (Inr v, da')"
  with R ar show "P v"
    by (fastforce simp: prim_assembler_def reader_ok_def thrown_Inr split: prod.splits sum.splits)
qed simp

lemma provided_Inr: "provided rd x = Inr v \<Longrightarrow> rd x = Inr v"
  by (simp add: provided_def split: if_splits)

lemma extract_int_typed:
  assumes "box_ok x" "extract_int bits sgnd x = Inr v"
  shows "int_min bits sgnd \<le> v \<and> v \<le> int_max bits sgnd"
proof -
  have "int_min bits sgnd \<le> 0" by (simp add: int_min_def)
  moreover have "\<not> sgnd \<Longrightarrow> int_min bits sgnd = 0" by (simp add: int_min_def)
  ultimately show ?thesis
    using assms by (auto simp: extract_int_def box_ok_def any_cast_Inr any_type_def split: if_splits sum.splits cpp_value.splits option.splits)
qed

lemma int_sound:
  "reader_ok R \<Longrightarrow> sound (int_assembler W R bits sgnd) (\<lambda>_. True) (\<lambda>v. int_min bits sgnd \<le> v \<and> v \<le> int_max bits sgnd)"
  unfolding int_assembler_def by (rule prim_sound) (blast dest: provided_Inr extract_int_typed)+

lemma enum_sound:
  "reader_ok R \<Longrightarrow> sound (enum_assembler W R m) (\<lambda>_. True) (\<lambda>v. v \<in> snd ` set m)"
  unfolding enum_assembler_def
  by (rule prim_sound)
    (auto simp: assignEnumValueByName_def split: sum.splits option.splits dest!: map_of_SomeD intro: rev_image_eqI)


lemma optional_sound:
  assumes A: "sound A Q P"
  shows "sound (optional_assembler W R A) (\<lambda>_. True) (\<lambda>x. \<forall>y. x = Some y \<longrightarrow> P y)"
proof (rule soundI)
  fix n ds old v ds' assume "deserializeElement (optional_assembler W R A) n ds old = (Inr v, ds')"
  then show "\<forall>y. v = Some y \<longrightarrow> P y"
    using sound_element [OF A _ sound_fresh [OF A], of n ds]
    by (auto simp: optional_assembler_def split: if_splits prod.splits sum.splits)
next
  fix da old v da' assume "deserialize (optional_assembler W R A) da old = (Inr v, da')"
  then show "\<forall>y. v = Some y \<longrightarrow> P y"
    using sound_entry [OF A _ sound_fresh [OF A], of da]
    by (auto simp: optional_assembler_def skip_value_def split: if_splits prod.splits sum.splits bool.splits)
qed simp

lemma array_sound:
  assumes "Q z" and rd: "\<And>da old v. Q old \<Longrightarrow> rd da old = Inr v \<Longrightarrow> P v"
  shows "sound (array_assembler W R e wr rd g z) Q P"
  using assms by (auto simp: sound_def array_assembler_def split: sum.splits option.splits prod.splits)

lemma de_each_sound:
  assumes A: "sound A Q P"
  shows "de_each fuel R A da acc = Inr vs \<Longrightarrow> \<forall>v \<in> set acc. P v \<Longrightarrow> \<forall>v \<in> set vs. P v"
proof (induction fuel arbitrary: da acc)
  case (Suc n)
  show ?case
  proof (cases "complete R da")
    case False
    with Suc.prems(1) obtain v da1 where v: "deserialize A da (fresh A) = (Inr v, da1)" "de_each n R A da1 (acc @ [v]) = Inr vs"
      by (subst (asm) de_each.simps) (auto split: prod.splits sum.splits)
    from Suc.IH [OF v(2)] sound_entry [OF A v(1) sound_fresh [OF A]] Suc.prems(2) show ?thesis by simp
  qed (use Suc.prems in \<open>simp add: de_each.simps\<close>)
qed (auto simp: de_each.simps split: if_splits)

lemma list_sound:
  assumes "sound A Q P"
  shows "sound (list_assembler fuel W R A) (\<lambda>_. True) (\<lambda>xs. \<forall>x \<in> set xs. P x)"
  unfolding list_assembler_def by (rule array_sound) (simp, use de_each_sound [OF assms] in force)

lemma set_omap_set: "set (omap_set k v m) \<subseteq> insert (k, v) (set m)"
  by (induction k v m rule: omap_set.induct) auto

lemma omap_set_all:
  assumes "omap_inv m" "\<forall>(k, v) \<in> set m. T k v" "T k v"
  shows "omap_inv (omap_set k v m) \<and> (\<forall>(k, v) \<in> set (omap_set k v m). T k v)"
  using assms(2,3) omap_inv_set [OF assms(1)] set_omap_set [of k v m] by blast

lemma de_pairs_sound:
  assumes K: "sound K QK PK" and V: "sound V QV PV"
  shows "de_pairs fuel R K V da m = Inr m' \<Longrightarrow> omap_inv m \<and> (\<forall>(k, v) \<in> set m. PK k \<and> PV v) \<Longrightarrow>
    omap_inv m' \<and> (\<forall>(k, v) \<in> set m'. PK k \<and> PV v)"
proof (induction fuel arbitrary: da m)
  case (Suc n)
  show ?case
  proof (cases "complete R da")
    case False
    with Suc.prems(1) obtain ds da1 k ds1 v ds2 where
      v: "deserializeElement K cKeyName ds (fresh K) = (Inr k, ds1)"
        "deserializeElement V cValueName ds1 (fresh V) = (Inr v, ds2)" "de_pairs n R K V da1 (omap_set k v m) = Inr m'"
      by (subst (asm) de_pairs.simps) (auto split: prod.splits sum.splits)
    have "PK k" "PV v" using sound_element [OF K v(1) sound_fresh [OF K]] sound_element [OF V v(2) sound_fresh [OF V]] by auto
    with Suc.prems(2) have "omap_inv (omap_set k v m) \<and> (\<forall>(k, v) \<in> set (omap_set k v m). PK k \<and> PV v)"
      by (intro omap_set_all [where T = "\<lambda>k v. PK k \<and> PV v"]) blast+
    with Suc.IH [OF v(3)] show ?thesis by blast
  qed (use Suc.prems in \<open>simp add: de_pairs.simps\<close>)
qed (auto simp: de_pairs.simps split: if_splits)

lemma de_keys_sound:
  assumes V: "sound V QV PV"
  shows "de_keys V ks ds m = Inr m' \<Longrightarrow> omap_inv m \<and> (\<forall>(k, v) \<in> set m. PV v) \<Longrightarrow> omap_inv m' \<and> (\<forall>(k, v) \<in> set m'. PV v)"
proof (induction ks arbitrary: ds m)
  case (Cons k ks)
  then obtain v ds1 where v: "deserializeElement V k ds (fresh V) = (Inr v, ds1)" "de_keys V ks ds1 (omap_set k v m) = Inr m'"
    by (auto split: prod.splits sum.splits)
  have "PV v" by (rule sound_element [OF V v(1) sound_fresh [OF V]])
  with Cons.prems(2) have "omap_inv (omap_set k v m) \<and> (\<forall>(k, v) \<in> set (omap_set k v m). PV v)"
    by (intro omap_set_all [where T = "\<lambda>k v. PV v"]) blast+
  with Cons.IH [OF v(2)] show ?case by blast
qed simp

lemma de_entries_sound:
  assumes V: "sound V QV PV"
  shows "de_entries fuel R V da m = Inr m' \<Longrightarrow> omap_inv m \<and> (\<forall>(k, v) \<in> set m. PV v) \<Longrightarrow>
    omap_inv m' \<and> (\<forall>(k, v) \<in> set m'. PV v)"
proof (induction fuel arbitrary: da m)
  case (Suc n)
  show ?case
  proof (cases "complete R da")
    case False
    with Suc.prems(1) obtain ds da1 ks m1 where "de_keys V ks ds m = Inr m1" "de_entries n R V da1 m1 = Inr m'"
      by (subst (asm) de_entries.simps) (auto split: prod.splits sum.splits)
    with Suc.IH de_keys_sound [OF V] Suc.prems(2) show ?thesis by blast
  qed (use Suc.prems in \<open>simp add: de_entries.simps\<close>)
qed (auto simp: de_entries.simps split: if_splits)

lemma map_sound:
  assumes "sound K QK PK" "sound V QV PV"
  shows "sound (map_assembler fuel W R K V) (\<lambda>m. omap_inv m \<and> (\<forall>(k, v) \<in> set m. PK k \<and> PV v))
    (\<lambda>m. omap_inv m \<and> (\<forall>(k, v) \<in> set m. PK k \<and> PV v))"
  unfolding map_assembler_def by (rule array_sound) (simp, rule de_pairs_sound [OF assms])

lemma strmap_sound:
  assumes "sound V QV PV"
  shows "sound (strmap_assembler fuel W R V) (\<lambda>_. True) (\<lambda>m. omap_inv m \<and> (\<forall>(k, v) \<in> set m. PV v))"
  unfolding strmap_assembler_def by (rule array_sound) (use de_entries_sound [OF assms] omap_inv_Nil in force)+

lemma map_sum_Inr: "map_sum f g r = Inr v \<longleftrightarrow> (\<exists>x. r = Inr x \<and> v = g x)"
  by (cases r) auto

lemma lift_sound:
  assumes A: "sound A Q P" and "\<And>n. Q' n \<Longrightarrow> Q (un n)" and "Q' (mk (fresh A))" and "\<And>x. P x \<Longrightarrow> P' (mk x)"
  shows "sound (lift mk un A) Q' P'"
proof (rule soundI)
  fix n ds old v ds' assume "Q' old" "deserializeElement (lift mk un A) n ds old = (Inr v, ds')"
  then obtain x where "deserializeElement A n ds (un old) = (Inr x, ds')" "v = mk x"
    by (cases "deserializeElement A n ds (un old)") (auto simp: lift_def map_sum_Inr)
  with sound_element [OF A this(1) assms(2)] assms(4) \<open>Q' old\<close> show "P' v" by blast
next
  fix da old v da' assume "Q' old" "deserialize (lift mk un A) da old = (Inr v, da')"
  then obtain x where "deserialize A da (un old) = (Inr x, da')" "v = mk x"
    by (cases "deserialize A da (un old)") (auto simp: lift_def map_sum_Inr)
  with sound_entry [OF A this(1) assms(2)] assms(4) \<open>Q' old\<close> show "P' v" by blast
qed (simp add: lift_def assms(3))

text \<open>The members before \<open>k\<close> have been read, the others are as they were.\<close>

definition half_read :: "('x list \<Rightarrow> 'n) \<Rightarrow> ('x \<Rightarrow> bool) list \<Rightarrow> ('x \<Rightarrow> bool) list \<Rightarrow> nat \<Rightarrow> 'n \<Rightarrow> bool" where
  "half_read mk Qs Ps k n \<longleftrightarrow> (\<exists>ys. n = mk ys \<and> length ys = length Ps \<and>
     (\<forall>i < length Ps. if i < k then (Ps ! i) (ys ! i) else (Qs ! i) (ys ! i)))"

lemma half_read_start: "length Qs = length Ps \<Longrightarrow> half_read mk Qs Ps 0 n \<longleftrightarrow> row_of mk Qs n"
  by (auto simp: half_read_def row_of_def)

lemma half_read_end: "half_read mk Qs Ps (length Ps) n \<longleftrightarrow> row_of mk Ps n"
  by (simp add: half_read_def row_of_def)

lemma half_read_put:
  assumes "\<And>xs. un (mk xs) = xs" "half_read mk Qs Ps k n" "k < length Ps" "(Ps ! k) x"
  shows "half_read mk Qs Ps (Suc k) (mk ((un n)[k := x]))"
  using assms by (auto simp: half_read_def nth_list_update less_Suc_eq)

lemma half_read_get:
  assumes "\<And>xs. un (mk xs) = xs" "half_read mk Qs Ps k n" "k < length Ps"
  shows "(Qs ! k) (un n ! k)"
  using assms by (auto simp: half_read_def)

lemma row_struct_read:
  assumes un: "\<And>xs. un (mk xs) = xs"
  shows "struct_read (row_members mk un k nAs) ds n = (Inr v, ds') \<Longrightarrow> half_read mk Qs Ps k n \<Longrightarrow> length Ps = k + length nAs \<Longrightarrow>
    \<forall>i < length nAs. sound (snd (nAs ! i)) (Qs ! (k + i)) (Ps ! (k + i)) \<Longrightarrow> half_read mk Qs Ps (length Ps) v"
proof (induction nAs arbitrary: k ds n)
  case Nil
  then show ?case by (simp add: row_members_def)
next
  case (Cons nA nAs)
  obtain name A where nA: "nA = (name, A)" by fastforce
  from Cons.prems(1) obtain x ds1 where x: "deserializeElement A name ds (un n ! k) = (Inr x, ds1)"
    "struct_read (row_members mk un (Suc k) nAs) ds1 (mk ((un n)[k := x])) = (Inr v, ds')"
    by (auto simp: nA row_members_def typed_member_def split: prod.splits sum.splits)
  have "sound A (Qs ! k) (Ps ! k)" using Cons.prems(4) nA by (auto dest: spec [of _ 0])
  then have "(Ps ! k) x" using sound_element [OF _ x(1)] half_read_get [where un = un, OF un Cons.prems(2)] Cons.prems(3) by simp
  then have "half_read mk Qs Ps (Suc k) (mk ((un n)[k := x]))"
    using half_read_put [where un = un, OF un Cons.prems(2)] Cons.prems(3) by simp
  moreover have "\<forall>i < length nAs. sound (snd (nAs ! i)) (Qs ! (Suc k + i)) (Ps ! (Suc k + i))"
    using Cons.prems(4) by (auto dest: spec [of _ "Suc _"])
  ultimately show ?case using Cons.IH [OF x(2)] Cons.prems(3) by simp
qed

lemma row_tuple_read:
  assumes un: "\<And>xs. un (mk xs) = xs"
  shows "deserializeTupleElements (row_elements mk un k As) da n = Inr v \<Longrightarrow> half_read mk Qs Ps k n \<Longrightarrow> length Ps = k + length As \<Longrightarrow>
    \<forall>i < length As. sound (As ! i) (Qs ! (k + i)) (Ps ! (k + i)) \<Longrightarrow> half_read mk Qs Ps (length Ps) v"
proof (induction As arbitrary: k da n)
  case Nil
  then show ?case by (simp add: row_elements_def)
next
  case (Cons A As)
  from Cons.prems(1) obtain x da1 where x: "deserialize A da (un n ! k) = (Inr x, da1)"
    "deserializeTupleElements (row_elements mk un (Suc k) As) da1 (mk ((un n)[k := x])) = Inr v"
    by (auto simp: row_elements_def std_get_def split: prod.splits sum.splits)
  have "sound A (Qs ! k) (Ps ! k)" using Cons.prems(4) by (auto dest: spec [of _ 0])
  then have "(Ps ! k) x" using sound_entry [OF _ x(1)] half_read_get [where un = un, OF un Cons.prems(2)] Cons.prems(3) by simp
  then have "half_read mk Qs Ps (Suc k) (mk ((un n)[k := x]))"
    using half_read_put [where un = un, OF un Cons.prems(2)] Cons.prems(3) by simp
  moreover have "\<forall>i < length As. sound (As ! i) (Qs ! (Suc k + i)) (Ps ! (Suc k + i))"
    using Cons.prems(4) by (auto dest: spec [of _ "Suc _"])
  ultimately show ?case using Cons.IH [OF x(2)] Cons.prems(3) by simp
qed

lemma row_struct_sound:
  assumes un: "\<And>xs. un (mk xs) = xs" and len: "length Qs = length nAs" "length Ps = length nAs"
    and As: "\<forall>i < length nAs. sound (snd (nAs ! i)) (Qs ! i) (Ps ! i)"
  shows "sound (struct_assembler W R (row_members mk un 0 nAs) (mk (map fresh (map snd nAs)))) (row_of mk Qs) (row_of mk Ps)"
proof -
  have eq: "length Qs = length Ps" using len by simp
  have rd: "row_of mk Ps v" if "fst (struct_read (row_members mk un 0 nAs) ds old) = Inr v" "row_of mk Qs old" for ds old v
    using row_struct_read [where un = un, OF un _ half_read_start [THEN iffD2, OF eq that(2)], of nAs ds v] that(1) As len half_read_end
    by (metis add_0 prod.collapse)
  have "(Qs ! i) (fresh (snd (nAs ! i)))" if "i < length nAs" for i using As that sound_fresh by blast
  then have z: "row_of mk Qs (mk (map fresh (map snd nAs)))"
    unfolding row_of_def using len by (intro exI [of _ "map fresh (map snd nAs)"]) simp
  show ?thesis
    using z by (auto simp: sound_def struct_assembler_def intro: rd split: sum.splits prod.splits)
qed

lemma row_tuple_sound:
  assumes un: "\<And>xs. un (mk xs) = xs" and len: "length Qs = length As" "length Ps = length As"
    and As: "\<forall>i < length As. sound (As ! i) (Qs ! i) (Ps ! i)"
  shows "sound (tuple_assembler W R (row_elements mk un 0 As) (mk (map fresh As))) (row_of mk Qs) (row_of mk Ps)"
  unfolding tuple_assembler_def
proof (rule array_sound)
  have "(Qs ! i) (fresh (As ! i))" if "i < length As" for i using As that sound_fresh by blast
  then show "row_of mk Qs (mk (map fresh As))"
    unfolding row_of_def using len by (intro exI [of _ "map fresh As"]) simp
  fix da old v assume old: "row_of mk Qs old" and v: "deserializeTupleElements (row_elements mk un 0 As) da old = Inr v"
  have "length Qs = length Ps" using len by simp
  from half_read_start [THEN iffD2, OF this old] show "row_of mk Ps v"
    using row_tuple_read [where un = un, OF un v] As len half_read_end by (metis add_0)
qed

lemma asm_sound:
  assumes R: "reader_ok R"
  shows "sound (asm fuel W R fc t) (slot t) (typed t)"
proof (induction t)
  case (TTup ts)
  then show ?case
    unfolding asm.simps slot.simps typed.simps
    by (intro row_tuple_sound) simp_all
next
  case (TStruct ms)
  have "sound (asm fuel W R fc (snd p)) (slot (snd p)) (typed (snd p))" if p: "p \<in> set ms" for p
    by (rule TStruct [OF p]) (cases p, simp add: snds.intros)
  then show ?case
    unfolding asm.simps slot.simps typed.simps
    by (intro row_struct_sound) simp_all
next
  case (TOpt t)
  show ?case unfolding asm.simps by (rule lift_sound [OF optional_sound [OF TOpt]]) auto
next
  case (TList t)
  show ?case unfolding asm.simps by (rule lift_sound [OF list_sound [OF TList]]) auto
next
  case (TMap bits sgnd t)
  show ?case unfolding asm.simps
    by (rule lift_sound [OF map_sound [OF int_sound [OF R] TMap]]) (auto simp: map_assembler_def array_assembler_def)
next
  case (TStrMap t)
  show ?case unfolding asm.simps by (rule lift_sound [OF strmap_sound [OF TStrMap]]) auto
next
  case (TInt bits sgnd)
  show ?case unfolding asm.simps by (rule lift_sound [OF int_sound [OF R]]) auto
next
  case (TEnum m)
  show ?case unfolding asm.simps by (rule lift_sound [OF enum_sound [OF R]]) auto
qed (auto simp: sound_def lift_def map_sum_Inr apfst_def map_prod_def split: prod.splits)

section \<open>Documents nobody has checked\<close>

lemma json_reader_ok: "\<forall>j. j_type J j = JsonUnsigned \<longrightarrow> 0 \<le> j_uint J j \<Longrightarrow> reader_ok (json_reader J)"
  by (auto simp: reader_ok_def json_reader_def json_value_def json_next_value_def getPrimitiveDataFrom_def box_ok_def any_defs
      split: sum.splits prod.splits if_splits json_type.splits)

lemma parseValue_ok: "parseValue D str ty = Inr x \<Longrightarrow> box_ok x"
  by (auto simp: parseValue_def box_ok_def any_defs std_stoul_def Let_def map_sum_Inr
      split: if_splits sum.splits option.splits)

lemma box_ok_empty [simp]: "box_ok any_empty"
  by (simp add: box_ok_def any_defs)

lemma nodeValue_ok: "nodeValue X D node = Inr x \<Longrightarrow> box_ok x"
  by (auto simp: nodeValue_def intro: parseValue_ok split: option.splits)

lemma xml_reader_ok: "reader_ok (xml_reader X D)"
  unfolding reader_ok_def
  by (auto simp: xml_reader_def xml_value_def xml_step_def intro: nodeValue_ok
      split: option.splits list.splits if_splits sum.splits)

lemma read_entry_typed:
  assumes "reader_ok R" and "fst (deserialize (asm fuel W R fc t) da (fresh (asm fuel W R fc t))) = Inr v"
  shows "typed t v"
proof -
  from assms(2) obtain d where d: "deserialize (asm fuel W R fc t) da (fresh (asm fuel W R fc t)) = (Inr v, d)" by (metis prod.collapse)
  note s = asm_sound [OF assms(1), of fuel W fc t]
  show ?thesis by (rule sound_entry [OF s d sound_fresh [OF s]])
qed

lemma read_struct_typed:
  assumes "reader_ok R" and "slot (TStruct ms) z" and "fst (struct_read (asm_members fuel W R fc ms) ds z) = Inr v"
  shows "typed (TStruct ms) v"
proof -
  let ?nAs = "map (map_prod id (asm fuel W R fc)) ms"
  let ?Qs = "map snd (map (map_prod id slot) ms)" and ?Ps = "map snd (map (map_prod id typed) ms)"
  have z: "half_read NStruct ?Qs ?Ps 0 z" using assms(2) by (subst half_read_start) simp_all
  have As: "\<forall>i < length ?nAs. sound (snd (?nAs ! i)) (?Qs ! (0 + i)) (?Ps ! (0 + i))" using asm_sound [OF assms(1), of fuel W fc] by simp
  from assms(3) obtain d where d: "struct_read (row_members NStruct un_struct 0 ?nAs) ds z = (Inr v, d)"
    unfolding asm_members_def by (metis prod.collapse)
  have "length ?Ps = 0 + length ?nAs" by simp
  from row_struct_read [where un = un_struct and mk = NStruct, OF un_struct.simps(1) d z this As]
  show ?thesis unfolding half_read_end by simp
qed

text \<open>C6: Whatever text the functions of json.hh and xml.hh accept, with whatever library, the object
  they make has the type it was declared with: integers are in the range of their type,
  enumerations have a declared value, maps are in order, and so down to the innermost element.  Of
  the JSON library only that unsigned integers are not negative is needed, of the object read into
  that it is one of the type.\<close>

theorem documents_read_typed:
  assumes "\<forall>j. j_type J j = JsonUnsigned \<longrightarrow> 0 \<le> j_uint J j" and "slot (TStruct ms) z"
  shows "(case deserializeFromJsonObject J (asm_members fuel (json_writer J) (json_reader J) fc ms) z x of
      Inr v \<Rightarrow> typed (TStruct ms) v | Inl _ \<Rightarrow> True) \<and>
    (case deserializeFromJsonArray J (asm fuel (json_writer J) (json_reader J) fc t) x of
      Inr v \<Rightarrow> typed t v | Inl _ \<Rightarrow> True) \<and>
    (case deserializeFromXmlObject X (asm_members fuel (xml_writer X D) (xml_reader X D) fc ms) z y of
      Inr v \<Rightarrow> typed (TStruct ms) v | Inl _ \<Rightarrow> True) \<and>
    (case deserializeFromXmlArray X (asm fuel (xml_writer X D) (xml_reader X D) fc t) y of
      Inr v \<Rightarrow> typed t v | Inl _ \<Rightarrow> True)"
proof (intro conjI)
  note json = json_reader_ok [OF assms(1)]
  show "case deserializeFromJsonObject J (asm_members fuel (json_writer J) (json_reader J) fc ms) z x of
      Inr v \<Rightarrow> typed (TStruct ms) v | Inl _ \<Rightarrow> True"
    by (simp add: deserializeFromJsonObject_def read_struct_typed [OF json assms(2)] del: typed.simps split: sum.splits)
  show "case deserializeFromJsonArray J (asm fuel (json_writer J) (json_reader J) fc t) x of Inr v \<Rightarrow> typed t v | Inl _ \<Rightarrow> True"
    by (simp add: deserializeFromJsonArray_def read_entry_typed [OF json] split: sum.splits)
  show "case deserializeFromXmlObject X (asm_members fuel (xml_writer X D) (xml_reader X D) fc ms) z y of
      Inr v \<Rightarrow> typed (TStruct ms) v | Inl _ \<Rightarrow> True"
    by (simp add: deserializeFromXmlObject_def read_struct_typed [OF xml_reader_ok assms(2)] del: typed.simps split: sum.splits prod.splits)
  show "case deserializeFromXmlArray X (asm fuel (xml_writer X D) (xml_reader X D) fc t) y of Inr v \<Rightarrow> typed t v | Inl _ \<Rightarrow> True"
    by (simp add: deserializeFromXmlArray_def read_entry_typed [OF xml_reader_ok] split: sum.splits prod.splits)
qed

lemma documents_read_typed_witness:
  "deserializeFromJsonObject (tree_lib 0) (asm_members 9 tree_W tree_R exact_conv [(''age'', TInt 8 False)]) (NStruct [NInt 0])
     (JObj [(''age'', JInt 200)]) = Inr (NStruct [NInt 200]) \<and>
   typed (TStruct [(''age'', TInt 8 False)]) (NStruct [NInt 200] :: int node)"
proof -
  have read: "deserializeFromJsonObject (tree_lib 0) (asm_members 9 tree_W tree_R exact_conv [(''age'', TInt 8 False)]) (NStruct [NInt 0])
     (JObj [(''age'', JInt 200)]) = Inr (NStruct [NInt 200])" by code_simp
  have "case deserializeFromJsonObject (tree_lib 0) (asm_members 9 tree_W tree_R exact_conv [(''age'', TInt 8 False)]) (NStruct [NInt 0])
     (JObj [(''age'', JInt 200)]) of Inr v \<Rightarrow> typed (TStruct [(''age'', TInt 8 False)]) v | Inl _ \<Rightarrow> True"
    by (rule documents_read_typed [THEN conjunct1]) (auto simp: tree_lib_def row_of_def split: jtree.splits)
  with read show ?thesis by (simp del: typed.simps)
qed

end
