(* ===== verification/SerialReads.thy ===== *)
theory SerialReads
  imports SerialSound
begin

text \<open>
  When the loops of the assemblers end: a locale with what they need of a reader, and the proof, once
  for all formats, for every type of \<open>ty\<close>.
\<close>

section \<open>Reads that end\<close>

text \<open>An assembler whose reads end and leave what they read from as good as before; one that comes
  closer to the end of an array with each entry it does not throw for; one that never goes back.\<close>

definition ends :: "('ds \<Rightarrow> bool) \<Rightarrow> ('da \<Rightarrow> bool) \<Rightarrow> ('n, 's, 'a, 'ds, 'da) assembler \<Rightarrow> bool" where
  "ends ok_s ok_a A \<longleftrightarrow>
     (\<forall>n ds old r ds'. deserializeElement A n ds old = (r, ds') \<longrightarrow> ok_s ds \<longrightarrow> r \<noteq> Inl Endless \<and> ok_s ds') \<and>
     (\<forall>da old r da'. deserialize A da old = (r, da') \<longrightarrow> ok_a da \<longrightarrow> r \<noteq> Inl Endless \<and> ok_a da')"

definition takes_one :: "('f, 'ds, 'da) reader \<Rightarrow> (nat \<Rightarrow> 'da \<Rightarrow> bool) \<Rightarrow> ('n, 's, 'a, 'ds, 'da) assembler \<Rightarrow> bool" where
  "takes_one R left A \<longleftrightarrow> (\<forall>n da old v da'. left (Suc n) da \<longrightarrow> \<not> complete R da \<longrightarrow>
     deserialize A da old = (Inr v, da') \<longrightarrow> left n da')"

definition keeps_left :: "(nat \<Rightarrow> 'da \<Rightarrow> bool) \<Rightarrow> ('n, 's, 'a, 'ds, 'da) assembler \<Rightarrow> bool" where
  "keeps_left left A \<longleftrightarrow> (\<forall>n da old r da'. left n da \<longrightarrow> deserialize A da old = (r, da') \<longrightarrow> left n da')"

definition member_ends :: "('ds \<Rightarrow> bool) \<Rightarrow> ('r, 's, 'ds) base_member \<Rightarrow> bool" where
  "member_ends ok_s m \<longleftrightarrow> (\<forall>ds old r ds'. m_deserialize m ds old = (r, ds') \<longrightarrow> ok_s ds \<longrightarrow> r \<noteq> Inl Endless \<and> ok_s ds')"

definition part_ends :: "('da \<Rightarrow> bool) \<Rightarrow> ('n, 'a, 'da) tuple_element \<Rightarrow> bool" where
  "part_ends ok_a e \<longleftrightarrow> (\<forall>da old r da'. el_deserialize e da old = (r, da') \<longrightarrow> ok_a da \<longrightarrow> r \<noteq> Inl Endless \<and> ok_a da')"

lemma ends_element: "ends ok_s ok_a A \<Longrightarrow> deserializeElement A n ds old = (r, ds') \<Longrightarrow> ok_s ds \<Longrightarrow> r \<noteq> Inl Endless \<and> ok_s ds'"
  unfolding ends_def by blast

lemma ends_entry: "ends ok_s ok_a A \<Longrightarrow> deserialize A da old = (r, da') \<Longrightarrow> ok_a da \<Longrightarrow> r \<noteq> Inl Endless \<and> ok_a da'"
  unfolding ends_def by blast

lemma takes_oneD: "takes_one R left A \<Longrightarrow> deserialize A da old = (Inr v, da') \<Longrightarrow> left (Suc n) da \<Longrightarrow> \<not> complete R da \<Longrightarrow> left n da'"
  unfolding takes_one_def by blast

lemma keeps_leftD: "keeps_left left A \<Longrightarrow> deserialize A da old = (r, da') \<Longrightarrow> left n da \<Longrightarrow> left n da'"
  unfolding keeps_left_def by blast

lemma thrown_not_Endless [simp]: "thrown r \<noteq> Inl Endless"
  by (cases r) simp_all

lemma nested_not_Endless [simp]: "nested r \<noteq> Inl Endless"
  by (simp add: nested_def split: sum.splits option.splits)

lemma nested_Inr: "nested r = Inr x \<longleftrightarrow> r = Inr (Some x)"
  by (auto simp: nested_def split: sum.splits option.splits)

lemma map_sum_Inl: "map_sum id g r = Inl e \<longleftrightarrow> r = Inl e"
  by (cases r) auto

lemma apfst_eq: "apfst g p = (r, q) \<longleftrightarrow> (\<exists>x. p = (x, q) \<and> r = g x)"
  by (cases p) auto

lemma lift_reads:
  "deserializeElement (lift mk un A) n ds old = apfst (map_sum id mk) (deserializeElement A n ds (un old))"
  "deserialize (lift mk un A) da old = apfst (map_sum id mk) (deserialize A da (un old))"
  by (simp_all add: lift_def)

lemma lift_ends:
  assumes "ends ok_s ok_a A"
  shows "ends ok_s ok_a (lift mk un A)"
  unfolding ends_def lift_reads apfst_eq
  by (auto simp: map_sum_Inl dest: ends_element [OF assms] ends_entry [OF assms])

lemma lift_takes_one: "takes_one R left A \<Longrightarrow> takes_one R left (lift mk un A)"
  unfolding takes_one_def lift_reads apfst_eq by (auto simp: map_sum_Inr eq_commute [of "Inr _"])

lemma lift_keeps_left: "keeps_left left A \<Longrightarrow> keeps_left left (lift mk un A)"
  unfolding keeps_left_def lift_reads apfst_eq by blast

lemma struct_read_ends:
  "struct_read ms ds old = (r, ds') \<Longrightarrow> ok_s ds \<Longrightarrow> \<forall>m \<in> set ms. member_ends ok_s m \<Longrightarrow> r \<noteq> Inl Endless \<and> ok_s ds'"
proof (induction ms arbitrary: ds old)
  case (Cons m ms)
  obtain x ds1 where x: "m_deserialize m ds old = (x, ds1)" by fastforce
  from Cons.prems(3) have "member_ends ok_s m" by simp
  with x Cons.prems(2) have x1: "x \<noteq> Inl Endless" "ok_s ds1" unfolding member_ends_def by blast+
  show ?case
  proof (cases x)
    case (Inr old1)
    from Cons.prems(1) x Inr have "struct_read ms ds1 old1 = (r, ds')" by simp
    from Cons.IH [OF this x1(2)] Cons.prems(3) show ?thesis by simp
  qed (use Cons.prems(1) x x1 in auto)
qed auto

lemma tuple_read_ends:
  "ok_a da \<Longrightarrow> \<forall>e \<in> set es. part_ends ok_a e \<Longrightarrow> deserializeTupleElements es da old \<noteq> Inl Endless"
proof (induction es arbitrary: da old)
  case (Cons e es)
  obtain x da1 where x: "el_deserialize e da old = (x, da1)" by fastforce
  from Cons.prems(2) have "part_ends ok_a e" by simp
  with x Cons.prems(1) have x1: "x \<noteq> Inl Endless" "ok_a da1" unfolding part_ends_def by blast+
  from x x1 Cons.IH [of da1] Cons.prems show ?case by (auto split: sum.splits)
qed simp

lemma typed_member_ends:
  assumes "ends ok_s ok_a A"
  shows "member_ends ok_s (typed_member name p A get put)"
  unfolding member_ends_def
proof (intro allI impI)
  fix ds old r ds' assume r: "m_deserialize (typed_member name p A get put) ds old = (r, ds')" and ds: "ok_s ds"
  obtain x ds1 where x: "deserializeElement A name ds (get old) = (x, ds1)" by fastforce
  from r x ends_element [OF assms x ds] show "r \<noteq> Inl Endless \<and> ok_s ds'"
    by (cases x) (auto simp: typed_member_def split: if_splits)
qed

lemma in_enumerate: "(i, x) \<in> set (enumerate k xs) \<Longrightarrow> x \<in> set xs"
  unfolding enumerate_eq_zip by (rule set_zip_rightD)

lemma row_members_in: "m \<in> set (row_members mk un k nAs) \<Longrightarrow>
    \<exists>i name A. (name, A) \<in> set nAs \<and> m = typed_member name i A (\<lambda>n. un n ! i) (\<lambda>x n. mk ((un n)[i := x]))"
  unfolding row_members_def by (fastforce dest: in_enumerate)

lemma row_elements_ends:
  assumes "\<forall>A \<in> set As. ends ok_s ok_a A"
  shows "\<forall>e \<in> set (row_elements mk un k As). part_ends ok_a e"
proof
  fix e assume "e \<in> set (row_elements mk un k As)"
  then obtain i A where A: "A \<in> set As" "e = std_get A (\<lambda>n. un n ! i) (\<lambda>x n. mk ((un n)[i := x]))"
    unfolding row_elements_def by (fastforce dest: in_enumerate)
  with assms have ends: "ends ok_s ok_a A" by blast
  show "part_ends ok_a e"
    unfolding part_ends_def
  proof (intro allI impI)
    fix da old r da' assume r: "el_deserialize e da old = (r, da')" and da: "ok_a da"
    obtain x da1 where x: "deserialize A da (un old ! i) = (x, da1)" by fastforce
    from ends_entry [OF ends x da] r x show "r \<noteq> Inl Endless \<and> ok_a da'"
      by (cases x) (auto simp: A(2) std_get_def)
  qed
qed

lemma de_keys_ends:
  assumes V: "ends ok_s ok_a V"
  shows "ok_s d \<Longrightarrow> de_keys V ks d m \<noteq> Inl Endless"
proof (induction ks arbitrary: d m)
  case (Cons k ks)
  obtain v d1 where v: "deserializeElement V k d (fresh V) = (v, d1)" by fastforce
  from ends_element [OF V v Cons.prems] Cons.IH v show ?case by (auto split: sum.splits)
qed simp

lemma bad_empty: "extract_int bits sgnd any_empty \<noteq> Inr v" "extract_bool any_empty \<noteq> Inr b" "extract_float fc any_empty \<noteq> Inr x"
  "extract_string any_empty \<noteq> Inr s" "assignEnumValueByName m any_empty \<noteq> Inr i"
  by (simp_all add: extract_int_def extract_bool_def extract_float_def extract_string_def assignEnumValueByName_def any_defs)

section \<open>What the loops need of a reader\<close>

text \<open>The reads keep \<open>ok_s\<close> of a structure and \<open>ok_a\<close> of an array; \<open>left n c\<close>: at most \<open>n\<close> entries are left at
  the cursor of a nested array, and each entry that is read takes one.\<close>

locale finite_reader =
  fixes R :: "('f, 'ds, 'da) reader" and ok_s :: "'ds \<Rightarrow> bool" and ok_a :: "'da \<Rightarrow> bool"
    and left :: "nat \<Rightarrow> 'da \<Rightarrow> bool" and fuel :: nat
  assumes value_ok: "get_value R nm ds = (a, ds') \<Longrightarrow> ok_s ds \<Longrightarrow> ok_s ds'"
    and struct_ok: "get_struct R nm ds = Inr (Some d) \<Longrightarrow> ok_s ds \<Longrightarrow> ok_s d"
    and array_ok: "get_array R nm ds = Inr (Some c) \<Longrightarrow> ok_s ds \<Longrightarrow> ok_a c \<and> left fuel c"
    and next_value_ok: "next_value R da = (a, da') \<Longrightarrow> ok_a da \<Longrightarrow> ok_a da'"
    and next_struct_ok: "next_struct R da = (r, da') \<Longrightarrow> ok_a da \<Longrightarrow> ok_a da' \<and> (\<forall>d. r = Inr (Some d) \<longrightarrow> ok_s d)"
    and next_array_ok: "next_array R da = (q, da') \<Longrightarrow> ok_a da \<Longrightarrow> ok_a da' \<and> (\<forall>c. q = Inr (Some c) \<longrightarrow> ok_a c \<and> left fuel c)"
    and value_takes: "next_value R da = (Inr v, da') \<Longrightarrow> v \<noteq> any_empty \<Longrightarrow> left (Suc n) da \<Longrightarrow> left n da'"
    and struct_takes: "next_struct R da = (Inr (Some d), da') \<Longrightarrow> left (Suc n) da \<Longrightarrow> left n da'"
    and array_takes: "next_array R da = (Inr (Some c), da') \<Longrightarrow> left (Suc n) da \<Longrightarrow> left n da'"
    and none_left: "left 0 da \<Longrightarrow> complete R da"
begin

lemma prim_ends: "ends ok_s ok_a (prim_assembler W R wr rd_el rd g z)"
  by (auto simp: ends_def prim_assembler_def split: prod.splits sum.splits dest: value_ok next_value_ok)

lemma prim_takes_one:
  assumes "\<And>v. rd any_empty \<noteq> Inr v"
  shows "takes_one R left (prim_assembler W R wr rd_el rd g z)"
proof -
  have "left n da'" if "left (Suc n) da" "next_value R da = (Inr a, da')" "rd a = Inr v" for n da a da' v
    using value_takes [OF that(2) _ that(1)] assms that(3) by metis
  then show ?thesis by (auto simp: takes_one_def prim_assembler_def thrown_Inr split: prod.splits sum.splits)
qed

lemma optional_ends:
  assumes "ends ok_s ok_a A"
  shows "ends ok_s ok_a (optional_assembler W R A)"
  unfolding ends_def
proof (intro conjI allI impI)
  fix n ds old r ds' assume r: "deserializeElement (optional_assembler W R A) n ds old = (r, ds')" and ds: "ok_s ds"
  obtain x ds1 where "deserializeElement A n ds (fresh A) = (x, ds1)" by fastforce
  with ends_element [OF assms this ds] r ds show "r \<noteq> Inl Endless" "ok_s ds'"
    by (auto simp: optional_assembler_def split: sum.splits if_splits)
next
  fix da old r da' assume r: "deserialize (optional_assembler W R A) da old = (r, da')" and da: "ok_a da"
  obtain x da1 where x: "deserialize A da (fresh A) = (x, da1)" by fastforce
  note A = ends_entry [OF assms x da]
  have skip: "p \<noteq> Inl Endless \<and> ok_a c'" if "skip_value R c = (p, c')" "ok_a c" for p :: "'n option res" and c c'
    using that next_value_ok [of c] by (auto simp: skip_value_def split: prod.splits sum.splits)
  have "r \<noteq> Inl Endless \<and> ok_a da'"
    using r x A skip [of da r da'] skip [of da1 r da'] da
    by (auto simp: optional_assembler_def split: sum.splits bool.splits if_splits)
  then show "r \<noteq> Inl Endless" "ok_a da'" by simp_all
qed

lemma array_ends:
  assumes rd: "\<And>c old. ok_a c \<Longrightarrow> left fuel c \<Longrightarrow> rd c old \<noteq> Inl Endless"
  shows "ends ok_s ok_a (array_assembler W R e wr rd g z)"
  unfolding ends_def
proof (intro conjI allI impI)
  fix n ds old r ds' assume r: "deserializeElement (array_assembler W R e wr rd g z) n ds old = (r, ds')" and ds: "ok_s ds"
  show "ok_s ds'" using r ds by (auto simp: array_assembler_def split: sum.splits option.splits)
  show "r \<noteq> Inl Endless" using r ds rd array_ok by (auto simp: array_assembler_def split: sum.splits option.splits)
next
  fix da old r da' assume r: "deserialize (array_assembler W R e wr rd g z) da old = (r, da')" and da: "ok_a da"
  obtain q da1 where q: "next_array R da = (q, da1)" by fastforce
  note n = next_array_ok [OF q da]
  show "ok_a da'" using r q n by (auto simp: array_assembler_def split: sum.splits)
  show "r \<noteq> Inl Endless"
  proof (cases "nested q")
    case (Inl x)
    then show ?thesis using r q nested_not_Endless [of q] by (auto simp: array_assembler_def)
  next
    case (Inr c)
    with n rd have "rd c old \<noteq> Inl Endless" by (simp add: nested_Inr)
    with Inr r q show ?thesis by (auto simp: array_assembler_def)
  qed
qed

lemma array_takes_one: "takes_one R left (array_assembler W R e wr rd g z)"
  by (auto simp: takes_one_def array_assembler_def nested_Inr split: prod.splits sum.splits dest: array_takes)

lemma struct_takes_one: "takes_one R left (struct_assembler W R ms z)"
  by (auto simp: takes_one_def struct_assembler_def nested_Inr split: prod.splits sum.splits dest: struct_takes)

lemma struct_ends:
  assumes ms: "\<forall>m \<in> set ms. member_ends ok_s m"
  shows "ends ok_s ok_a (struct_assembler W R ms z)"
proof -
  have rd: "fst (struct_read ms ds old) \<noteq> Inl Endless" if "ok_s ds" for ds old
    using struct_read_ends [OF _ that ms] by (metis prod.collapse)
  have opened: "ok_s d" if "next_struct R da = (Inr (Some d), da')" "ok_a da" for d da da'
    using next_struct_ok [OF that] by simp
  show ?thesis
    unfolding ends_def struct_assembler_def
    by (auto simp: nested_Inr split: sum.splits prod.splits dest: next_struct_ok rd [OF struct_ok] rd [OF opened])
qed

lemma tuple_ends:
  assumes "\<forall>e \<in> set es. part_ends ok_a e"
  shows "ends ok_s ok_a (tuple_assembler W R es z)"
  unfolding tuple_assembler_def by (rule array_ends, rule tuple_read_ends [OF _ assms])

lemma de_each_ends:
  assumes A: "ends ok_s ok_a A" "takes_one R left A"
  shows "left n c \<Longrightarrow> ok_a c \<Longrightarrow> de_each n R A c acc \<noteq> Inl Endless"
proof (induction n arbitrary: c acc)
  case 0
  with none_left show ?case by (simp add: de_each.simps)
next
  case (Suc n)
  obtain r c1 where r: "deserialize A c (fresh A) = (r, c1)" by fastforce
  note e = ends_entry [OF A(1) r Suc.prems(2)]
  show ?case
  proof (cases r)
    case (Inr v)
    have "de_each n R A c1 (acc @ [v]) \<noteq> Inl Endless" if "\<not> complete R c"
      using Suc.IH takes_oneD [OF A(2) r [unfolded Inr] Suc.prems(1) that] e by blast
    with r Inr show ?thesis by (subst de_each.simps) simp
  qed (use r e in \<open>subst de_each.simps, auto\<close>)
qed

lemma de_pairs_ends:
  assumes K: "ends ok_s ok_a K" and V: "ends ok_s ok_a V"
  shows "left n c \<Longrightarrow> ok_a c \<Longrightarrow> de_pairs n R K V c m \<noteq> Inl Endless"
proof (induction n arbitrary: c m)
  case 0
  with none_left show ?case by (simp add: de_pairs.simps)
next
  case (Suc n)
  obtain r c1 where r: "next_struct R c = (r, c1)" by fastforce
  show ?case
  proof (cases "nested r")
    case (Inl e)
    then have "e \<noteq> Endless" using nested_not_Endless by metis
    with Inl r show ?thesis by (subst de_pairs.simps) simp
  next
    case (Inr d)
    then have d: "r = Inr (Some d)" by (simp add: nested_Inr)
    have c1: "ok_s d" "left n c1" "ok_a c1"
      using next_struct_ok [OF r Suc.prems(2)] struct_takes [OF r [unfolded d] Suc.prems(1)] d by simp_all
    obtain k d1 where k: "deserializeElement K cKeyName d (fresh K) = (k, d1)" by fastforce
    obtain v d2 where v: "deserializeElement V cValueName d1 (fresh V) = (v, d2)" by fastforce
    note ek = ends_element [OF K k c1(1)] and ev = ends_element [OF V v]
    have "de_pairs n R K V c1 m' \<noteq> Inl Endless" for m' by (rule Suc.IH [OF c1(2,3)])
    with r d k v ek ev show ?thesis by (subst de_pairs.simps) (auto split: sum.splits)
  qed
qed

lemma de_entries_ends:
  assumes V: "ends ok_s ok_a V"
  shows "left n c \<Longrightarrow> ok_a c \<Longrightarrow> de_entries n R V c m \<noteq> Inl Endless"
proof (induction n arbitrary: c m)
  case 0
  with none_left show ?case by (simp add: de_entries.simps)
next
  case (Suc n)
  obtain r c1 where r: "next_struct R c = (r, c1)" by fastforce
  show ?case
  proof (cases "nested r")
    case (Inl e)
    then have "e \<noteq> Endless" using nested_not_Endless by metis
    with Inl r show ?thesis by (subst de_entries.simps) simp
  next
    case (Inr d)
    then have d: "r = Inr (Some d)" by (simp add: nested_Inr)
    have c1: "ok_s d" "left n c1" "ok_a c1"
      using next_struct_ok [OF r Suc.prems(2)] struct_takes [OF r [unfolded d] Suc.prems(1)] d by simp_all
    have "de_entries n R V c1 m' \<noteq> Inl Endless" for m' by (rule Suc.IH [OF c1(2,3)])
    moreover have "de_keys V ks d m \<noteq> Inl Endless" for ks by (rule de_keys_ends [OF V c1(1)])
    ultimately show ?thesis using r d by (subst de_entries.simps) (auto split: sum.splits)
  qed
qed

text \<open>A type whose vectors do not hold optionals.\<close>

lemma asm_takes_one:
  assumes "\<forall>u. t \<noteq> TOpt u"
  shows "takes_one R left (asm fuel W R fc t)"
  using assms
  by (cases t) (simp_all add: lift_takes_one int_assembler_def bool_assembler_def float_assembler_def string_assembler_def
      enum_assembler_def list_assembler_def tuple_assembler_def map_assembler_def strmap_assembler_def
      prim_takes_one bad_empty array_takes_one struct_takes_one)

lemma asm_ends_if:
  assumes "\<And>u. P (TList u) \<Longrightarrow> P u \<and> takes_one R left (asm fuel W R fc u)"
    and "\<And>u. P (TOpt u) \<Longrightarrow> P u" "\<And>us. P (TTup us) \<Longrightarrow> list_all P us" "\<And>b s u. P (TMap b s u) \<Longrightarrow> P u"
    and "\<And>u. P (TStrMap u) \<Longrightarrow> P u" "\<And>ms. P (TStruct ms) \<Longrightarrow> list_all (\<lambda>p. P (snd p)) ms"
  shows "P t \<Longrightarrow> ends ok_s ok_a (asm fuel W R fc t)"
proof (induction t)
  case (TOpt t)
  with assms(2) show ?case by (simp add: lift_ends optional_ends)
next
  case (TList t)
  from assms(1) [OF TList.prems] have A: "ends ok_s ok_a (asm fuel W R fc t)" "takes_one R left (asm fuel W R fc t)"
    using TList.IH by blast+
  show ?case
    unfolding asm.simps list_assembler_def by (rule lift_ends, rule array_ends, rule de_each_ends [OF A])
next
  case (TTup ts)
  with assms(3) [OF TTup.prems] show ?case
    unfolding asm.simps by (intro tuple_ends row_elements_ends) (auto simp: list_all_iff)
next
  case (TMap bits sgnd t)
  have K: "ends ok_s ok_a (int_assembler W R bits sgnd)" by (simp add: int_assembler_def prim_ends)
  from TMap.IH assms(4) [OF TMap.prems] have V: "ends ok_s ok_a (asm fuel W R fc t)" by blast
  show ?case
    unfolding asm.simps map_assembler_def by (rule lift_ends, rule array_ends, rule de_pairs_ends [OF K V])
next
  case (TStrMap t)
  from TStrMap.IH assms(5) [OF TStrMap.prems] have V: "ends ok_s ok_a (asm fuel W R fc t)" by blast
  show ?case
    unfolding asm.simps strmap_assembler_def by (rule lift_ends, rule array_ends, rule de_entries_ends [OF V])
next
  case (TStruct ms)
  have "ends ok_s ok_a (asm fuel W R fc (snd p))" if "p \<in> set ms" for p
    by (rule TStruct.IH [OF that]) (use assms(6) [OF TStruct.prems] that in \<open>cases p, auto simp: snds.intros list_all_iff\<close>)+
  then show ?case
    unfolding asm.simps by (intro struct_ends ballI) (force dest!: row_members_in intro!: typed_member_ends)
qed (simp_all add: lift_ends int_assembler_def bool_assembler_def float_assembler_def string_assembler_def enum_assembler_def prim_ends)

lemma members_end:
  assumes "\<And>p. p \<in> set ms \<Longrightarrow> ends ok_s ok_a (asm fuel W R fc (snd p))" "ok_s ds"
  shows "fst (struct_read (asm_members fuel W R fc ms) ds z) \<noteq> Inl Endless"
proof -
  have "member_ends ok_s m" if m: "m \<in> set (asm_members fuel W R fc ms)" for m
  proof -
    from m have "\<exists>p i. p \<in> set ms \<and>
        m = typed_member (fst p) i (asm fuel W R fc (snd p)) (\<lambda>n. un_struct n ! i) (\<lambda>x n. NStruct ((un_struct n)[i := x]))"
      unfolding asm_members_def by (fastforce dest!: row_members_in)
    then show ?thesis using assms(1) by (auto intro!: typed_member_ends)
  qed
  with struct_read_ends [where ok_s = ok_s, OF _ assms(2)] show ?thesis by (metis prod.collapse)
qed

end

text \<open>In a format whose cursor never goes back, and where \<open>value\<close> takes an entry whenever it does not
  throw, an entry that an optional could not read is skipped: there, vectors of optionals end as well.\<close>

locale skipping_reader = finite_reader +
  assumes value_keeps: "next_value R da = (a, da') \<Longrightarrow> left n da \<Longrightarrow> left n da'"
    and struct_keeps: "next_struct R da = (r, da') \<Longrightarrow> left n da \<Longrightarrow> left n da'"
    and array_keeps: "next_array R da = (q, da') \<Longrightarrow> left n da \<Longrightarrow> left n da'"
    and skip_takes: "next_value R da = (Inr v, da') \<Longrightarrow> \<not> complete R da \<Longrightarrow> left (Suc n) da \<Longrightarrow> left n da'"
    and complete_left: "complete R da \<Longrightarrow> left m da \<Longrightarrow> left n da"
begin

lemma optional_keeps_left:
  assumes "keeps_left left A"
  shows "keeps_left left (optional_assembler W R A)"
  unfolding keeps_left_def
proof (intro allI impI)
  fix n da old r da' assume l: "left n da" and r: "deserialize (optional_assembler W R A) da old = (r, da')"
  obtain x da1 where x: "deserialize A da (fresh A) = (x, da1)" by fastforce
  have skip: "left n c'" if "skip_value R c = (p, c')" "left n c" for p :: "'p option res" and c c'
    using that value_keeps [of c] by (auto simp: skip_value_def split: prod.splits sum.splits)
  show "left n da'"
    using r x l keeps_leftD [OF assms x l] skip [of da _ da'] skip [of da1 _ da']
    by (auto simp: optional_assembler_def split: sum.splits bool.splits if_splits)
qed

lemma optional_takes_one:
  assumes A: "takes_one R left A" "keeps_left left A"
  shows "takes_one R left (optional_assembler W R A)"
  unfolding takes_one_def
proof (intro allI impI)
  fix n da old v da'
  assume l: "left (Suc n) da" "\<not> complete R da" and r: "deserialize (optional_assembler W R A) da old = (Inr v, da')"
  obtain x da1 where x: "deserialize A da (fresh A) = (x, da1)" by fastforce
  have skip: "left n c'" if "skip_value R c = (Inr p, c')" "left (Suc n) c" for p :: "'p option" and c c'
  proof -
    from that(1) obtain a where a: "next_value R c = (Inr a, c')" by (auto simp: skip_value_def split: prod.splits sum.splits)
    show ?thesis
    proof (cases "complete R c")
      case True
      from value_keeps [OF a complete_left [OF True that(2)]] show ?thesis .
    next
      case False
      from skip_takes [OF a False that(2)] show ?thesis .
    qed
  qed
  have "left n da1" if "x = Inr y" for y using takes_oneD [OF A(1)] x that l by blast
  with r x skip [of da v da'] skip [of da1 v da'] l(1) keeps_leftD [OF A(2) x l(1)] show "left n da'"
    by (auto simp: optional_assembler_def split: sum.splits bool.splits if_splits)
qed

lemma prim_keeps: "keeps_left left (prim_assembler W R wr rd_el rd g z)"
  by (auto simp: keeps_left_def prim_assembler_def split: prod.splits sum.splits dest: value_keeps)

lemma array_keeps_left: "keeps_left left (array_assembler W R e wr rd g z)"
  by (auto simp: keeps_left_def array_assembler_def split: prod.splits sum.splits dest: array_keeps)

lemma struct_keeps_left: "keeps_left left (struct_assembler W R ms z)"
  by (auto simp: keeps_left_def struct_assembler_def split: prod.splits sum.splits dest: struct_keeps)

lemma asm_keeps_left: "keeps_left left (asm fuel W R fc t)"
  by (induction t) (simp_all add: lift_keeps_left int_assembler_def bool_assembler_def float_assembler_def string_assembler_def
      enum_assembler_def list_assembler_def tuple_assembler_def map_assembler_def strmap_assembler_def
      prim_keeps array_keeps_left struct_keeps_left optional_keeps_left)

lemma asm_takes_one_all: "takes_one R left (asm fuel W R fc t)"
proof (induction t)
  case (TOpt t)
  then show ?case by (simp add: lift_takes_one optional_takes_one asm_keeps_left)
qed (rule asm_takes_one, simp)+

lemma asm_ends_all: "ends ok_s ok_a (asm fuel W R fc t)"
  by (rule asm_ends_if [where P = "\<lambda>_. True"]) (simp_all add: asm_takes_one_all list_all_iff)

end

end
