(* ===== verification/SerialEnds.thy ===== *)
theory SerialEnds
  imports SerialReads
begin

text \<open>
  The loops of the assemblers over JSON and XML documents, as instances of the readers of \<open>SerialReads\<close>.
  Over JSON they end for every type whose vectors do not hold optionals, whatever the text; a vector
  of optionals may be read for ever.  Over XML they always end.
\<close>

section \<open>Fuel that is enough\<close>

text \<open>The values that reading can come to from a value.\<close>

inductive json_part :: "('f, 'j, 't) json_lib \<Rightarrow> 'j \<Rightarrow> 'j \<Rightarrow> bool" for J where
  part_refl: "json_part J j j"
| part_at: "json_part J j k \<Longrightarrow> j_at J i k = Inr v \<Longrightarrow> json_part J j v"
| part_find: "json_part J j k \<Longrightarrow> j_find J n k = Some v \<Longrightarrow> json_part J j v"
| part_grown: "json_part J j k \<Longrightarrow> j_member J n k = Inr (v, k') \<Longrightarrow> json_part J j k'"

text \<open>The fuel is enough for a value if it is for its entries, or the first of them cannot be had.\<close>

definition room :: "nat \<Rightarrow> ('f, 'j, 't) json_lib \<Rightarrow> 'j \<Rightarrow> bool" where
  "room fuel J k \<longleftrightarrow> j_size J k \<le> fuel \<or> (0 < fuel \<and> (\<exists>e. j_at J 0 k = Inl e))"

definition roomy :: "nat \<Rightarrow> ('f, 'j, 't) json_lib \<Rightarrow> 'j \<Rightarrow> bool" where
  "roomy fuel J j \<longleftrightarrow> (\<forall>k. json_part J j k \<longrightarrow> room fuel J k)"

text \<open>A type without a vector of optionals.\<close>

primrec loops_end :: "ty \<Rightarrow> bool" where
  "loops_end (TInt bits sgnd) = True"
| "loops_end TBool = True"
| "loops_end TFloat = True"
| "loops_end TStr = True"
| "loops_end (TEnum m) = True"
| "loops_end (TOpt t) = loops_end t"
| "loops_end (TList t) = (loops_end t \<and> (case t of TOpt _ \<Rightarrow> False | _ \<Rightarrow> True))"
| "loops_end (TTup ts) = list_all id (map loops_end ts)"
| "loops_end (TMap bits sgnd t) = loops_end t"
| "loops_end (TStrMap t) = loops_end t"
| "loops_end (TStruct ms) = list_all snd (map (map_prod id loops_end) ms)"

lemma roomy_refl: "roomy fuel J j \<Longrightarrow> room fuel J j"
  by (simp add: roomy_def part_refl)

lemma part_trans: "json_part J k l \<Longrightarrow> json_part J j k \<Longrightarrow> json_part J j l"
  by (induction rule: json_part.induct) (auto intro: json_part.intros)

lemma roomy_step: "roomy fuel J j \<Longrightarrow> json_part J j k \<Longrightarrow> roomy fuel J k"
  by (auto simp: roomy_def intro: part_trans)

lemma roomy_at: "roomy fuel J j \<Longrightarrow> j_at J i j = Inr v \<Longrightarrow> roomy fuel J v"
  by (blast intro: roomy_step json_part.intros)

lemma roomy_find: "roomy fuel J j \<Longrightarrow> j_find J n j = Some v \<Longrightarrow> roomy fuel J v"
  by (blast intro: roomy_step json_part.intros)

lemma roomy_grown: "roomy fuel J j \<Longrightarrow> j_member J n j = Inr (v, k) \<Longrightarrow> roomy fuel J k"
  by (blast intro: roomy_step json_part.intros)

lemma json_value_roomy: "json_value J n ds = (r, ds') \<Longrightarrow> roomy fuel J ds \<Longrightarrow> roomy fuel J ds'"
  by (auto simp: json_value_def split: sum.splits prod.splits intro: roomy_grown)

lemma json_next_value_doc: "json_next_value J da = (r, da') \<Longrightarrow> json_doc da' = json_doc da"
  by (auto simp: json_next_value_def split: if_splits sum.splits)

lemma json_next_doc: "json_next J mk da = (r, da') \<Longrightarrow> json_doc da' = json_doc da"
  by (auto simp: json_next_def split: if_splits)

lemma json_next_array_doc: "json_next_array J da = (r, da') \<Longrightarrow> json_doc da' = json_doc da"
  by (auto simp: json_next_array_def split: if_splits dest: json_next_doc)

section \<open>The loops over JSON\<close>

text \<open>A cursor in a value it has room for: at its start, or after an entry.\<close>

definition on_way :: "nat \<Rightarrow> ('f, 'j, 't) json_lib \<Rightarrow> 'j json_cursor \<Rightarrow> bool" where
  "on_way left J c \<longleftrightarrow> \<not> json_top c \<and> json_index c \<le> j_size J (json_doc c) \<and>
     (j_size J (json_doc c) \<le> json_index c + left \<or> 0 < left \<and> json_index c = 0 \<and> (\<exists>e. j_at J 0 (json_doc c) = Inl e))"

lemma on_way_new: "roomy fuel J j \<Longrightarrow> on_way fuel J (json_cursor_new j)"
  using roomy_refl [of fuel J j] by (auto simp: on_way_def room_def json_cursor_new_def)

lemma on_way_left: "on_way 0 J c \<Longrightarrow> complete (json_reader J) c"
  by (auto simp: on_way_def json_reader_def json_complete_def)

lemma on_way_next:
  assumes "on_way (Suc n) J c" "json_index c < j_size J (json_doc c)" "j_at J (json_index c) (json_doc c) = Inr x"
  shows "on_way n J (c\<lparr>json_index := json_index c + 1\<rparr>)"
  using assms by (auto simp: on_way_def)

text \<open>A nested array starts at its first entry.\<close>

lemma json_array_opens:
  assumes "json_next_array J da = (Inr (Some c), da')" "roomy fuel J (json_doc da)"
  shows "roomy fuel J (json_doc c) \<and> c = json_cursor_new (json_doc c)"
  using assms by (auto simp: json_next_array_def json_next_def json_cursor_new_def split: if_splits sum.splits intro: roomy_at)

lemma json_next_on_way:
  assumes "json_next J mk c = (Inr (Some d), c')" "on_way (Suc n) J c"
  shows "on_way n J c'"
proof -
  from assms(1) obtain x where x: "json_index c < j_size J (json_doc c)" "j_at J (json_index c) (json_doc c) = Inr x"
    "c' = c\<lparr>json_index := json_index c + 1\<rparr>"
    by (auto simp: json_next_def split: if_splits sum.splits)
  with on_way_next [OF assms(2) x(1,2)] show ?thesis by simp
qed

lemma json_next_part: "json_next J mk c = (Inr (Some d), c') \<Longrightarrow> \<exists>i x. j_at J i (json_doc c) = Inr x \<and> d = mk x"
  by (auto simp: json_next_def split: if_splits sum.splits)

lemma json_next_value_on_way:
  assumes "json_next_value J c = (Inr v, c')" "v \<noteq> any_empty" "on_way (Suc n) J c"
  shows "on_way n J c'"
proof -
  from assms(1,2) obtain x where x: "json_index c < j_size J (json_doc c)" "j_at J (json_index c) (json_doc c) = Inr x"
    "c' = c\<lparr>json_index := json_index c + 1\<rparr>"
    by (auto simp: json_next_value_def split: if_splits sum.splits)
  with on_way_next [OF assms(3) x(1,2)] show ?thesis by simp
qed

interpretation json_reads: finite_reader "json_reader J" "roomy fuel J" "\<lambda>c. roomy fuel J (json_doc c)" "\<lambda>n. on_way n J" fuel
  for J :: "('f, 'j, 't) json_lib" and fuel
proof (unfold_locales, goal_cases)
  case (1 n ds a ds')
  then show ?case by (auto simp: json_reader_def dest: json_value_roomy)
next
  case (2 n ds d)
  then show ?case by (auto simp: json_reader_def findNestedNotNullElement_def intro: roomy_find split: option.splits if_splits)
next
  case (3 n ds c)
  then obtain j where j: "findNestedNotNullElement J n ds = Some j" "c = json_cursor_new j" by (auto simp: json_reader_def)
  with 3(2) have "roomy fuel J j" by (auto simp: findNestedNotNullElement_def intro: roomy_find split: option.splits if_splits)
  with on_way_new [OF this] j(2) show ?case by (simp add: json_cursor_new_def)
next
  case (4 da a da')
  then show ?case using json_next_value_doc [of J da a da'] by (simp add: json_reader_def)
next
  case (5 da r da')
  then show ?case using json_next_doc [of J id da r da'] json_next_part [of J id da]
    by (auto simp: json_reader_def intro: roomy_at)
next
  case (6 da q da')
  then have q: "json_next_array J da = (q, da')" by (simp add: json_reader_def)
  have "roomy fuel J (json_doc c) \<and> on_way fuel J c" if "q = Inr (Some c)" for c
    using json_array_opens [of J da c da' fuel] q that 6(2) on_way_new by metis
  with json_next_array_doc [OF q] 6(2) show ?case by simp
next
  case (7 da v da' n)
  then show ?case using json_next_value_on_way [of J da v da' n] by (simp add: json_reader_def)
next
  case (8 da d da' n)
  then show ?case using json_next_on_way [of J id da d da' n] by (simp add: json_reader_def)
next
  case (9 da c da' n)
  then show ?case using json_next_on_way [of J json_cursor_new da c da' n]
    by (auto simp: json_reader_def json_next_array_def on_way_def split: if_splits)
next
  case (10 da)
  then show ?case by (rule on_way_left)
qed

section \<open>Types without a vector of optionals\<close>

lemma asm_ends:
  assumes "loops_end t"
  shows "ends (roomy fuel J) (\<lambda>c. roomy fuel J (json_doc c)) (asm fuel W (json_reader J) fc t)"
proof (rule json_reads.asm_ends_if [where P = loops_end, OF _ _ _ _ _ _ assms])
  fix u assume u: "loops_end (TList u)"
  then have "\<forall>v. u \<noteq> TOpt v" by (cases u) simp_all
  with u json_reads.asm_takes_one [OF this] show "loops_end u \<and> takes_one (json_reader J) (\<lambda>n. on_way n J) (asm fuel W (json_reader J) fc u)"
    by simp
qed (simp_all add: list_all_iff)

text \<open>C8: Reading a structure, or an array, of a type without vectors of optionals ends on every
  text: either with an object or with an exception.  The loops need as many steps as the longest
  array of the parsed text has entries.\<close>

theorem json_reading_ends:
  assumes "loops_end (TStruct ms)" and "loops_end t" and room: "\<forall>j. j_parse J x = Inr j \<longrightarrow> roomy fuel J j"
  shows "deserializeFromJsonObject J (asm_members fuel (json_writer J) (json_reader J) fc ms) z x \<noteq> Inl Endless \<and>
    deserializeFromJsonArray J (asm fuel (json_writer J) (json_reader J) fc t) x \<noteq> Inl Endless"
proof
  have "fst (struct_read (asm_members fuel (json_writer J) (json_reader J) fc ms) j z) \<noteq> Inl Endless" if "roomy fuel J j" for j
    by (rule json_reads.members_end [OF asm_ends that]) (use assms(1) in \<open>auto simp: list_all_iff\<close>)
  then show "deserializeFromJsonObject J (asm_members fuel (json_writer J) (json_reader J) fc ms) z x \<noteq> Inl Endless"
    using room by (auto simp: deserializeFromJsonObject_def setRawInput_def split: sum.splits option.splits)
  have "fst (deserialize (asm fuel (json_writer J) (json_reader J) fc t) da old) \<noteq> Inl Endless" if "roomy fuel J (json_doc da)" for da old
    using ends_entry [OF asm_ends [OF assms(2)] surjective_pairing that] by blast
  then show "deserializeFromJsonArray J (asm fuel (json_writer J) (json_reader J) fc t) x \<noteq> Inl Endless"
    using room by (auto simp: deserializeFromJsonArray_def setRawInput_def split: sum.splits option.splits)
qed

text \<open>Every tree has enough room in some fuel.\<close>

fun longest :: "'f jtree \<Rightarrow> nat" where
  "longest (JArr js) = fold max (map longest js) (length js)"
| "longest (JObj m) = fold max (map (\<lambda>(n, j). longest j) m) 0"
| "longest j = 0"

lemma fold_max_le: "fold max xs (n :: nat) \<le> b \<longleftrightarrow> n \<le> b \<and> (\<forall>x \<in> set xs. x \<le> b)"
  by (induction xs arbitrary: n) auto

lemma longest_norm: "longest (tree_norm j) = longest j"
  by (induction j rule: tree_norm.induct) (auto simp: comp_def case_prod_unfold intro!: arg_cong2 [of _ _ _ _ "\<lambda>xs. fold max xs"] map_cong)

lemma tree_ops:
  "j_at (tree_lib z) = tree_at" "j_find (tree_lib z) = (\<lambda>n j. map_of (tree_members j) n)" "j_member (tree_lib z) = tree_member"
  "j_size (tree_lib z) = tree_size" "j_parse (tree_lib z) = (\<lambda>j. Inr (tree_norm j))"
  by (simp_all add: tree_lib_def)

lemma longest_part:
  assumes "json_part (tree_lib z) j k"
  shows "longest j \<le> b \<Longrightarrow> longest k \<le> b"
  using assms
proof (induction rule: json_part.induct)
  case (part_at j k i v)
  then show ?case by (cases k) (auto simp: tree_ops tree_at_def tree_member_def tree_assign_def fold_max_le split: if_splits)
next
  case (part_find j k n v)
  then show ?case by (cases k) (auto simp: tree_ops tree_at_def tree_member_def tree_assign_def fold_max_le dest!: map_of_SomeD)
next
  case (part_grown j k n v k')
  have "longest (JObj (omap_set n JNull m)) \<le> b" if "longest (JObj m) \<le> b" for m
    proof -
    have "longest y \<le> b" if "(a, y) \<in> set (omap_set n JNull m)" for a y
      using that \<open>longest (JObj m) \<le> b\<close> set_omap_set [of n JNull m] by (fastforce simp: fold_max_le)
    then show ?thesis by (auto simp: fold_max_le)
  qed
  note grow = this
  show ?case
  proof (cases k)
    case (JObj m)
    with part_grown grow show ?thesis
      by (simp add: tree_ops tree_member_def tree_assign_def del: longest.simps split: option.splits)
        (elim conjE, hypsubst, blast)
  qed (use part_grown in \<open>auto simp: tree_ops tree_member_def tree_assign_def split: if_splits\<close>)
qed simp

lemma tree_roomy: "longest j < fuel \<Longrightarrow> roomy fuel (tree_lib z) j"
proof (unfold roomy_def, intro allI impI)
  fix k assume "longest j < fuel" "json_part (tree_lib z) j k"
  then have "longest k \<le> fuel" "0 < fuel" using longest_part [of z j k fuel] by auto
  then show "room fuel (tree_lib z) k" by (cases k) (auto simp: room_def tree_ops tree_at_def fold_max_le)
qed

lemma json_reading_ends_witness:
  "deserializeFromJsonObject (tree_lib 0) (asm_members 3 tree_W tree_R exact_conv [(''xs'', TList (TInt 8 True))])
     (NStruct [NList []]) (JObj [(''xs'', JArr [JInt 1, JArr []])]) \<noteq> Inl Endless \<and>
   deserializeFromJsonArray (tree_lib 0) (asm 3 tree_W tree_R exact_conv (TMap 8 True TBool)) (JObj [(''xs'', JArr [JInt 1, JArr []])]) \<noteq> Inl Endless"
proof (rule json_reading_ends)
  have "roomy 3 (tree_lib (0 :: int)) (tree_norm (JObj [(''xs'', JArr [JInt 1, JArr []])]))"
    by (rule tree_roomy) simp
  then show "\<forall>j. j_parse (tree_lib (0 :: int)) (JObj [(''xs'', JArr [JInt 1, JArr []])]) = Inr j \<longrightarrow> roomy 3 (tree_lib 0) j"
    by (simp add: tree_ops del: tree_norm.simps)
qed simp_all

section \<open>The loops over XML\<close>

text \<open>The nodes below a node, and fuel that is enough for the children of each of them.\<close>

inductive xml_part :: "('x, 't) xml_lib \<Rightarrow> 'x \<Rightarrow> 'x \<Rightarrow> bool" for X where
  xml_part_refl: "xml_part X x x"
| xml_part_child: "xml_part X x y \<Longrightarrow> z \<in> set (x_children X y) \<Longrightarrow> xml_part X x z"

definition xml_roomy :: "nat \<Rightarrow> ('x, 't) xml_lib \<Rightarrow> 'x \<Rightarrow> bool" where
  "xml_roomy fuel X x \<longleftrightarrow> (\<forall>y. xml_part X x y \<longrightarrow> length (x_children X y) \<le> fuel)"

lemma xml_part_trans: "xml_part X y z \<Longrightarrow> xml_part X x y \<Longrightarrow> xml_part X x z"
  by (induction rule: xml_part.induct) (auto intro: xml_part.intros)

lemma xml_roomy_child: "xml_roomy fuel X x \<Longrightarrow> y \<in> set (x_children X x) \<Longrightarrow> xml_roomy fuel X y"
  unfolding xml_roomy_def by (blast intro: xml_part_trans xml_part.intros)

lemma xml_roomy_length: "xml_roomy fuel X x \<Longrightarrow> length (x_children X x) \<le> fuel"
  by (simp add: xml_roomy_def xml_part_refl)

lemma discover_sub: "snd ` set (discover X xs) \<subseteq> set xs"
proof -
  let ?put = "\<lambda>m x. if x_is_element X x then omap_set (x_name X x) x m else m"
  have "snd ` set (foldl ?put m xs) \<subseteq> snd ` set m \<union> set xs" for m
  proof (induction xs arbitrary: m)
    case (Cons x xs)
    have "snd ` set (foldl ?put (?put m x) xs) \<subseteq> snd ` set (?put m x) \<union> set xs" by (rule Cons.IH)
    moreover have "snd ` set (?put m x) \<subseteq> insert x (snd ` set m)"
      using image_mono [OF set_omap_set, of snd "x_name X x" x m] by auto
    ultimately show ?case unfolding foldl.simps list.set by blast
  qed simp
  from this [of "[]"] show ?thesis by (simp add: discover_def)
qed

definition nodes_roomy :: "nat \<Rightarrow> ('x, 't) xml_lib \<Rightarrow> 'x set \<Rightarrow> bool" where
  "nodes_roomy fuel X xs \<longleftrightarrow> (\<forall>x \<in> xs. xml_roomy fuel X x)"

lemma nodes_roomy_sub: "nodes_roomy fuel X ys \<Longrightarrow> xs \<subseteq> ys \<Longrightarrow> nodes_roomy fuel X xs"
  by (auto simp: nodes_roomy_def)

lemma discovered_roomy: "xml_roomy fuel X x \<Longrightarrow> nodes_roomy fuel X (snd ` set (discoverNodes X x))"
  using discover_sub [of X "x_children X x"] by (auto simp: nodes_roomy_def discoverNodes_def intro: xml_roomy_child)

text \<open>The cursor of a nested array, with at most \<open>n\<close> nodes before its end.\<close>

definition xml_left :: "nat \<Rightarrow> 'x xml_cursor \<Rightarrow> bool" where
  "xml_left n c \<longleftrightarrow> \<not> xc_top c \<and> length (xc_nodes c) \<le> n"

lemma xml_new_roomy: "xml_roomy fuel X x \<Longrightarrow> nodes_roomy fuel X (set (xc_nodes (xml_cursor_new X x))) \<and> xml_left fuel (xml_cursor_new X x)"
  by (auto simp: xml_cursor_new_def nodes_roomy_def xml_left_def xml_roomy_length intro: xml_roomy_child)

lemma xml_step_cases:
  assumes "xml_step X f none c = (r, c')"
  obtains "xc_nodes c = []" "r = Inr none" "c' = c"
  | e where "r = Inl e" "c' = c"
  | x xs v where "xc_nodes c = x # xs" "f x = Inr v" "r = Inr v" "c' = c\<lparr>xc_nodes := xs, xc_index := xc_index c + 1\<rparr>"
proof (cases "xc_nodes c")
  case Nil
  with assms have "r = Inr none" "c' = c" by (simp_all add: xml_step_def)
  with Nil show ?thesis by (rule that(1))
next
  case (Cons x xs)
  show ?thesis
  proof (cases "x_name X x = containerEntry")
    case True
    show ?thesis
    proof (cases "f x")
      case (Inl e)
      with assms Cons True have "r = Inl e" "c' = c" by (simp_all add: xml_step_def)
      then show ?thesis by (rule that(2))
    next
      case (Inr v)
      with assms Cons True have "r = Inr v" "c' = c\<lparr>xc_nodes := xs, xc_index := xc_index c + 1\<rparr>" by (simp_all add: xml_step_def)
      with Cons Inr show ?thesis by (rule that(3))
    qed
  next
    case False
    with assms Cons have "r = Inl ParseException" "c' = c" by (simp_all add: xml_step_def)
    then show ?thesis by (rule that(2))
  qed
qed

lemma xml_step_keeps:
  assumes "xml_step X f none c = (r, c')"
  shows "set (xc_nodes c') \<subseteq> set (xc_nodes c)" and "xml_left n c \<Longrightarrow> xml_left n c'"
  by (rule xml_step_cases [OF assms]; auto)
    (rule xml_step_cases [OF assms]; auto simp: xml_left_def)

lemma xml_step_takes:
  assumes "xml_step X f none c = (Inr v, c')" "v \<noteq> none \<or> xc_nodes c \<noteq> []" "xml_left (Suc n) c"
  shows "xml_left n c'"
  by (rule xml_step_cases [OF assms(1)]) (use assms(2,3) in \<open>auto simp: xml_left_def\<close>)

interpretation xml_reads: skipping_reader "xml_reader X D" "\<lambda>m. nodes_roomy fuel X (snd ` set m)"
    "\<lambda>c. nodes_roomy fuel X (set (xc_nodes c))" xml_left fuel
  for X :: "('x, 't) xml_lib" and D :: "'f double_text" and fuel
proof -
  have found: "xml_roomy fuel X x" if "map_of m n = Some x" "nodes_roomy fuel X (snd ` set m)" for m :: "(string, 'x) omap" and n x
    using that map_of_SomeD [OF that(1)] by (force simp: nodes_roomy_def)
  have head: "xml_roomy fuel X x" if "xc_nodes c = x # xs" "nodes_roomy fuel X (set (xc_nodes c))" for c :: "'x xml_cursor" and x xs
    using that by (simp add: nodes_roomy_def)
  have next_array: "nodes_roomy fuel X (set (xc_nodes c')) \<and>
      (\<forall>d. q = Inr (Some d) \<longrightarrow> nodes_roomy fuel X (set (xc_nodes d)) \<and> xml_left fuel d)"
    if "xml_next_array X c = (q, c')" "nodes_roomy fuel X (set (xc_nodes c))" for c q c'
  proof (cases "xc_top c")
    case True
    with that(1) have "c' = c \<and> (\<forall>d. q = Inr (Some d) \<longrightarrow> (\<exists>x xs. xc_nodes c = x # xs \<and> d = xml_cursor_new X x))"
      by (auto simp: xml_next_array_def split: list.splits)
    with that(2) xml_new_roomy [OF head [OF _ that(2)]] show ?thesis by blast
  next
    case False
    with that(1) have s: "xml_step X (\<lambda>x. Inr (Some (xml_cursor_new X x))) None c = (q, c')" by (simp add: xml_next_array_def)
    have "\<forall>d. q = Inr (Some d) \<longrightarrow> (\<exists>x xs. xc_nodes c = x # xs \<and> d = xml_cursor_new X x)"
      by (rule xml_step_cases [OF s]) auto
    with xml_new_roomy [OF head [OF _ that(2)]] nodes_roomy_sub [OF that(2) xml_step_keeps(1) [OF s]] show ?thesis by blast
  qed
  have next_struct: "nodes_roomy fuel X (set (xc_nodes c')) \<and> (\<forall>d. r = Inr (Some d) \<longrightarrow> nodes_roomy fuel X (snd ` set d))"
    if s: "xml_step X (\<lambda>x. Inr (Some (discoverNodes X x))) None c = (r, c')" and c: "nodes_roomy fuel X (set (xc_nodes c))" for c r c'
  proof -
    have "\<forall>d. r = Inr (Some d) \<longrightarrow> (\<exists>x xs. xc_nodes c = x # xs \<and> d = discoverNodes X x)"
      by (rule xml_step_cases [OF s]) auto
    with discovered_roomy [OF head [OF _ c]] nodes_roomy_sub [OF c xml_step_keeps(1) [OF s]] show ?thesis by blast
  qed
  show "skipping_reader (xml_reader X D) (\<lambda>m. nodes_roomy fuel X (snd ` set m)) (\<lambda>c. nodes_roomy fuel X (set (xc_nodes c))) xml_left fuel"
  proof (unfold_locales, goal_cases)
    case (1 n ds a ds')
    then show ?case by (auto simp: xml_reader_def xml_value_def)
  next
    case (2 n ds d)
    then show ?case by (auto simp: xml_reader_def dest: found [THEN discovered_roomy])
  next
    case (3 n ds c)
    then obtain x where "map_of ds n = Some x" "c = xml_cursor_new X x" by (auto simp: xml_reader_def)
    with xml_new_roomy [OF found [OF _ 3(2)]] show ?case by simp
  next
    case (4 da a da')
    then show ?case using nodes_roomy_sub [OF 4(2) xml_step_keeps(1)] by (simp add: xml_reader_def)
  next
    case (5 da r da')
    then show ?case using next_struct by (simp add: xml_reader_def)
  next
    case (6 da q da')
    then show ?case using next_array by (simp add: xml_reader_def)
  next
    case (7 da v da' n)
    then show ?case using xml_step_takes by (fastforce simp: xml_reader_def)
  next
    case (8 da d da' n)
    then show ?case using xml_step_takes by (fastforce simp: xml_reader_def)
  next
    case (9 da c da' n)
    then have "\<not> xc_top da" by (simp add: xml_left_def)
    with 9 show ?case using xml_step_takes [of X _ None da "Some c" da' n] by (simp add: xml_reader_def xml_next_array_def)
  next
    case (10 da)
    then show ?case by (simp add: xml_reader_def xml_left_def)
  next
    case (11 da a da' n)
    then show ?case using xml_step_keeps(2) by (fastforce simp: xml_reader_def)
  next
    case (12 da r da' n)
    then show ?case using xml_step_keeps(2) by (fastforce simp: xml_reader_def)
  next
    case (13 da q da' n)
    then have "\<not> xc_top da" by (simp add: xml_left_def)
    with 13 show ?case using xml_step_keeps(2) [of X _ None da q da' n] by (simp add: xml_reader_def xml_next_array_def)
  next
    case (14 da v da' n)
    then show ?case using xml_step_takes [of X _ any_empty da v da' n] by (simp add: xml_reader_def)
  next
    case (15 da m n)
    then show ?case by (simp add: xml_reader_def xml_left_def)
  qed
qed

text \<open>C9: Reading a structure, or an array, of whatever type ends on every XML text, since an entry that an
  optional cannot read is skipped or the read throws.  The loops need as many steps as a node of the
  document has children, text nodes included.\<close>

theorem xml_reading_ends:
  assumes room: "\<forall>root rest. x_read X x = Some (root, rest) \<longrightarrow> (\<forall>y \<in> set (root # rest). xml_roomy fuel X y)"
  shows "deserializeFromXmlObject X (asm_members fuel (xml_writer X D) (xml_reader X D) fc ms) z x \<noteq> Inl Endless \<and>
    deserializeFromXmlArray X (asm fuel (xml_writer X D) (xml_reader X D) fc t) x \<noteq> Inl Endless"
proof
  have "fst (struct_read (asm_members fuel (xml_writer X D) (xml_reader X D) fc ms) (discoverNodes X root) z) \<noteq> Inl Endless"
    if "xml_roomy fuel X root" for root
    by (rule xml_reads.members_end [OF xml_reads.asm_ends_all discovered_roomy [OF that]])
  then show "deserializeFromXmlObject X (asm_members fuel (xml_writer X D) (xml_reader X D) fc ms) z x \<noteq> Inl Endless"
    using room by (auto simp: deserializeFromXmlObject_def xml_setRawInput_def split: sum.splits option.splits)
  have "fst (deserialize (asm fuel (xml_writer X D) (xml_reader X D) fc t) \<lparr>xc_nodes = root # rest, xc_index = 0, xc_top = True\<rparr> old) \<noteq> Inl Endless"
    if "\<forall>y \<in> set (root # rest). xml_roomy fuel X y" for root rest old
  proof -
    have "nodes_roomy fuel X (set (xc_nodes \<lparr>xc_nodes = root # rest, xc_index = 0, xc_top = True\<rparr>))"
      using that by (simp add: nodes_roomy_def)
    from ends_entry [OF xml_reads.asm_ends_all surjective_pairing this] show ?thesis by blast
  qed
  with room show "deserializeFromXmlArray X (asm fuel (xml_writer X D) (xml_reader X D) fc t) x \<noteq> Inl Endless"
    by (auto simp: deserializeFromXmlArray_def xml_setRawInput_def split: sum.splits option.splits)
qed

text \<open>Every tree of \<open>xnode_lib\<close> has enough room in some fuel.\<close>

fun widest :: "xnode \<Rightarrow> nat" where
  "widest (XElem n ps cs) = fold max (map widest cs) (length cs)"
| "widest (XText v) = 0"

lemma widest_part: "xml_part xnode_lib x y \<Longrightarrow> widest x \<le> b \<Longrightarrow> widest y \<le> b"
proof (induction rule: xml_part.induct)
  case (xml_part_child x y z)
  then show ?case by (cases y) (auto simp: xnode_lib_def fold_max_le)
qed

lemma xnode_roomy: "widest x \<le> fuel \<Longrightarrow> xml_roomy fuel xnode_lib x"
proof (unfold xml_roomy_def, intro allI impI)
  fix y assume w: "widest x \<le> fuel" and p: "xml_part xnode_lib x y"
  have "widest y \<le> fuel" by (rule widest_part [OF p w])
  then show "length (x_children xnode_lib y) \<le> fuel" by (cases y) (simp_all add: xnode_lib_def fold_max_le)
qed

lemma xml_reading_ends_witness:
  "deserializeFromXmlObject xnode_lib (asm_members 2 xnode_W xnode_R int_conv [(''xs'', TList (TOpt (TInt 8 True)))])
     (NStruct [NList []]) (XElem ''root'' [] [XElem ''xs'' [] [XElem containerEntry [] [XElem ''y'' [] []], XText ''z'']]) \<noteq> Inl Endless"
proof -
  let ?x = "XElem ''root'' [] [XElem ''xs'' [] [XElem containerEntry [] [XElem ''y'' [] []], XText ''z'']]"
  have "xml_roomy 2 xnode_lib ?x" by (rule xnode_roomy) simp
  moreover have "x_read xnode_lib x = Some (x, [])" for x by (simp add: xnode_lib_def)
  ultimately have "\<forall>root rest. x_read xnode_lib ?x = Some (root, rest) \<longrightarrow> (\<forall>y \<in> set (root # rest). xml_roomy 2 xnode_lib y)"
    by (simp only: option.inject prod.inject) auto
  from xml_reading_ends [OF this] show ?thesis by blast
qed

section \<open>Vectors of optionals\<close>

text \<open>The entries of an array, from the one with the index \<open>i\<close> on, that are read as they are: null as
  an empty optional, and integers in range.\<close>

fun optionals_read :: "('f, 'j, 't) json_lib \<Rightarrow> nat \<Rightarrow> bool \<Rightarrow> 'j \<Rightarrow> nat \<Rightarrow> int option list \<Rightarrow> bool" where
  "optionals_read J bits sgnd j i [] = True"
| "optionals_read J bits sgnd j i (x # xs) =
     ((case j_at J i j of
         Inl e \<Rightarrow> False
       | Inr el \<Rightarrow> j_is_primitive J el \<and>
           (if j_is_null J el then x = None
            else (case extract_int bits sgnd (getPrimitiveDataFrom J el) of Inl e \<Rightarrow> False | Inr v \<Rightarrow> x = Some v))) \<and>
      optionals_read J bits sgnd j (Suc i) xs)"

abbreviation "optional_int J bits sgnd \<equiv>
  optional_assembler (json_writer J) (json_reader J) (int_assembler (json_writer J) (json_reader J) bits sgnd)"
abbreviation "at_entry j i \<equiv> json_cursor_new j\<lparr>json_index := i\<rparr>"

lemmas optional_entry = optional_assembler_def int_assembler_def prim_assembler_def json_reader_def json_next_exists_def
  json_complete_def json_cursor_new_def json_next_value_def skip_value_def

lemma not_complete: "i < j_size J j \<Longrightarrow> \<not> complete (json_reader J) (at_entry j i)"
  by (simp add: json_reader_def json_complete_def json_cursor_new_def)

lemma fresh_optional [simp]: "fresh (optional_assembler W R A) = None"
  by (simp add: optional_assembler_def)

lemma optional_int_read:
  assumes "optionals_read J bits sgnd j i (x # xs)" "i < j_size J j"
  shows "deserialize (optional_int J bits sgnd) (at_entry j i) None = (Inr x, at_entry j (Suc i))"
proof -
  from assms(1) obtain el where el: "j_at J i j = Inr el" "j_is_primitive J el"
    "if j_is_null J el then x = None
     else (case extract_int bits sgnd (getPrimitiveDataFrom J el) of Inl e \<Rightarrow> False | Inr v \<Rightarrow> x = Some v)"
    by (auto split: sum.splits)
  with assms(2) show ?thesis
    by (cases "j_is_null J el"; cases "extract_int bits sgnd (getPrimitiveDataFrom J el)") (simp_all add: optional_entry)
qed

lemma optional_ints_read:
  "optionals_read J bits sgnd j i xs \<Longrightarrow> i + length xs \<le> j_size J j \<Longrightarrow>
    de_each (length xs + n) (json_reader J) (optional_int J bits sgnd) (at_entry j i) acc =
      de_each n (json_reader J) (optional_int J bits sgnd) (at_entry j (i + length xs)) (acc @ xs)"
proof (induction xs arbitrary: i acc)
  case Nil
  then show ?case by simp
next
  case (Cons x xs)
  then have i: "i < j_size J j" by simp
  from optional_int_read [OF Cons.prems(1) i] not_complete [OF i]
  have "de_each (length (x # xs) + n) (json_reader J) (optional_int J bits sgnd) (at_entry j i) acc =
      de_each (length xs + n) (json_reader J) (optional_int J bits sgnd) (at_entry j (Suc i)) (acc @ [x])"
    by (subst de_each.simps) simp
  with Cons.IH [of "Suc i" "acc @ [x]"] Cons.prems show ?case by simp
qed

lemma optional_stuck:
  assumes "j_at J i j = Inr el" "\<not> j_is_null J el" "\<not> j_is_primitive J el" "i < j_size J j"
  shows "de_each n (json_reader J) (optional_int J bits sgnd) (at_entry j i) acc = Inl Endless"
proof -
  have "deserialize (optional_int J bits sgnd) (at_entry j i) None = (Inr None, at_entry j i)"
    using assms by (simp add: optional_entry provided_def extract_int_def any_defs caught_def)
  with not_complete [OF assms(4)] show ?thesis
    by (induction n arbitrary: acc) (simp_all add: de_each.simps)
qed

text \<open>With too little fuel to come to the entry the reading has not ended either.\<close>

lemma optional_ints_stuck:
  assumes "optionals_read J bits sgnd j 0 xs" "length xs < j_size J j" "j_at J (length xs) j = Inr el" "\<not> j_is_null J el"
    "\<not> j_is_primitive J el"
  shows "de_each n (json_reader J) (optional_int J bits sgnd) (at_entry j 0) [] = Inl Endless"
proof -
  have all: "optionals_read J bits sgnd j i ys \<Longrightarrow> i + length ys = length xs \<Longrightarrow>
      de_each n (json_reader J) (optional_int J bits sgnd) (at_entry j i) acc = Inl Endless" for i ys acc
  proof (induction ys arbitrary: n i acc)
    case Nil
    with optional_stuck [OF assms(3-5,2)] show ?case by simp
  next
    case (Cons y ys)
    then have i: "i < j_size J j" using assms(2) by simp
    show ?case
    proof (cases n)
      case 0
      with not_complete [OF i] show ?thesis by (simp add: de_each.simps)
    next
      case (Suc m)
      with optional_int_read [OF Cons.prems(1) i] not_complete [OF i] Cons.IH [of "Suc i" m "acc @ [y]"] Cons.prems
      show ?thesis by (subst de_each.simps) simp
    qed
  qed
  show ?thesis by (rule all [OF assms(1)]) simp
qed

lemma root_array_read:
  assumes "j_parse J x = Inr j"
  shows "deserializeFromJsonArray J (list_assembler fuel (json_writer J) (json_reader J) A) x =
    de_each fuel (json_reader J) A (at_entry j 0) []"
proof -
  have "json_cursor_new j = at_entry j 0" by (simp add: json_cursor_new_def)
  with assms show ?thesis
    by (simp add: deserializeFromJsonArray_def setRawInput_def list_assembler_def array_assembler_def json_reader_def json_next_array_def)
qed

text \<open>C31: A vector of optional integers is read for ever from an array whose first entry that is
  neither null nor an integer in range is an array or an object: the optional takes the failed read
  for an empty value, and no entry is taken.  When that entry is any other value, such as an integer
  out of range or a string, it is read as an empty optional, and if the entry after it is no array or
  object, this one is lost: the reading goes on with the next but one.\<close>

theorem optional_vector_reads:
  assumes "j_parse J x = Inr j" and "optionals_read J bits sgnd j 0 vs" and "length vs < j_size J j"
    and "j_at J (length vs) j = Inr el" and "\<not> j_is_null J el"
  shows "(\<not> j_is_primitive J el \<longrightarrow>
      deserializeFromJsonArray J (list_assembler fuel (json_writer J) (json_reader J) (optional_int J bits sgnd)) x = Inl Endless) \<and>
    (j_is_primitive J el \<and> extract_int bits sgnd (getPrimitiveDataFrom J el) = Inl e \<and>
      length vs + 1 < j_size J j \<and> j_at J (length vs + 1) j = Inr el' \<and> j_is_primitive J el' \<longrightarrow>
      deserializeFromJsonArray J (list_assembler (length vs + Suc n) (json_writer J) (json_reader J) (optional_int J bits sgnd)) x =
        de_each n (json_reader J) (optional_int J bits sgnd) (json_cursor_new j\<lparr>json_index := length vs + 2\<rparr>) (vs @ [None]))"
proof (intro conjI impI)
  note root = root_array_read [OF assms(1)]
  show "deserializeFromJsonArray J (list_assembler fuel (json_writer J) (json_reader J) (optional_int J bits sgnd)) x = Inl Endless"
    if "\<not> j_is_primitive J el"
    unfolding root by (rule optional_ints_stuck [OF assms(2-5) that])
  assume el: "j_is_primitive J el \<and> extract_int bits sgnd (getPrimitiveDataFrom J el) = Inl e \<and>
      length vs + 1 < j_size J j \<and> j_at J (length vs + 1) j = Inr el' \<and> j_is_primitive J el'"
  then have e: "caught e" by (auto simp: extract_int_def caught_def any_cast_def split: if_splits sum.splits cpp_value.splits option.splits)
  have "deserialize (optional_int J bits sgnd) (at_entry j (length vs)) None = (Inr None, at_entry j (length vs + 2))"
    using el e assms(3-5) by (simp add: optional_entry)
  with not_complete [OF assms(3)] optional_ints_read [OF assms(2), of "Suc n" "[]"] assms(3)
  show "deserializeFromJsonArray J (list_assembler (length vs + Suc n) (json_writer J) (json_reader J) (optional_int J bits sgnd)) x =
      de_each n (json_reader J) (optional_int J bits sgnd) (json_cursor_new j\<lparr>json_index := length vs + 2\<rparr>) (vs @ [None])"
    unfolding root by (simp add: de_each.simps [of "Suc n"])
qed

lemma optional_vector_reads_witness:
  "deserializeFromJsonArray (tree_lib (0 :: int)) (list_assembler 1000 tree_W tree_R
      (optional_assembler tree_W tree_R (int_assembler tree_W tree_R 8 False))) (JArr [JUInt 7, JArr [], JUInt 1]) = Inl Endless \<and>
   deserializeFromJsonArray (tree_lib (0 :: int)) (list_assembler 1000 tree_W tree_R
      (optional_assembler tree_W tree_R (int_assembler tree_W tree_R 8 False))) (JArr [JNull, JUInt 256, JUInt 1, JUInt 2]) =
     Inr [None, None, Some 2]"
proof -
  let ?L = "tree_lib (0 :: int)"
  note lib = tree_lib_def tree_at_def getPrimitiveDataFrom_def extract_int_def any_defs int_max_def int_min_def
  have 1: "j_parse ?L (JArr [JUInt 7, JArr [], JUInt 1]) = Inr (JArr [JUInt 7, JArr [], JUInt 1])"
    "optionals_read ?L 8 False (JArr [JUInt 7, JArr [], JUInt 1]) 0 [Some 7]"
    "length [Some (7 :: int)] < j_size ?L (JArr [JUInt 7, JArr [], JUInt 1])"
    "j_at ?L (length [Some (7 :: int)]) (JArr [JUInt 7, JArr [], JUInt 1]) = Inr (JArr [])" "\<not> j_is_null ?L (JArr [])"
    by (simp_all add: lib)
  let ?j = "JArr [JNull, JUInt 256, JUInt 1, JUInt 2]"
  have 2: "j_parse ?L ?j = Inr ?j" "optionals_read ?L 8 False ?j 0 [None]" "length [None :: int option] < j_size ?L ?j"
    "j_at ?L (length [None :: int option]) ?j = Inr (JUInt 256)" "\<not> j_is_null ?L (JUInt 256)"
    by (simp_all add: lib)
  have "\<not> j_is_primitive ?L (JArr [])" by (simp add: tree_lib_def)
  moreover have "j_is_primitive ?L (JUInt 256)" "extract_int 8 False (getPrimitiveDataFrom ?L (JUInt 256)) = Inl OutOfRange"
    "length [None :: int option] + 1 < j_size ?L ?j" "j_at ?L (length [None :: int option] + 1) ?j = Inr (JUInt 1)" "j_is_primitive ?L (JUInt 1)"
    by (simp_all add: lib)
  moreover have "de_each 998 tree_R (optional_int ?L 8 False) (json_cursor_new ?j\<lparr>json_index := 3\<rparr>) [None, None] = Inr [None, None, Some 2]"
    by (simp add: de_each.simps eval_nat_numeral lib optional_entry provided_def)
  ultimately show ?thesis
    using optional_vector_reads [OF 1, of 1000] optional_vector_reads [OF 2, of 1000 OutOfRange "JUInt 1" 998]
    by (simp add: numeral_eq_Suc)
qed

end
