(* ===== verification/Settings.thy ===== *)
theory Settings
  imports SerialJson "HOL-Library.Countable"
begin

text \<open>
  \<open>settings.hh\<close> and \<open>settings.cc\<close>: the singleton that keeps one value per declared type under a
  name, and reads and writes them all with a serializer given by the caller.
\<close>

section \<open>Values and their assemblers\<close>

text \<open>A type: what \<open>typeid\<close> tells it by, and \<open>ObjectAssembler<T>::accessor()\<close>.\<close>

record ('v, 's, 'a, 'ds, 'da) cpp_struct =
  type_id :: nat
  accessor :: "('v, 's, 'a, 'ds, 'da) assembler"

text \<open>\<open>mapValue_t\<close>: the box, empty or with a value and its type, and the assembler, which may be null.\<close>

record ('v, 's, 'a, 'ds, 'da) map_value =
  mv_value :: "(nat \<times> 'v) option"
  mv_assembler :: "('v, 's, 'a, 'ds, 'da) cpp_struct option"

type_synonym ('v, 's, 'a, 'ds, 'da) settings_map = "(string, ('v, 's, 'a, 'ds, 'da) map_value) omap"

text \<open>What an element that fails while it is written leaves of itself in the document, which already
  holds its node: a function of the caller's, of which nothing is assumed.\<close>

type_synonym ('v, 's, 'a, 'ds, 'da) half_element = "('v, 's, 'a, 'ds, 'da) assembler \<Rightarrow> string \<Rightarrow> 'v \<Rightarrow> 's \<Rightarrow> 's"

definition value_serialize :: "('v, 's, 'a, 'ds, 'da) half_element \<Rightarrow> ('v, 's, 'a, 'ds, 'da) cpp_struct \<Rightarrow> string \<Rightarrow>
    (nat \<times> 'v) option \<Rightarrow> 's \<Rightarrow> unit res \<times> 's" where
  "value_serialize half T name x s =
     (case x of
        Some (t, v) \<Rightarrow>
          if t = type_id T
          then (case serializeElement (accessor T) name v s of
                  Inl e \<Rightarrow> (Inl (if e = Thrown BadCast then Thrown LogicError else e), half (accessor T) name v s)
                | Inr s1 \<Rightarrow> (Inr (), s1))
          else (Inl (Thrown LogicError), s)
      | None \<Rightarrow> (Inl (Thrown LogicError), s))"

definition value_deserialize :: "('v, 's, 'a, 'ds, 'da) cpp_struct \<Rightarrow> string \<Rightarrow> 'ds \<Rightarrow> (nat \<times> 'v) option res \<times> 'ds" where
  "value_deserialize T name ds =
     (case deserializeElement (accessor T) name ds (fresh (accessor T)) of
        (Inl e, ds1) \<Rightarrow> (Inl e, ds1) | (Inr v, ds1) \<Rightarrow> (Inr (Some (type_id T, v)), ds1))"

section \<open>The assembler of the whole map\<close>

text \<open>Writing stops at the first exception; the entries before it stay in the document.\<close>

fun map_serialize :: "('v, 's, 'a, 'ds, 'da) half_element \<Rightarrow> ('v, 's, 'a, 'ds, 'da) settings_map \<Rightarrow> 's \<Rightarrow> unit res \<times> 's" where
  "map_serialize half [] s = (Inr (), s)"
| "map_serialize half ((name, e) # m) s =
     (case mv_assembler e of
        None \<Rightarrow> (Inl (Thrown LogicError), s)
      | Some T \<Rightarrow> (case value_serialize half T name (mv_value e) s of
            (Inl x, s1) \<Rightarrow> (Inl x, s1)
          | (Inr _, s1) \<Rightarrow> map_serialize half m s1))"

text \<open>Reading stops at the first exception; the values read until then stay.\<close>

fun map_deserialize :: "string list \<Rightarrow> 'ds \<Rightarrow> ('v, 's, 'a, 'ds, 'da) settings_map \<Rightarrow>
    unit res \<times> ('v, 's, 'a, 'ds, 'da) settings_map" where
  "map_deserialize [] ds m = (Inr (), m)"
| "map_deserialize (key # keys) ds m =
     (case map_of m key of
        None \<Rightarrow> map_deserialize keys ds m
      | Some e \<Rightarrow> (case mv_assembler e of
            None \<Rightarrow> (Inl (Thrown LogicError), m)
          | Some T \<Rightarrow> (case value_deserialize T key ds of
                (Inl x, ds1) \<Rightarrow> (Inl x, m)
              | (Inr v, ds1) \<Rightarrow> map_deserialize keys ds1 (omap_set key (e\<lparr>mv_value := v\<rparr>) m))))"

fun graph_record :: "nat \<Rightarrow> ('v, 's, 'a, 'ds, 'da) settings_map \<Rightarrow> string" where
  "graph_record i [] = []"
| "graph_record i [(name, e)] = ''<member'' @ show_int (int i) @ ''>'' @ name"
| "graph_record i ((name, e) # m) = ''<member'' @ show_int (int i) @ ''>'' @ name @ ''|'' @ graph_record (Suc i) m"

definition dot_newline :: string where "dot_newline = [CHR 0x0A]"

fun graph_members :: "nat \<Rightarrow> ('v, 's, 'a, 'ds, 'da) settings_map \<Rightarrow> string res" where
  "graph_members i [] = Inr []"
| "graph_members i ((name, e) # m) =
     (case mv_assembler e of
        None \<Rightarrow> Inl (Thrown LogicError)
      | Some T \<Rightarrow> (let child = ''root_'' @ name
          in case graph_of (accessor T) child of
               Inl x \<Rightarrow> Inl x
             | Inr g \<Rightarrow> (case graph_members (Suc i) m of
                   Inl x \<Rightarrow> Inl x
                 | Inr rest \<Rightarrow> Inr (''root:member'' @ show_int (int i) @ '' -> '' @ child @ '':name;'' @ dot_newline @ g @ rest))))"

definition settings_graph :: "('v, 's, 'a, 'ds, 'da) settings_map \<Rightarrow> string res" where
  "settings_graph m =
     (case graph_members 0 m of
        Inl x \<Rightarrow> Inl x
      | Inr lines \<Rightarrow> Inr (''digraph struct {'' @ dot_newline @ ''rankdir=LR; bgcolor=\"#ffffff00\";'' @ dot_newline @
          ''node [fontname=\"sans\", fontsize=\"10\", fillcolor=\"lightgray\", style=\"filled\", margin=\"0.1\"];'' @ dot_newline @
          ''root [shape=record,label=\"{{'' @ graph_record 0 m @ ''}}\", height=0.1];'' @ dot_newline @ lines @ ''}''))"

section \<open>The settings\<close>

text \<open>The serializers are given by their operations; \<open>raw_input\<close> is \<open>setRawInput\<close>, \<open>dump_text\<close> is \<open>dump\<close>.\<close>

record ('v, 'f, 's, 'a, 'ds, 'da) settings_io =
  io_reader :: "('f, 'ds, 'da) reader"
  raw_input :: "string \<Rightarrow> 'ds res"
  dump_text :: "'s \<Rightarrow> string res"
  half_written :: "('v, 's, 'a, 'ds, 'da) half_element"

text \<open>The contents of the files that can be opened for reading, and the paths that can be opened
  for writing.\<close>

record disk =
  contents :: "string \<Rightarrow> string option"
  creatable :: "string \<Rightarrow> bool"

text \<open>The members of \<open>Settings\<close>; \<open>has_deserializer\<close> for the pointer to the deserializer, whose input
  is set anew before every use.\<close>

record ('v, 's, 'a, 'ds, 'da) settings =
  entries_of :: "('v, 's, 'a, 'ds, 'da) settings_map"
  default_path :: string
  has_deserializer :: bool
  default_serializer :: "'s option"

definition settings_new :: "('v, 's, 'a, 'ds, 'da) settings" where
  "settings_new = \<lparr>entries_of = [], default_path = [], has_deserializer = False, default_serializer = None\<rparr>"

definition setDefaultParameters :: "string \<Rightarrow> bool \<Rightarrow> 's option \<Rightarrow> ('v, 's, 'a, 'ds, 'da) settings \<Rightarrow> ('v, 's, 'a, 'ds, 'da) settings" where
  "setDefaultParameters p d s st = st\<lparr>default_path := p, has_deserializer := d, default_serializer := s\<rparr>"

definition isTypeDeclared :: "nat \<Rightarrow> ('v, 's, 'a, 'ds, 'da) settings \<Rightarrow> bool" where
  "isTypeDeclared t st \<longleftrightarrow> (\<exists>(name, e) \<in> set (entries_of st). map_option fst (mv_value e) = Some t)"

definition isNameDeclared :: "string \<Rightarrow> ('v, 's, 'a, 'ds, 'da) settings \<Rightarrow> bool" where
  "isNameDeclared name st \<longleftrightarrow> map_of (entries_of st) name \<noteq> None"

definition extractFileContent :: "string \<Rightarrow> string" where
  "extractFileContent s = dropWhile is_space s"

definition read_stream :: "('v, 'f, 's, 'a, 'ds, 'da) settings_io \<Rightarrow> string option \<Rightarrow> ('v, 's, 'a, 'ds, 'da) settings_map \<Rightarrow>
    unit res \<times> ('v, 's, 'a, 'ds, 'da) settings_map" where
  "read_stream io file m =
     (case file of
        None \<Rightarrow> (Inr (), m)
      | Some bytes \<Rightarrow>
          (let str = extractFileContent bytes
           in if str = [] then (Inl (Thrown LogicError), m)
              else (case raw_input io str of
                      Inl x \<Rightarrow> (Inl x, m)
                    | Inr ds \<Rightarrow> (case available_names (io_reader io) ds of
                          Inl x \<Rightarrow> (Inl (Thrown x), m)
                        | Inr keys \<Rightarrow> map_deserialize keys ds m))))"

text \<open>\<open>declareImpl\<close>: a type that is declared already only gets its value, under this name too,
  where \<open>operator[]\<close> may add an entry that has no assembler.\<close>

definition declareImpl :: "('v, 'f, 's, 'a, 'ds, 'da) settings_io \<Rightarrow> disk \<Rightarrow> ('v, 's, 'a, 'ds, 'da) cpp_struct \<Rightarrow> 'v \<Rightarrow> string \<Rightarrow> bool \<Rightarrow>
    ('v, 's, 'a, 'ds, 'da) settings \<Rightarrow> unit res \<times> ('v, 's, 'a, 'ds, 'da) settings" where
  "declareImpl io dk T ref name useRef st =
     (if isTypeDeclared (type_id T) st
      then (Inr (), if useRef \<or> \<not> isNameDeclared name st
              then st\<lparr>entries_of := omap_set name
                     (case map_of (entries_of st) name of
                        Some e \<Rightarrow> e\<lparr>mv_value := Some (type_id T, ref)\<rparr>
                      | None \<Rightarrow> \<lparr>mv_value = Some (type_id T, ref), mv_assembler = None\<rparr>) (entries_of st)\<rparr>
              else st)
      else if isNameDeclared name st then (Inl (Thrown LogicError), st)
      else
        (let e = \<lparr>mv_value = Some (type_id T, ref), mv_assembler = Some T\<rparr>;
             st1 = st\<lparr>entries_of := omap_set name e (entries_of st)\<rparr>
         in if default_path st \<noteq> [] \<and> has_deserializer st
            then (case read_stream io (contents dk (default_path st)) [(name, \<lparr>mv_value = None, mv_assembler = Some T\<rparr>)] of
                    (Inl x, stub) \<Rightarrow> (Inl x, st1)
                  | (Inr _, stub) \<Rightarrow>
                      (case map_of stub name of
                         Some f \<Rightarrow> (case mv_value f of
                             Some (t, v) \<Rightarrow>
                               if t = type_id T then (Inr (), st1\<lparr>entries_of := omap_set name (e\<lparr>mv_value := Some (t, v)\<rparr>) (entries_of st1)\<rparr>)
                               else (Inl (Thrown LogicError), st1)
                           | None \<Rightarrow> (Inr (), st1))
                       | None \<Rightarrow> (Inr (), st1)))
            else (Inr (), st1)))"

definition undeclare :: "string \<Rightarrow> ('v, 's, 'a, 'ds, 'da) settings \<Rightarrow> cpp_error + ('v, 's, 'a, 'ds, 'da) settings" where
  "undeclare name st = (if \<not> isNameDeclared name st then Inl LogicError else Inr (st\<lparr>entries_of := omap_erase name (entries_of st)\<rparr>))"

text \<open>\<open>access<T>\<close> gives the first value of the type, in the order of the names.\<close>

definition access :: "nat \<Rightarrow> ('v, 's, 'a, 'ds, 'da) settings \<Rightarrow> cpp_error + 'v" where
  "access t st =
     (case find (\<lambda>(name, e). map_option fst (mv_value e) = Some t) (entries_of st) of
        Some (name, e) \<Rightarrow> (case mv_value e of Some (_, v) \<Rightarrow> Inr v | None \<Rightarrow> Inl BadCast)
      | None \<Rightarrow> Inl LogicError)"

text \<open>\<open>serialize(path, serializer)\<close>: the file is opened, and emptied, before the text is made.\<close>

definition settings_serialize :: "('v, 'f, 's, 'a, 'ds, 'da) settings_io \<Rightarrow> string \<Rightarrow> 's \<Rightarrow> ('v, 's, 'a, 'ds, 'da) settings \<Rightarrow> disk \<Rightarrow>
    unit res \<times> 's \<times> disk" where
  "settings_serialize io p s st dk =
     (case map_serialize (half_written io) (entries_of st) s of
        (Inl x, s1) \<Rightarrow> (Inl x, s1, dk)
      | (Inr _, s1) \<Rightarrow>
          if \<not> creatable dk p then (Inl (Thrown InvalidArgument), s1, dk)
          else (case dump_text io s1 of
                  Inl x \<Rightarrow> (Inl x, s1, dk\<lparr>contents := (contents dk)(p \<mapsto> [])\<rparr>)
                | Inr str \<Rightarrow> (Inr (), s1, dk\<lparr>contents := (contents dk)(p \<mapsto> str)\<rparr>)))"

definition settings_deserialize :: "('v, 'f, 's, 'a, 'ds, 'da) settings_io \<Rightarrow> string \<Rightarrow> disk \<Rightarrow> ('v, 's, 'a, 'ds, 'da) settings \<Rightarrow>
    unit res \<times> ('v, 's, 'a, 'ds, 'da) settings" where
  "settings_deserialize io p dk st =
     (case contents dk p of
        None \<Rightarrow> (Inl (Thrown InvalidArgument), st)
      | Some bytes \<Rightarrow> (case read_stream io (Some bytes) (entries_of st) of (r, m) \<Rightarrow> (r, st\<lparr>entries_of := m\<rparr>)))"

definition serialize_default :: "('v, 'f, 's, 'a, 'ds, 'da) settings_io \<Rightarrow> ('v, 's, 'a, 'ds, 'da) settings \<Rightarrow> disk \<Rightarrow>
    unit res \<times> ('v, 's, 'a, 'ds, 'da) settings \<times> disk" where
  "serialize_default io st dk =
     (case default_serializer st of
        Some s \<Rightarrow>
          if default_path st \<noteq> []
          then (case settings_serialize io (default_path st) s st dk of
                  (r, s1, dk1) \<Rightarrow> (r, st\<lparr>default_serializer := Some s1\<rparr>, dk1))
          else (Inl (Thrown InvalidArgument), st, dk)
      | None \<Rightarrow> (Inl (Thrown InvalidArgument), st, dk))"

definition deserialize_default :: "('v, 'f, 's, 'a, 'ds, 'da) settings_io \<Rightarrow> disk \<Rightarrow> ('v, 's, 'a, 'ds, 'da) settings \<Rightarrow>
    unit res \<times> ('v, 's, 'a, 'ds, 'da) settings" where
  "deserialize_default io dk st =
     (if default_path st \<noteq> [] \<and> has_deserializer st then settings_deserialize io (default_path st) dk st
      else (Inl (Thrown InvalidArgument), st))"

text \<open>The registration by \<open>STATIC_DECLARE_SETTING\<close>.\<close>

definition macroOnlyRegistrator :: "bool \<Rightarrow> ('v, 'f, 's, 'a, 'ds, 'da) settings_io \<Rightarrow> disk \<Rightarrow> ('v, 's, 'a, 'ds, 'da) cpp_struct \<Rightarrow> string \<Rightarrow>
    ('v, 's, 'a, 'ds, 'da) settings \<Rightarrow> unit res \<times> ('v, 's, 'a, 'ds, 'da) settings" where
  "macroOnlyRegistrator keyed io dk T name st =
     (if \<not> keyed then (Inl (Thrown RuntimeError), st)
      else if \<not> isTypeDeclared (type_id T) st then declareImpl io dk T (fresh (accessor T)) name False st
      else (Inr (), st))"

section \<open>Saving and reading back\<close>

context archive
begin

text \<open>The setting \<open>e\<close> is written under \<open>name\<close> as \<open>it\<close> and read from that with its value.\<close>

definition kept :: "string \<Rightarrow> ('v, 's, 'a, 'ds, 'da) map_value \<Rightarrow> 'f item \<Rightarrow> bool" where
  "kept name e it \<longleftrightarrow> name_ok name \<and> (\<exists>T v ft. mv_assembler e = Some T \<and> mv_value e = Some (type_id T, v) \<and>
     ft (fresh (accessor T)) \<and> el_item (accessor T) ft v (Some it))"

lemma keptE:
  assumes "kept name e it"
  obtains T v ft where "name_ok name" "mv_assembler e = Some T" "mv_value e = Some (type_id T, v)"
    "ft (fresh (accessor T))" "el_item (accessor T) ft v (Some it)"
  using assms by (auto simp: kept_def)

lemma kept_codec:
  assumes "name_ok name" "codec (accessor T) S" "ok_el S v" "sol_el S v"
  shows "\<exists>it. kept name \<lparr>mv_value = Some (type_id T, v), mv_assembler = Some T\<rparr> it"
proof -
  from codec_elE [OF assms(2,3)] obtain io where "el_item (accessor T) (fits S) v io" "io \<noteq> None" using assms(4) by blast
  with assms codec_fresh [OF assms(2)] show ?thesis by (auto simp: kept_def)
qed

lemma value_written:
  assumes "kept name e it" "w_s s f" "f name = None"
  shows "\<exists>T s1. mv_assembler e = Some T \<and> value_serialize half T name (mv_value e) s = (Inr (), s1) \<and> w_s s1 (f(name \<mapsto> it))"
proof -
  from assms(1) obtain T v ft where e: "name_ok name" "mv_assembler e = Some T" "mv_value e = Some (type_id T, v)"
    "ft (fresh (accessor T))" "el_item (accessor T) ft v (Some it)" by (rule keptE)
  from el_item_write [OF e(5,1) assms(2,3)] e(2,3) show ?thesis by (auto simp: value_serialize_def)
qed

lemma value_read:
  assumes "kept name e it" "shows_s f ds" "f name = Some it" "mv_assembler e0 = mv_assembler e"
  shows "\<exists>T ds1. mv_assembler e0 = Some T \<and> value_deserialize T name ds = (Inr (mv_value e), ds1) \<and> shows_s f ds1 \<and>
    e0\<lparr>mv_value := mv_value e\<rparr> = e"
proof -
  from assms(1) obtain T v ft where e: "name_ok name" "mv_assembler e = Some T" "mv_value e = Some (type_id T, v)"
    "ft (fresh (accessor T))" "el_item (accessor T) ft v (Some it)" by (rule keptE)
  have "e0\<lparr>mv_value := mv_value e\<rparr> = e" using assms(4) by (cases e0, cases e) simp
  with el_item_read [OF e(5) assms(2,3) e(4)] e(2,3) assms(4) show ?thesis by (auto simp: value_deserialize_def)
qed

lemma table_written:
  assumes "distinct (map fst m)" "\<forall>(n, e) \<in> set m. kept n e (g n)" "w_s s f" "\<forall>n \<in> fst ` set m. f n = None"
  shows "\<exists>s1. map_serialize half m s = (Inr (), s1) \<and> w_s s1 (override_on f (\<lambda>n. Some (g n)) (fst ` set m))"
  using assms
proof (induction m arbitrary: s f)
  case Nil
  then show ?case by simp
next
  case (Cons p m)
  obtain n e where p: "p = (n, e)" by fastforce
  with Cons.prems have k: "kept n e (g n)" "f n = None" by auto
  from value_written [OF k(1) Cons.prems(3) k(2)] obtain T s1 where
    s1: "mv_assembler e = Some T" "value_serialize half T n (mv_value e) s = (Inr (), s1)" "w_s s1 (f(n \<mapsto> g n))" by blast
  have "\<exists>s2. map_serialize half m s1 = (Inr (), s2) \<and>
      w_s s2 (override_on (f(n \<mapsto> g n)) (\<lambda>n. Some (g n)) (fst ` set m))"
    by (rule Cons.IH [OF _ _ s1(3)]) (use Cons.prems p in auto)
  moreover have "override_on (f(n \<mapsto> g n)) (\<lambda>n. Some (g n)) (fst ` set m) =
      override_on f (\<lambda>n. Some (g n)) (fst ` set (p # m))"
    by (auto simp: override_on_def fun_eq_iff p)
  ultimately show ?case using s1(1,2) p by auto
qed

lemma table_read:
  assumes "\<forall>k \<in> set ks. f k = Some (g k)"
    and "\<forall>k \<in> set ks. \<forall>e. map_of m k = Some e \<longrightarrow> kept k (t k) (g k) \<and> mv_assembler e = mv_assembler (t k)"
    and "shows_s f ds" "omap_inv m"
  shows "\<exists>m'. map_deserialize ks ds m = (Inr (), m') \<and> omap_inv m' \<and>
    (\<forall>k. map_of m' k = (if k \<in> set ks \<and> map_of m k \<noteq> None then Some (t k) else map_of m k))"
  using assms
proof (induction ks arbitrary: ds m)
  case Nil
  then show ?case by simp
next
  case (Cons key ks)
  show ?case
  proof (cases "map_of m key")
    case None
    from Cons.IH [of m ds] Cons.prems obtain m' where
      m': "map_deserialize ks ds m = (Inr (), m')" "omap_inv m'"
      "\<forall>k. map_of m' k = (if k \<in> set ks \<and> map_of m k \<noteq> None then Some (t k) else map_of m k)" by auto
    with None show ?thesis by auto
  next
    case (Some e)
    with Cons.prems have k: "kept key (t key) (g key)" "mv_assembler e = mv_assembler (t key)" "f key = Some (g key)" by auto
    from value_read [OF k(1) Cons.prems(3) k(3,2)] obtain T ds1 where
      d: "mv_assembler e = Some T" "value_deserialize T key ds = (Inr (mv_value (t key)), ds1)" "shows_s f ds1"
        "e\<lparr>mv_value := mv_value (t key)\<rparr> = t key" by blast
    let ?m = "omap_set key (t key) m"
    have "\<exists>m'. map_deserialize ks ds1 ?m = (Inr (), m') \<and> omap_inv m' \<and>
        (\<forall>k. map_of m' k = (if k \<in> set ks \<and> map_of ?m k \<noteq> None then Some (t k) else map_of ?m k))"
      by (rule Cons.IH) (use Cons.prems d(3) Some in \<open>auto simp: map_of_omap_set\<close>)
    then obtain m' where m': "map_deserialize ks ds1 ?m = (Inr (), m')" "omap_inv m'"
      "\<forall>k. map_of m' k = (if k \<in> set ks \<and> map_of ?m k \<noteq> None then Some (t k) else map_of ?m k)" by blast
    with Some d(1,2,4) Cons.prems(4) show ?thesis by (intro exI [of _ m']) (simp add: map_of_omap_set)
  qed
qed

end

section \<open>Saving, by what is written\<close>

lemma serialize_written:
  assumes "map_serialize half (entries_of st) s = (Inr (), s1)" "creatable dk p" "half_written io = half"
  shows "settings_serialize io p s st dk = (case dump_text io s1 of
      Inl x \<Rightarrow> (Inl x, s1, dk\<lparr>contents := (contents dk)(p \<mapsto> [])\<rparr>)
    | Inr x \<Rightarrow> (Inr (), s1, dk\<lparr>contents := (contents dk)(p \<mapsto> x)\<rparr>))"
  using assms by (simp add: settings_serialize_def)

lemma serialize_failed:
  assumes "map_serialize (half_written io) (entries_of st) s = (Inl x, s1)"
  shows "settings_serialize io p s st dk = (Inl x, s1, dk)"
  using assms by (simp add: settings_serialize_def)

lemma serialize_success:
  assumes "settings_serialize io p s st dk = (Inr (), s1, dk1)" "map_serialize half (entries_of st) s = (r, s2)"
    "half_written io = half"
  shows "s2 = s1 \<and> (\<exists>x. dump_text io s1 = Inr x \<and> contents dk1 p = Some x)"
  using assms by (auto simp: settings_serialize_def split: sum.splits if_splits)

section \<open>The settings stay well-typed\<close>

text \<open>Every setting has an assembler, and a value of the assembler's type, under the one name \<open>nm\<close> of
  that type.\<close>

definition entry_ok :: "(nat \<Rightarrow> string) \<Rightarrow> string \<Rightarrow> ('v, 's, 'a, 'ds, 'da) map_value \<Rightarrow> bool" where
  "entry_ok nm name e \<longleftrightarrow> (\<exists>T v. mv_assembler e = Some T \<and> mv_value e = Some (type_id T, v) \<and> nm (type_id T) = name)"

definition settings_ok :: "(nat \<Rightarrow> string) \<Rightarrow> ('v, 's, 'a, 'ds, 'da) settings \<Rightarrow> bool" where
  "settings_ok nm st \<longleftrightarrow> omap_inv (entries_of st) \<and> (\<forall>name e. map_of (entries_of st) name = Some e \<longrightarrow> entry_ok nm name e)"

lemma settings_okD: "settings_ok nm st \<Longrightarrow> map_of (entries_of st) name = Some e \<Longrightarrow> entry_ok nm name e"
  by (simp add: settings_ok_def)

lemma settings_ok_set:
  "settings_ok nm st \<Longrightarrow> entry_ok nm name e \<Longrightarrow> settings_ok nm (st\<lparr>entries_of := omap_set name e (entries_of st)\<rparr>)"
  by (auto simp: settings_ok_def map_of_omap_set)

lemma type_declared:
  assumes "settings_ok nm st" "isTypeDeclared t st"
  shows "\<exists>e. map_of (entries_of st) (nm t) = Some e \<and> map_option fst (mv_value e) = Some t"
proof -
  from assms(2) obtain name e where e: "(name, e) \<in> set (entries_of st)" "map_option fst (mv_value e) = Some t"
    by (auto simp: isTypeDeclared_def)
  with assms(1) have m: "map_of (entries_of st) name = Some e"
    by (auto simp: settings_ok_def intro: map_of_is_SomeI omap_inv_distinct)
  with settings_okD [OF assms(1) this] e(2) show ?thesis by (auto simp: entry_ok_def)
qed

lemma map_deserialize_ok:
  assumes "omap_inv m" "\<forall>name e. map_of m name = Some e \<longrightarrow> entry_ok nm name e"
  shows "omap_inv (snd (map_deserialize ks ds m)) \<and>
    (\<forall>name e. map_of (snd (map_deserialize ks ds m)) name = Some e \<longrightarrow> entry_ok nm name e)"
  using assms
proof (induction ks arbitrary: ds m)
  case (Cons key ks)
  have step: "entry_ok nm key (e\<lparr>mv_value := v\<rparr>)"
    if "map_of m key = Some e" "mv_assembler e = Some T" "value_deserialize T key ds = (Inr v, ds1)" for e T v ds1
    using that(2,3) Cons.prems(2) [rule_format, OF that(1)]
    by (auto simp: entry_ok_def value_deserialize_def split: prod.splits sum.splits)
  show ?case
  proof (cases "map_of m key")
    case (Some e)
    with Cons.prems(2) obtain T where T: "mv_assembler e = Some T" by (auto simp: entry_ok_def)
    obtain r ds1 where d: "value_deserialize T key ds = (r, ds1)" by fastforce
    show ?thesis
    proof (cases r)
      case (Inr v)
      have "omap_inv (omap_set key (e\<lparr>mv_value := v\<rparr>) m)"
        "\<forall>name e'. map_of (omap_set key (e\<lparr>mv_value := v\<rparr>) m) name = Some e' \<longrightarrow> entry_ok nm name e'"
        using step [OF Some T d [unfolded Inr]] Cons.prems by (auto simp: map_of_omap_set)
      from Cons.IH [OF this] Some T d Inr show ?thesis by simp
    qed (use Some T d Cons.prems in simp)
  qed (use Cons in simp)
qed simp

lemma read_stream_ok:
  assumes "omap_inv m" "\<forall>name e. map_of m name = Some e \<longrightarrow> entry_ok nm name e"
  shows "omap_inv (snd (read_stream io file m)) \<and>
    (\<forall>name e. map_of (snd (read_stream io file m)) name = Some e \<longrightarrow> entry_ok nm name e)"
  using assms map_deserialize_ok [OF assms] by (auto simp: read_stream_def Let_def split: option.split sum.split)

lemma declareImpl_ok:
  assumes "settings_ok nm st" "nm (type_id T) = name"
  shows "settings_ok nm (snd (declareImpl io dk T v name u st))"
proof (cases "isTypeDeclared (type_id T) st")
  case True
  from type_declared [OF assms(1) True] obtain e where e: "map_of (entries_of st) name = Some e"
    "map_option fst (mv_value e) = Some (type_id T)" using assms(2) by auto
  with settings_okD [OF assms(1) e(1)] have "entry_ok nm name (e\<lparr>mv_value := Some (type_id T, v)\<rparr>)"
    by (auto simp: entry_ok_def)
  with settings_ok_set [OF assms(1) this] True e(1) assms(1) show ?thesis by (simp add: declareImpl_def isNameDeclared_def)
next
  case False
  let ?e = "\<lparr>mv_value = Some (type_id T, v), mv_assembler = Some T\<rparr>"
  have e: "entry_ok nm name (?e\<lparr>mv_value := Some (type_id T, w)\<rparr>)" for w using assms(2) by (simp add: entry_ok_def)
  have st1: "settings_ok nm (st\<lparr>entries_of := omap_set name ?e (entries_of st)\<rparr>)"
    using settings_ok_set [OF assms(1) e [of v]] by simp
  with settings_ok_set [OF st1 e] False assms(1) show ?thesis
    by (auto simp: declareImpl_def Let_def split: prod.split sum.split option.split unit.split)
qed

lemma declared_access:
  assumes "settings_ok nm st" "map_of (entries_of st) (nm t) = Some e" "map_option fst (mv_value e) = Some t"
  shows "map_option (Pair t) (case access t st of Inl _ \<Rightarrow> None | Inr v \<Rightarrow> Some v) = mv_value e"
proof -
  let ?P = "\<lambda>(name, e). map_option fst (mv_value e) = Some t"
  have "(nm t, e) \<in> set (entries_of st)" using assms(2) by (rule map_of_SomeD)
  with assms(3) have "find ?P (entries_of st) \<noteq> None" by (auto simp: find_None_iff)
  then obtain p where p: "find ?P (entries_of st) = Some p" by blast
  obtain name e' where n: "p = (name, e')" by fastforce
  from find_SomeD [OF p] n have e': "(name, e') \<in> set (entries_of st)" "map_option fst (mv_value e') = Some t" by auto
  then have m: "map_of (entries_of st) name = Some e'"
    using assms(1) by (auto simp: settings_ok_def intro: map_of_is_SomeI omap_inv_distinct)
  with settings_okD [OF assms(1) m] e'(2) have "name = nm t" by (auto simp: entry_ok_def)
  with m assms(2) have "e' = e" by simp
  with p n e'(2) show ?thesis by (auto simp: access_def split: option.split)
qed

lemma redeclared:
  assumes "settings_ok nm st" "nm (type_id T) = name" "isTypeDeclared (type_id T) st"
  shows "access (type_id T) (snd (declareImpl io dk T v name u st)) = (if u then Inr v else access (type_id T) st)"
proof -
  from type_declared [OF assms(1,3)] assms(2) obtain e where e: "map_of (entries_of st) name = Some e" by blast
  note ok = declareImpl_ok [OF assms(1,2), of io dk v u]
  have "map_of (entries_of (snd (declareImpl io dk T v name u st))) (nm (type_id T)) = Some (e\<lparr>mv_value := Some (type_id T, v)\<rparr>)" if u
    using that e assms by (simp add: declareImpl_def settings_ok_def map_of_omap_set)
  from declared_access [OF ok this] have "access (type_id T) (snd (declareImpl io dk T v name u st)) = Inr v" if u
    using that by (auto split: sum.splits)
  moreover have "snd (declareImpl io dk T v name u st) = st" if "\<not> u"
    using that e assms(3) by (simp add: declareImpl_def isNameDeclared_def)
  ultimately show ?thesis by simp
qed

lemma declared_entry:
  assumes "inj nm" "settings_ok nm st" "nm (type_id T) = name"
  shows "\<exists>e. map_of (entries_of (snd (declareImpl io dk T v name u st))) name = Some e \<and> map_option fst (mv_value e) = Some (type_id T)"
proof (cases "isTypeDeclared (type_id T) st")
  case True
  from type_declared [OF assms(2) True] assms(2,3) show ?thesis
    by (auto simp: declareImpl_def True isNameDeclared_def settings_ok_def map_of_omap_set)
next
  case False
  moreover have "\<not> isNameDeclared name st"
  proof
    assume "isNameDeclared name st"
    then obtain e where e: "map_of (entries_of st) name = Some e" by (auto simp: isNameDeclared_def)
    with settings_okD [OF assms(2) e] have "map_option fst (mv_value e) = Some (type_id T)"
      using injD [OF assms(1)] assms(3) by (auto simp: entry_ok_def)
    with False map_of_SomeD [OF e] show False by (auto simp: isTypeDeclared_def)
  qed
  ultimately show ?thesis using assms(2)
    by (auto simp: declareImpl_def settings_ok_def map_of_omap_set omap_inv_set Let_def
        split: prod.split sum.split option.split unit.split)
qed

text \<open>C11: When every type is declared under one name of its own, the settings stay well-typed whatever
  is declared, undeclared or read, from whatever file and whether or not reading it fails: every
  setting keeps an assembler and a value of its type.  So a declaration never meets a name that is
  taken, \<open>access\<close> finds the type after it, also when the file could not be read, and gives the
  reference where that replaces the value.\<close>

theorem settings_stay_typed:
  assumes "inj nm" "settings_ok nm st"
  shows "(nm (type_id T) = name \<longrightarrow>
      settings_ok nm (snd (declareImpl io dk T v name useRef st)) \<and>
      (\<exists>w. access (type_id T) (snd (declareImpl io dk T v name useRef st)) = Inr w) \<and>
      (isTypeDeclared (type_id T) st \<longrightarrow> fst (declareImpl io dk T v name useRef st) = Inr () \<and>
        access (type_id T) (snd (declareImpl io dk T v name useRef st)) = (if useRef then Inr v else access (type_id T) st))) \<and>
    (\<forall>st1. undeclare n st = Inr st1 \<longrightarrow> settings_ok nm st1) \<and>
    settings_ok nm (snd (settings_deserialize io p dk st))"
proof (intro conjI impI allI)
  assume nm: "nm (type_id T) = name"
  let ?st = "snd (declareImpl io dk T v name useRef st)"
  show ok: "settings_ok nm ?st" using assms(2) nm by (rule declareImpl_ok)
  have "\<exists>e. map_of (entries_of ?st) name = Some e \<and> map_option fst (mv_value e) = Some (type_id T)"
    using declared_entry [OF assms nm] by blast
  then show "\<exists>w. access (type_id T) ?st = Inr w" using declared_access [OF ok] nm by (force split: sum.splits)
  show "access (type_id T) ?st = (if useRef then Inr v else access (type_id T) st)" if "isTypeDeclared (type_id T) st"
    by (rule redeclared [OF assms(2) nm that])
  show "fst (declareImpl io dk T v name useRef st) = Inr ()" if "isTypeDeclared (type_id T) st"
    using that by (simp add: declareImpl_def)
next
  show "settings_ok nm st1" if "undeclare n st = Inr st1" for st1
    using that assms(2) by (auto simp: undeclare_def settings_ok_def map_of_omap_erase split: if_splits)
  show "settings_ok nm (snd (settings_deserialize io p dk st))"
    using assms(2) read_stream_ok [of "entries_of st" nm io "contents dk p"]
    by (auto simp: settings_deserialize_def settings_ok_def split_beta split: option.split)
qed

lemma unassembled_serialize:
  "list_ex (\<lambda>p. mv_assembler (snd p) = None) m \<Longrightarrow> \<exists>x s1. map_serialize half m s = (Inl x, s1)"
  by (induction half m s rule: map_serialize.induct) (auto split: option.split sum.split prod.split)

lemma unassembled_graph:
  "list_ex (\<lambda>p. mv_assembler (snd p) = None) m \<Longrightarrow> \<exists>x. graph_members i m = Inl x"
proof (induction m arbitrary: i)
  case (Cons p m)
  from Cons.IH [of "Suc i"] Cons.prems show ?case by (cases p) (auto split: option.split sum.split simp: Let_def)
qed simp

text \<open>Read into settings \<open>m0\<close>, the file gives the values of \<open>m\<close> to the names they share.\<close>

definition same_types :: "('v, 's, 'a, 'ds, 'da) settings_map \<Rightarrow> ('v, 's, 'a, 'ds, 'da) settings_map \<Rightarrow> bool" where
  "same_types m m0 \<longleftrightarrow>
     (\<forall>n e e0. map_of m n = Some e \<longrightarrow> map_of m0 n = Some e0 \<longrightarrow> mv_assembler e0 = mv_assembler e)"

definition loads :: "('v, 'f, 's, 'a, 'ds, 'da) settings_io \<Rightarrow> ('v, 's, 'a, 'ds, 'da) settings_map \<Rightarrow> string \<Rightarrow> bool" where
  "loads io m x \<longleftrightarrow> (\<forall>m0. omap_inv m0 \<longrightarrow> same_types m m0 \<longrightarrow>
     (\<exists>m'. read_stream io (Some x) m0 = (Inr (), m') \<and> omap_inv m' \<and>
       map_of m' = (\<lambda>n. if map_of m n \<noteq> None \<and> map_of m0 n \<noteq> None then map_of m n else map_of m0 n)))"

lemma loadsD:
  assumes "loads io m x" "omap_inv m0" "same_types m m0"
  shows "\<exists>m'. read_stream io (Some x) m0 = (Inr (), m') \<and> omap_inv m' \<and>
    map_of m' = (\<lambda>n. if map_of m n \<noteq> None \<and> map_of m0 n \<noteq> None then map_of m n else map_of m0 n)"
  using assms by (simp add: loads_def)

section \<open>The settings in JSON\<close>

definition json_io :: "('v, 'j, 'a, 'j, 'j json_cursor) half_element \<Rightarrow> ('f, 'j, string) json_lib \<Rightarrow>
    ('v, 'f, 'j, 'a, 'j, 'j json_cursor) settings_io" where
  "json_io half J = \<lparr>io_reader = json_reader J, raw_input = setRawInput J, dump_text = \<lambda>j. json_dump J (Inr j),
     half_written = half\<rparr>"

lemma json_io_simps [simp]:
  "io_reader (json_io half J) = json_reader J" "raw_input (json_io half J) = setRawInput J" "dump_text (json_io half J) j = thrown (j_dump J j)"
  "half_written (json_io half J) = half"
  by (simp_all add: json_io_def json_dump_def)

text \<open>A setting of the type \<open>t\<close>, and one that JSON keeps.\<close>

definition json_type_of :: "('f, 'j, string) json_lib \<Rightarrow> nat \<Rightarrow> ('f, 'f) float_conv \<Rightarrow> nat \<Rightarrow> ty \<Rightarrow>
    ('f node, 'j, 'j json_array, 'j, 'j json_cursor) cpp_struct" where
  "json_type_of J fuel fc i t = \<lparr>type_id = i, accessor = asm fuel (json_writer J) (json_reader J) fc t\<rparr>"

definition json_keeps :: "('f, 'j, string) json_lib \<Rightarrow> ('f \<Rightarrow> bool) \<Rightarrow> nat \<Rightarrow> ('f, 'f) float_conv \<Rightarrow>
    ('f node, 'j, 'j json_array, 'j, 'j json_cursor) map_value \<Rightarrow> bool" where
  "json_keeps J fin fuel fc e \<longleftrightarrow> (\<exists>i t v. wf_ty (\<lambda>_. True) (json_prim fin) t \<and>
     ok_el (store False (\<lambda>_. True) (json_prim fin) fuel fc t) v \<and> sol_el (store False (\<lambda>_. True) (json_prim fin) fuel fc t) v \<and>
     e = \<lparr>mv_value = Some (i, v), mv_assembler = Some (json_type_of J fuel fc i t)\<rparr>)"

text \<open>A text \<open>dump\<close> makes is not empty and does not start with white space.\<close>

locale json_texts = json_library J obj arr finite_double norm
  for J :: "('f, 'j, string) json_lib" and obj :: "'j \<Rightarrow> bool" and arr :: "'j \<Rightarrow> bool"
    and finite_double :: "'f \<Rightarrow> bool" and norm :: "'j \<Rightarrow> 'j" +
  assumes trimmed: "j_dump J j = Inr x \<Longrightarrow> x \<noteq> [] \<and> extractFileContent x = x"
begin

lemma json_kept:
  assumes "json_keeps J finite_double fuel fc e"
  shows "\<exists>it. kept name e it"
proof -
  from assms obtain i t v where e: "wf_ty (\<lambda>_. True) (json_prim finite_double) t"
    "ok_el (store False (\<lambda>_. True) (json_prim finite_double) fuel fc t) v" "sol_el (store False (\<lambda>_. True) (json_prim finite_double) fuel fc t) v"
    "e = \<lparr>mv_value = Some (i, v), mv_assembler = Some (json_type_of J fuel fc i t)\<rparr>"
    by (auto simp: json_keeps_def)
  have "codec (accessor (json_type_of J fuel fc i t)) (store False (\<lambda>_. True) (json_prim finite_double) fuel fc t)"
    using asm_codec [OF e(1)] by (simp add: json_type_of_def)
  from kept_codec [OF TrueI this e(2,3)] show ?thesis by (simp add: e(4) json_type_of_def)
qed

text \<open>What saving settings writes.\<close>

lemma json_saved:
  assumes "omap_inv m" "\<forall>(n, e) \<in> set m. json_keeps J finite_double fuel fc e"
  shows "\<exists>j g. map_serialize half m (j_object J) = (Inr (), j) \<and>
    shows_s (\<lambda>n. if map_of m n = None then None else Some (g n)) (norm j) \<and>
    (\<forall>n e. map_of m n = Some e \<longrightarrow> kept n e (g n))"
proof -
  define g where "g n = (SOME it. kept n (the (map_of m n)) it)" for n
  have k: "kept n e (g n)" if "map_of m n = Some e" for n e
    using someI_ex [OF json_kept [of fuel fc e n]] assms(2) map_of_SomeD [OF that] that by (auto simp: g_def)
  have "\<forall>(n, e) \<in> set m. kept n e (g n)" using k omap_inv_distinct [OF assms(1)] by auto
  from table_written [OF omap_inv_distinct [OF assms(1)] this open_s] obtain j where
    j: "map_serialize half m (open_struct (json_writer J)) = (Inr (), j)"
      "w_item (IStruct (override_on Map.empty (\<lambda>n. Some (g n)) (fst ` set m))) j" by auto
  have "override_on Map.empty (\<lambda>n. Some (g n)) (fst ` set m) = (\<lambda>n. if map_of m n = None then None else Some (g n))"
    by (auto simp: override_on_def fun_eq_iff map_of_eq_None_iff)
  with j k show ?thesis by (intro exI [of _ j] exI [of _ g]) (auto simp: shows_s_def json_writer_def)
qed

text \<open>What reading the file gives, in settings whose types agree.\<close>

lemma json_loaded:
  assumes "j_dump J j = Inr x" and "shows_s (\<lambda>n. if map_of m n = None then None else Some (g n)) (norm j)"
    and "\<forall>n e. map_of m n = Some e \<longrightarrow> kept n e (g n)"
  shows "loads (json_io half J) m x"
  unfolding loads_def
proof (intro allI impI)
  fix m0 assume m0: "omap_inv m0" "same_types m m0"
  let ?f = "\<lambda>n. if map_of m n = None then None else Some (g n)"
  from names_v [OF assms(2)] obtain ks where ks: "available_names (json_reader J) (norm j) = Inr ks" "set ks = dom ?f" by blast
  have dom: "k \<in> set ks \<longleftrightarrow> map_of m k \<noteq> None" for k by (simp add: ks(2) dom_def)
  have "\<forall>k \<in> set ks. \<forall>e. map_of m0 k = Some e \<longrightarrow>
      kept k (the (map_of m k)) (g k) \<and> mv_assembler e = mv_assembler (the (map_of m k))"
    using assms(3) m0(2) by (fastforce simp: dom same_types_def)
  moreover have "\<forall>k \<in> set ks. ?f k = Some (g k)" by (simp add: dom)
  ultimately obtain m' where m': "map_deserialize ks (norm j) m0 = (Inr (), m')" "omap_inv m'"
    "\<forall>n. map_of m' n = (if n \<in> set ks \<and> map_of m0 n \<noteq> None then Some (the (map_of m n)) else map_of m0 n)"
    using table_read [of ks ?f g m0 "\<lambda>k. the (map_of m k)", OF _ _ assms(2) m0(1)] by blast
  have "read_stream (json_io half J) (Some x) m0 = (Inr (), m')"
    using trimmed [OF assms(1)] parse_dump [OF assms(1)] ks(1) m'(1)
    by (simp add: read_stream_def setRawInput_def Let_def)
  moreover have "map_of m' = (\<lambda>n. if map_of m n \<noteq> None \<and> map_of m0 n \<noteq> None then map_of m n else map_of m0 n)"
    using m'(3) by (auto simp: dom fun_eq_iff)
  ultimately show "\<exists>m'. read_stream (json_io half J) (Some x) m0 = (Inr (), m') \<and> omap_inv m' \<and>
      map_of m' = (\<lambda>n. if map_of m n \<noteq> None \<and> map_of m0 n \<noteq> None then map_of m n else map_of m0 n)"
    using m'(2) by blast
qed

lemma json_table:
  assumes "omap_inv m" "\<forall>(n, e) \<in> set m. json_keeps J finite_double fuel fc e"
  shows "\<exists>j. map_serialize half m (j_object J) = (Inr (), j) \<and> (\<forall>x. j_dump J j = Inr x \<longrightarrow> loads (json_io half J) m x)"
proof -
  from json_saved [OF assms] obtain j g where j: "map_serialize half m (j_object J) = (Inr (), j)"
    and g: "shows_s (\<lambda>n. if map_of m n = None then None else Some (g n)) (norm j)"
      "\<forall>n e. map_of m n = Some e \<longrightarrow> kept n e (g n)" by blast
  with json_loaded [OF _ g] show ?thesis by blast
qed

end

section \<open>A library with texts\<close>

text \<open>The JSON values of \<open>tree_lib\<close> with a text for each: a brace and a number in unary.\<close>

instance jtree :: (countable) countable
  by countable_datatype

definition tree_text :: "int jtree \<Rightarrow> string" where
  "tree_text j = CHR ''{'' # replicate (to_nat j) CHR ''x''"

definition text_tree :: "string \<Rightarrow> int jtree" where
  "text_tree x = from_nat (length x - 1)"

lemma text_tree_text [simp]: "text_tree (tree_text j) = j"
  by (simp add: text_tree_def tree_text_def)

lemma tree_text_trimmed [simp]: "tree_text j \<noteq> []" "extractFileContent (tree_text j) = tree_text j"
  by (simp_all add: tree_text_def extractFileContent_def is_space_def)

definition text_lib :: "(int, int jtree, string) json_lib" where
  "text_lib =
     \<lparr>j_value = tree_value, j_null = JNull, j_object = JObj [], j_array = JArr [],
      j_assign = tree_assign, j_push = (\<lambda>j v. JArr (tree_elements j @ [v])),
      j_member = tree_member, j_at = tree_at,
      j_find = (\<lambda>n j. map_of (tree_members j) n), j_keys = (\<lambda>j. Inr (map fst (tree_members j))),
      j_size = tree_size, j_type = tree_type, j_is_null = (\<lambda>j. tree_type j = JsonNull),
      j_is_primitive = (\<lambda>j. tree_type j \<notin> {JsonArray, JsonObject}),
      j_bool = j_bool (tree_lib 0), j_int = j_int (tree_lib 0), j_uint = j_uint (tree_lib 0),
      j_double = j_double (tree_lib 0), j_string = j_string (tree_lib 0),
      j_dump = (\<lambda>j. Inr (tree_text j)), j_parse = (\<lambda>x. Inr (tree_norm (text_tree x)))\<rparr>"

interpretation texts: json_texts text_lib tree_obj tree_arr "\<lambda>_. True" tree_norm
proof (unfold_locales, goal_cases)
  case (5 j)
  then obtain m where m: "j = JObj m" "omap_inv m" by (auto simp: tree_obj_iff)
  then show ?case
    by (auto simp: text_lib_def omap_inv_distinct map_of_eq_None_iff)
next
  case (16 p)
  then show ?case using tree_type_value [of p] by (auto simp: text_lib_def)
next
  case (17 p)
  then show ?case using tree_type_value [of p] by (auto simp: text_lib_def)
qed (auto simp: text_lib_def tree_defs tree_obj_iff tree_arr_iff nth_append omap_inv_set map_of_omap_set
  map_of_map_snd omap_inv_map_snd split: option.splits)

section \<open>Saving and restoring\<close>

text \<open>C5: Settings saved to a file are read back as they were by a program that declares the same types
  under the same names, whatever values it has declared them with; no other file changes.  When
  the text cannot be made (a string that is not UTF-8), the exception leaves the file empty.\<close>

theorem settings_roundtrip:
  assumes lib: "json_texts J obj arr fin norm"
    and st: "omap_inv (entries_of st)" "\<forall>(n, e) \<in> set (entries_of st). json_keeps J fin fuel fc e"
    and st0: "omap_inv (entries_of st0)"
      "\<forall>n. map_option mv_assembler (map_of (entries_of st0) n) = map_option mv_assembler (map_of (entries_of st) n)"
    and p: "creatable dk p"
  shows "\<exists>j. case j_dump J j of
      Inl x \<Rightarrow> settings_serialize (json_io half J) p (j_object J) st dk =
        (Inl (Thrown x), j, dk\<lparr>contents := (contents dk)(p \<mapsto> [])\<rparr>)
    | Inr x \<Rightarrow> settings_serialize (json_io half J) p (j_object J) st dk =
        (Inr (), j, dk\<lparr>contents := (contents dk)(p \<mapsto> x)\<rparr>) \<and>
      settings_deserialize (json_io half J) p (dk\<lparr>contents := (contents dk)(p \<mapsto> x)\<rparr>) st0 =
        (Inr (), st0\<lparr>entries_of := entries_of st\<rparr>)"
proof -
  from json_texts.json_table [OF lib st] obtain j where
    j: "map_serialize half (entries_of st) (j_object J) = (Inr (), j)"
      "\<forall>x. j_dump J j = Inr x \<longrightarrow> loads (json_io half J) (entries_of st) x" by blast
  show ?thesis
  proof (cases "j_dump J j")
    case (Inr x)
    have agree: "map_option mv_assembler (map_of (entries_of st0) n) = map_option mv_assembler (map_of (entries_of st) n)" for n
      using st0(2) by blast
    have "mv_assembler e0 = mv_assembler e" if "map_of (entries_of st) n = Some e" "map_of (entries_of st0) n = Some e0" for n e e0
      using agree [of n] that by simp
    then have same: "same_types (entries_of st) (entries_of st0)" by (simp add: same_types_def)
    have dom: "map_of (entries_of st0) n = None \<longleftrightarrow> map_of (entries_of st) n = None" for n
      using agree [of n] by (cases "map_of (entries_of st0) n"; cases "map_of (entries_of st) n") simp_all
    from loadsD [OF _ st0(1) same] j(2) Inr obtain m' where
      m': "read_stream (json_io half J) (Some x) (entries_of st0) = (Inr (), m')" "omap_inv m'"
        "map_of m' = (\<lambda>n. if map_of (entries_of st) n \<noteq> None \<and> map_of (entries_of st0) n \<noteq> None
           then map_of (entries_of st) n else map_of (entries_of st0) n)" by blast
    have "m' = entries_of st" by (rule omap_eqI [OF m'(2) st(1)]) (use dom in \<open>simp add: m'(3) fun_eq_iff\<close>)
    with m'(1) Inr show ?thesis
      by (intro exI [of _ j]) (simp add: serialize_written [OF j(1) p] settings_deserialize_def)
  next
    case (Inl x)
    then show ?thesis by (intro exI [of _ j]) (simp add: serialize_written [OF j(1) p])
  qed
qed

text \<open>C23: A program that declares a new type under a name finds the value it has saved under that name:
  \<open>declare\<close> reads it from the default file, keeping the reference only where the file has no such
  name, and no other setting changes.\<close>

theorem declare_restores:
  assumes lib: "json_texts J obj arr fin norm"
    and st: "omap_inv (entries_of st)" "\<forall>(n, e) \<in> set (entries_of st). json_keeps J fin fuel fc e"
    and saved: "settings_serialize (json_io half J) p (j_object J) st dk = (Inr (), j, dk1)"
    and st0: "omap_inv (entries_of st0)" "default_path st0 = p" "p \<noteq> []" "has_deserializer st0"
    and new: "\<not> isTypeDeclared (type_id T) st0" "\<not> isNameDeclared name st0"
    and same: "\<forall>e. map_of (entries_of st) name = Some e \<longrightarrow> mv_assembler e = Some T \<and> map_option fst (mv_value e) = Some (type_id T)"
  shows "\<exists>st1. declareImpl (json_io half J) dk1 T ref name useRef st0 = (Inr (), st1) \<and>
    map_of (entries_of st1) name = Some (case map_of (entries_of st) name of
       Some e \<Rightarrow> e | None \<Rightarrow> \<lparr>mv_value = Some (type_id T, ref), mv_assembler = Some T\<rparr>) \<and>
    (\<forall>n. n \<noteq> name \<longrightarrow> map_of (entries_of st1) n = map_of (entries_of st0) n)"
proof -
  let ?stub = "[(name, \<lparr>mv_value = None, mv_assembler = Some T\<rparr>)]"
  from json_texts.json_table [OF lib st] obtain j' where
    j: "map_serialize half (entries_of st) (j_object J) = (Inr (), j')"
      "\<forall>x. j_dump J j' = Inr x \<longrightarrow> loads (json_io half J) (entries_of st) x" by blast
  from serialize_success [OF saved j(1)] json_io_simps(4) obtain x where x: "j_dump J j' = Inr x" "contents dk1 p = Some x"
    by (auto simp: thrown_def split: sum.splits)
  have "omap_inv ?stub" "same_types (entries_of st) ?stub" using same by (simp_all add: omap_inv_def same_types_def)
  from loadsD [OF _ this] j(2) x(1) obtain m' where m': "read_stream (json_io half J) (Some x) ?stub = (Inr (), m')"
    and m'_of: "map_of m' = (\<lambda>n. if map_of (entries_of st) n \<noteq> None \<and> map_of ?stub n \<noteq> None then map_of (entries_of st) n else map_of ?stub n)"
    by blast
  show ?thesis
  proof (cases "map_of (entries_of st) name")
    case None
    with m' fun_cong [OF m'_of, of name] x(2) st0 new show ?thesis by (simp add: declareImpl_def map_of_omap_set Let_def)
  next
    case (Some e)
    with same obtain v where e: "e = \<lparr>mv_value = Some (type_id T, v), mv_assembler = Some T\<rparr>" by (cases e) auto
    with Some m' fun_cong [OF m'_of, of name] x(2) st0 new show ?thesis by (simp add: declareImpl_def map_of_omap_set omap_inv_set Let_def)
  qed
qed

text \<open>Declaring a type again under a second name, which the guards of \<open>declareImpl\<close> let pass, leaves
  a setting that has no assembler: until it is undeclared, every save fails with an exception before
  it opens the file, whatever the other settings, and so does \<open>graph\<close>.\<close>

theorem second_name_blocks_saving:
  assumes "isTypeDeclared (type_id T) st" "\<not> isNameDeclared name st" "omap_inv (entries_of st)"
  shows "\<exists>st1. declareImpl io dk T ref name useRef st = (Inr (), st1) \<and>
    (\<forall>p s dk1. \<exists>x s1. settings_serialize io p s st1 dk1 = (Inl x, s1, dk1)) \<and>
    (\<exists>x. settings_graph (entries_of st1) = Inl x)"
proof -
  let ?m = "omap_set name \<lparr>mv_value = Some (type_id T, ref), mv_assembler = None\<rparr> (entries_of st)"
  have d: "declareImpl io dk T ref name useRef st = (Inr (), st\<lparr>entries_of := ?m\<rparr>)"
    using assms(1,2) by (simp add: declareImpl_def isNameDeclared_def)
  have "map_of ?m name = Some \<lparr>mv_value = Some (type_id T, ref), mv_assembler = None\<rparr>"
    using assms(3) by (simp add: map_of_omap_set)
  from map_of_SomeD [OF this] have bad: "list_ex (\<lambda>p. mv_assembler (snd p) = None) ?m" by (force simp: list_ex_iff)
  have "\<exists>x s1. settings_serialize io p s (st\<lparr>entries_of := ?m\<rparr>) dk1 = (Inl x, s1, dk1)" for p s dk1
  proof -
    from unassembled_serialize [OF bad] obtain x s1 where "map_serialize (half_written io) ?m s = (Inl x, s1)" by blast
    then have "map_serialize (half_written io) (entries_of (st\<lparr>entries_of := ?m\<rparr>)) s = (Inl x, s1)" by simp
    from serialize_failed [OF this] show ?thesis by blast
  qed
  moreover have "\<exists>x. settings_graph ?m = Inl x"
    using unassembled_graph [OF bad, of 0] by (auto simp: settings_graph_def)
  ultimately show ?thesis using d by (intro exI [of _ "st\<lparr>entries_of := ?m\<rparr>"]) auto
qed

text \<open>A type of the program, a setting of it, and settings with a file.\<close>

abbreviation "half_as_is \<equiv> \<lambda>_ _ _ j. j"
abbreviation "text_type i t \<equiv> json_type_of text_lib 9 exact_conv i t"
abbreviation "text_setting i t v \<equiv> \<lparr>mv_value = Some (i, v), mv_assembler = Some (text_type i t)\<rparr>"

lemma settings_stay_typed_witness:
  "\<exists>w. access 2 (snd (declareImpl (json_io half_as_is text_lib) \<lparr>contents = \<lambda>_. Some [], creatable = \<lambda>_. True\<rparr> (text_type 2 TBool) (NBool True)
      ''xx'' False (setDefaultParameters ''/f'' True None settings_new))) = Inr w"
proof -
  let ?nm = "\<lambda>i. replicate i CHR ''x''"
  let ?st = "setDefaultParameters ''/f'' True None settings_new"
  have "inj ?nm" by (rule injI) (metis length_replicate)
  moreover have "settings_ok ?nm ?st" by (simp add: settings_new_def setDefaultParameters_def settings_ok_def)
  moreover have "?nm (type_id (text_type 2 TBool)) = ''xx''" "type_id (text_type 2 TBool) = 2"
    by (simp_all add: json_type_of_def numeral_2_eq_2)
  ultimately show ?thesis using settings_stay_typed [of ?nm ?st "text_type 2 TBool" "''xx''"] by metis
qed

lemma text_keeps:
  "wf_ty (\<lambda>_. True) (json_prim (\<lambda>_ :: int. True)) t \<Longrightarrow> ok_el (store False (\<lambda>_. True) (json_prim (\<lambda>_. True)) 9 exact_conv t) v \<Longrightarrow>
    sol_el (store False (\<lambda>_. True) (json_prim (\<lambda>_. True)) 9 exact_conv t) v \<Longrightarrow> json_keeps text_lib (\<lambda>_. True) 9 exact_conv (text_setting i t v)"
  unfolding json_keeps_def by blast

abbreviation "text_st b s \<equiv> settings_new\<lparr>entries_of := [(''on'', text_setting 1 TBool (NBool b)), (''user'', text_setting 2 TStr (NStr s))]\<rparr>"
abbreviation "text_disk \<equiv> \<lparr>contents = \<lambda>_. None, creatable = \<lambda>p. p = ''/f''\<rparr>"

lemma text_st_keeps:
  "omap_inv (entries_of (text_st b s))" "\<forall>(n, e) \<in> set (entries_of (text_st b s)). json_keeps text_lib (\<lambda>_. True) 9 exact_conv e"
  by (auto simp: omap_inv_def less_char_def json_prim_def lift_spec_def prim_spec_def intro!: text_keeps)

lemma settings_roundtrip_witness:
  "\<exists>j dk. settings_serialize (json_io half_as_is text_lib) ''/f'' (JObj []) (text_st True ''me'') text_disk = (Inr (), j, dk) \<and>
    settings_deserialize (json_io half_as_is text_lib) ''/f'' dk (text_st False []) =
      (Inr (), (text_st False [])\<lparr>entries_of := entries_of (text_st True ''me'')\<rparr>)"
proof -
  have "\<forall>n. map_option mv_assembler (map_of (entries_of (text_st False [])) n) =
      map_option mv_assembler (map_of (entries_of (text_st True ''me'')) n)" by simp
  from settings_roundtrip [OF texts.json_texts_axioms text_st_keeps text_st_keeps(1) this, where dk = text_disk and p = "''/f''" and half = half_as_is]
  show ?thesis by (auto simp: text_lib_def)
qed

text \<open>A fresh program with the default file declares the user with an empty name.\<close>

abbreviation "text_new \<equiv> setDefaultParameters ''/f'' True (None :: int jtree option) settings_new"

lemma declare_restores_witness:
  "\<exists>j dk st1. settings_serialize (json_io half_as_is text_lib) ''/f'' (JObj []) (text_st True ''me'') text_disk = (Inr (), j, dk) \<and>
    declareImpl (json_io half_as_is text_lib) dk (text_type 2 TStr) (NStr []) ''user'' False text_new = (Inr (), st1) \<and>
    map_of (entries_of st1) ''user'' = Some (text_setting 2 TStr (NStr ''me''))"
proof -
  have obj: "j_object text_lib = JObj []" by (simp add: text_lib_def)
  from texts.json_table [OF text_st_keeps] obj obtain j where
    "map_serialize half_as_is (entries_of (text_st True ''me'')) (JObj []) = (Inr (), j)" by metis
  moreover have "creatable text_disk ''/f''" by simp
  ultimately obtain dk where dk: "settings_serialize (json_io half_as_is text_lib) ''/f'' (JObj []) (text_st True ''me'') text_disk = (Inr (), j, dk)"
    by (simp add: serialize_written [where half = half_as_is] text_lib_def)
  note new = settings_new_def setDefaultParameters_def isTypeDeclared_def isNameDeclared_def
  have s: "omap_inv (entries_of text_new)" "default_path text_new = ''/f''" "''/f'' \<noteq> []" "has_deserializer text_new"
    and n: "\<not> isTypeDeclared (type_id (text_type 2 TStr)) text_new" "\<not> isNameDeclared ''user'' text_new"
    by (simp_all add: new)
  have same: "\<forall>e. map_of (entries_of (text_st True ''me'')) ''user'' = Some e \<longrightarrow>
      mv_assembler e = Some (text_type 2 TStr) \<and> map_option fst (mv_value e) = Some (type_id (text_type 2 TStr))"
    by (simp add: json_type_of_def)
  from declare_restores [OF texts.json_texts_axioms text_st_keeps dk [folded obj] s n same, of "NStr []" False]
  obtain st1 where "declareImpl (json_io half_as_is text_lib) dk (text_type 2 TStr) (NStr []) ''user'' False text_new = (Inr (), st1)"
    "map_of (entries_of st1) ''user'' = Some (text_setting 2 TStr (NStr ''me''))" by auto
  with dk show ?thesis by blast
qed

lemma second_name_blocks_saving_witness:
  "\<exists>st1. declareImpl (json_io half_as_is text_lib) text_disk (text_type 1 TBool) (NBool True) ''other'' False (text_st True ''me'') = (Inr (), st1) \<and>
    (\<exists>x s1. settings_serialize (json_io half_as_is text_lib) ''/f'' (JObj []) st1 text_disk = (Inl x, s1, text_disk))"
proof -
  have "isTypeDeclared (type_id (text_type 1 TBool)) (text_st True ''me'')" "\<not> isNameDeclared ''other'' (text_st True ''me'')"
    by (simp_all add: isTypeDeclared_def isNameDeclared_def json_type_of_def)
  from second_name_blocks_saving [OF this text_st_keeps(1), of "json_io half_as_is text_lib" text_disk "NBool True" False]
  show ?thesis by blast
qed

end
