(* ===== verification/SdBus.thy ===== *)
theory SdBus
  imports Any Containers
begin

text \<open>
  \<open>sd_bus.cc\<close>: properties that a server keeps and clients read and write over D-Bus.  The bus is
  \<open>libsystemd\<close>: its messages are of any type \<open>'m\<close>, read by the operations of \<open>bus_messages\<close>, and a
  call is a parameter.  The locales \<open>bus_library\<close> and \<open>bus_delivery\<close> say what is relied on.
\<close>

section \<open>Values on the bus\<close>

datatype sd_type =
    KInt64 | KUInt64 | KInt32 | KUInt32 | KInt16 | KUInt16 | KInt8 | KUInt8 | KBool | KString | KUndefined

fun sd_number :: "sd_type \<Rightarrow> int" where
  "sd_number KInt64 = 0" | "sd_number KUInt64 = 1" | "sd_number KInt32 = 2" | "sd_number KUInt32 = 3"
| "sd_number KInt16 = 4" | "sd_number KUInt16 = 5" | "sd_number KInt8 = 6" | "sd_number KUInt8 = 7"
| "sd_number KBool = 8" | "sd_number KString = 9" | "sd_number KUndefined = 10"

text \<open>A number that is no enumerator is treated as \<open>kUndefined\<close>, by the defaults of the switches.\<close>

definition sd_type_of :: "int \<Rightarrow> sd_type" where
  "sd_type_of n = (case find (\<lambda>t. sd_number t = n)
       [KInt64, KUInt64, KInt32, KUInt32, KInt16, KUInt16, KInt8, KUInt8, KBool, KString] of
     Some t \<Rightarrow> t | None \<Rightarrow> KUndefined)"

fun sd_cpp_type :: "sd_type \<Rightarrow> cpp_type" where
  "sd_cpp_type KInt64 = TyInt64" | "sd_cpp_type KUInt64 = TyUInt64" | "sd_cpp_type KInt32 = TyInt32"
| "sd_cpp_type KUInt32 = TyUInt32" | "sd_cpp_type KInt16 = TyInt16" | "sd_cpp_type KUInt16 = TyUInt16"
| "sd_cpp_type KInt8 = TyInt8" | "sd_cpp_type KUInt8 = TyUInt8" | "sd_cpp_type KBool = TyBool"
| "sd_cpp_type KString = TyString" | "sd_cpp_type KUndefined = TyVoid"

fun sd_signature :: "sd_type \<Rightarrow> char" where
  "sd_signature KInt64 = CHR ''x''" | "sd_signature KUInt64 = CHR ''t''" | "sd_signature KInt32 = CHR ''i''"
| "sd_signature KUInt32 = CHR ''u''" | "sd_signature KInt16 = CHR ''n''" | "sd_signature KUInt16 = CHR ''q''"
| "sd_signature KInt8 = CHR ''y''" | "sd_signature KUInt8 = CHR ''y''" | "sd_signature KBool = CHR ''b''"
| "sd_signature KString = CHR ''s''" | "sd_signature KUndefined = CHR ''s''"

text \<open>What a variant holds: a number of the type its signature gives, or a text.\<close>

datatype bus_data = DInt int | DText string
datatype bus_arg = AString string | AByte int | AVariant char bus_data

text \<open>The arguments, after the promotion of \<open>int8_t\<close> to \<open>int\<close> and the conversion to the byte \<open>y\<close>
  takes; and the value of the variable \<open>sd_bus_message_read\<close> writes to.  For the signature \<open>b\<close> it
  writes an \<open>int\<close> (documented), but the variable is a \<open>bool\<close> of one byte, so that nothing can be
  said of its value, nor of what is behind it.\<close>

fun to_wire :: "'u cpp_value \<Rightarrow> bus_data" where
  "to_wire (VInt64 i) = DInt i" | "to_wire (VUInt64 i) = DInt i" | "to_wire (VInt32 i) = DInt i"
| "to_wire (VUInt32 i) = DInt i" | "to_wire (VInt16 i) = DInt i" | "to_wire (VUInt16 i) = DInt i"
| "to_wire (VInt8 i) = DInt (i mod 256)" | "to_wire (VUInt8 i) = DInt (i mod 256)"
| "to_wire (VBool b) = DInt (if b then 1 else 0)" | "to_wire (VString s) = DText (c_str s)"
| "to_wire _ = DText []"

fun of_wire :: "sd_type \<Rightarrow> bus_data \<Rightarrow> 'u cpp_value option" where
  "of_wire KInt64 (DInt i) = Some (VInt64 i)" | "of_wire KUInt64 (DInt i) = Some (VUInt64 i)"
| "of_wire KInt32 (DInt i) = Some (VInt32 i)" | "of_wire KUInt32 (DInt i) = Some (VUInt32 i)"
| "of_wire KInt16 (DInt i) = Some (VInt16 i)" | "of_wire KUInt16 (DInt i) = Some (VUInt16 i)"
| "of_wire KInt8 (DInt i) = Some (VInt8 ((i + 128) mod 256 - 128))" | "of_wire KUInt8 (DInt i) = Some (VUInt8 i)"
| "of_wire KString (DText s) = Some (VString s)"
| "of_wire _ _ = None"

definition getAnyType :: "'u any \<Rightarrow> sd_type" where
  "getAnyType val = (case find (\<lambda>t. any_type val = sd_cpp_type t)
       [KInt64, KUInt64, KInt32, KUInt32, KInt16, KUInt16, KInt8, KUInt8, KBool, KString] of
     Some t \<Rightarrow> t | None \<Rightarrow> KUndefined)"

text \<open>The cases of the switches: \<open>typeVal\<close>, the signature of the variant and its value.\<close>

definition variant_args :: "sd_type \<Rightarrow> 'u any \<Rightarrow> cpp_error + bus_arg list" where
  "variant_args t val = (case any_cast (sd_cpp_type t) val of
       Inl e \<Rightarrow> Inl e | Inr v \<Rightarrow> Inr [AByte (sd_number t), AVariant (sd_signature t) (to_wire v)])"

section \<open>Reading messages\<close>

text \<open>\<open>sd_bus_message_read\<close> of an \<open>s\<close>, a \<open>y\<close>, and a \<open>v\<close> of a signature: the result, the value if the
  variable is set, and the message with its position moved.\<close>

record 'm bus_messages =
  read_string :: "'m \<Rightarrow> int \<times> string option \<times> 'm"
  read_byte :: "'m \<Rightarrow> int \<times> int option \<times> 'm"
  read_variant :: "char \<Rightarrow> 'm \<Rightarrow> int \<times> bus_data option \<times> 'm"

text \<open>The variable is used even when it has not been set.\<close>

definition callSdbusMessageRead :: "'m bus_messages \<Rightarrow> sd_type \<Rightarrow> 'm \<Rightarrow> cpp_error + int \<times> 'u any" where
  "callSdbusMessageRead lib t m =
     (case read_variant lib (sd_signature t) m of
        (r, None, m1) \<Rightarrow> Inl UndefinedBehaviour
      | (r, Some d, m1) \<Rightarrow> (case of_wire t d of Some v \<Rightarrow> Inr (r, any_of v) | None \<Rightarrow> Inl UndefinedBehaviour))"

lemma bool_read_undefined: "callSdbusMessageRead lib KBool m = Inl UndefinedBehaviour"
  by (auto simp: callSdbusMessageRead_def split: prod.split option.split)

section \<open>The server\<close>

record ('u, 'a) sd_bus =
  is_client :: bool
  properties :: "(string, 'u any) omap"
  listener :: 'a

text \<open>\<open>onPropertyChanged\<close> is the user's; it may throw.\<close>

type_synonym ('u, 'a) on_changed = "string \<Rightarrow> 'u any \<Rightarrow> 'u any \<Rightarrow> 'a \<Rightarrow> cpp_error option \<times> 'a"

definition propertiesManipulations :: "('u, 'a) on_changed \<Rightarrow> string \<Rightarrow> 'u any \<Rightarrow> bool \<Rightarrow> ('u, 'a) sd_bus \<Rightarrow>
    (cpp_error + bool \<times> 'u any) \<times> ('u, 'a) sd_bus" where
  "propertiesManipulations cb key val mode s =
     (case map_of (properties s) key of
        Some old \<Rightarrow>
          if mode
          then (let s1 = s\<lparr>properties := omap_set key val (properties s)\<rparr>
                in case cb key old val (listener s) of
                     (None, a) \<Rightarrow> (Inr (True, val), s1\<lparr>listener := a\<rparr>)
                   | (Some e, a) \<Rightarrow> (if e = RuntimeError then Inr (False, val) else Inl e, s1\<lparr>listener := a\<rparr>))
          else (Inr (True, old), s)
      | None \<Rightarrow>
          if \<not> mode then (Inr (False, val), s)
          else (Inr (True, val), s\<lparr>properties := omap_insert key val (properties s)\<rparr>))"

text \<open>What a handler does with the call: an answer with its arguments, or an error.\<close>

datatype served = Reply "bus_arg list" | Refused int

definition ipcServerInterface :: "'m bus_messages \<Rightarrow> ('u, 'a) on_changed \<Rightarrow> 'm \<Rightarrow> string \<Rightarrow> sd_type \<Rightarrow> bool \<Rightarrow>
    ('u, 'a) sd_bus \<Rightarrow> (cpp_error + served) \<times> ('u, 'a) sd_bus" where
  "ipcServerInterface lib cb m key tval isSet s =
     (if isSet
      then (case if tval = KUndefined then Inr (0, any_empty) else callSdbusMessageRead lib tval m of
              Inl e \<Rightarrow> (Inl e, s)
            | Inr (r, val) \<Rightarrow>
                if r < 0 then (Inr (Reply []), s)
                else (case propertiesManipulations cb key val True s of
                        (Inl e, s1) \<Rightarrow> (Inl e, s1) | (Inr _, s1) \<Rightarrow> (Inr (Reply []), s1)))
      else (case propertiesManipulations cb key any_empty False s of
              (Inl e, s1) \<Rightarrow> (Inl e, s1)
            | (Inr (found, val), s1) \<Rightarrow>
                (if found \<and> any_has_value val \<and> getAnyType val \<noteq> KUndefined
                 then map_sum id Reply (variant_args (getAnyType val) val)
                 else Inr (Reply [AByte (sd_number KUndefined), AVariant CHR ''s'' (DText [])]), s1)))"

definition methodGetHandler :: "'m bus_messages \<Rightarrow> ('u, 'a) on_changed \<Rightarrow> 'm \<Rightarrow> ('u, 'a) sd_bus \<Rightarrow>
    (cpp_error + served) \<times> ('u, 'a) sd_bus" where
  "methodGetHandler lib cb m s =
     (case read_string lib m of
        (r, key, m1) \<Rightarrow>
          if r < 0 then (Inr (Refused r), s)
          else (case key of
                  None \<Rightarrow> (Inl UndefinedBehaviour, s)
                | Some k \<Rightarrow> ipcServerInterface lib cb m1 k KUndefined False s))"

definition methodSetHandler :: "'m bus_messages \<Rightarrow> ('u, 'a) on_changed \<Rightarrow> 'm \<Rightarrow> ('u, 'a) sd_bus \<Rightarrow>
    (cpp_error + served) \<times> ('u, 'a) sd_bus" where
  "methodSetHandler lib cb m s =
     (case read_string lib m of
        (r, key, m1) \<Rightarrow>
          if r < 0 then (Inr (Refused r), s)
          else (case read_byte lib m1 of
                  (r1, t, m2) \<Rightarrow>
                    if r1 < 0 then (Inr (Refused r1), s)
                    else (case key of
                            None \<Rightarrow> (Inl UndefinedBehaviour, s)
                          | Some k \<Rightarrow> ipcServerInterface lib cb m2 k
                              (case t of None \<Rightarrow> KUndefined | Some n \<Rightarrow> sd_type_of n) True s)))"

text \<open>\<open>rilserviceVtable\<close>: the handler of a method.\<close>

definition rilserviceVtable :: "'m bus_messages \<Rightarrow> ('u, 'a) on_changed \<Rightarrow>
    (string \<times> ('m \<Rightarrow> ('u, 'a) sd_bus \<Rightarrow> (cpp_error + served) \<times> ('u, 'a) sd_bus)) list" where
  "rilserviceVtable lib cb = [(''get_object'', methodGetHandler lib cb), (''set_object'', methodSetHandler lib cb)]"

section \<open>Setting and reading a property\<close>

definition EINVAL :: int where "EINVAL = 22"

text \<open>\<open>sd_bus_call_method\<close>: the result and the reply, in the world \<open>'w\<close> of the bus.\<close>

type_synonym ('m, 'w) bus_call = "string \<Rightarrow> bus_arg list \<Rightarrow> 'w \<Rightarrow> int \<times> 'm option \<times> 'w"

text \<open>Both functions are \<open>noexcept\<close>: an exception is \<open>std::terminate\<close>, here \<open>None\<close>.  The second
  component is the message the guard releases: it has copied the pointer when it was null.\<close>

definition setProperty :: "('u, 'a) on_changed \<Rightarrow> ('m, 'w) bus_call \<Rightarrow> string \<Rightarrow> 'u any \<Rightarrow> ('u, 'a) sd_bus \<Rightarrow> 'w \<Rightarrow>
    bool option \<times> 'm option \<times> ('u, 'a) sd_bus \<times> 'w" where
  "setProperty cb call key val s w =
     (if \<not> is_client s
      then (case propertiesManipulations cb key val True s of
              (Inl e, s1) \<Rightarrow> (None, None, s1, w) | (Inr _, s1) \<Rightarrow> (Some True, None, s1, w))
      else (let t = getAnyType val
            in if t = KUndefined then (Some (- EINVAL \<ge> 0), None, s, w)
               else (case variant_args t val of
                       Inl e \<Rightarrow> (None, None, s, w)
                     | Inr args \<Rightarrow> (case call ''set_object'' (AString (c_str key) # args) w of
                           (r, m, w1) \<Rightarrow> (Some (r \<ge> 0), None, s, w1)))))"

definition property :: "'m bus_messages \<Rightarrow> ('m, 'w) bus_call \<Rightarrow> string \<Rightarrow> 'w \<Rightarrow> (cpp_error + 'u any) \<times> 'm option \<times> 'w" where
  "property lib call key w =
     (case call ''get_object'' [AString (c_str key)] w of
        (r, reply, w1) \<Rightarrow>
          if r < 0 then (Inr any_empty, None, w1)
          else (case reply of
                  None \<Rightarrow> (Inl UndefinedBehaviour, None, w1)
                | Some m \<Rightarrow> (case read_byte lib m of
                      (r1, t, m1) \<Rightarrow>
                        if r1 < 0 then (Inr any_empty, None, w1)
                        else (case t of
                                None \<Rightarrow> (Inr any_empty, None, w1)
                              | Some n \<Rightarrow>
                                  if sd_type_of n = KUndefined then (Inr any_empty, None, w1)
                                  else (map_sum id snd (callSdbusMessageRead lib (sd_type_of n) m1), None, w1)))))"

section \<open>Construction, the thread of the server, destruction\<close>

text \<open>The results of opening the bus, of adding the object and of taking the name; with the exception
  or the object, whether a reference to the bus and the slot is held.  No destructor runs after an
  exception.\<close>

definition initServer :: "int \<Rightarrow> int \<Rightarrow> bool" where
  "initServer r_add r_name \<longleftrightarrow> (if r_add < 0 then False else if r_name < 0 then False else True)"

text \<open>The result of opening the bus and whether the pointer has been set by then, and the calls made:
  with the references they release.\<close>

datatype bus_release = BusUnref | WorkerJoined | SlotUnref

definition openBus :: "int \<Rightarrow> bool \<Rightarrow> bool \<times> bus_release list" where
  "openBus r bus_set = (if r < 0 then (False, if bus_set then [BusUnref] else []) else (True, []))"

definition closeBus :: "bool \<Rightarrow> bus_release list" where
  "closeBus bus_set = (if bus_set then [BusUnref] else [])"

text \<open>The destructor of an object that holds a bus and a slot, or not.  The server's thread is ended
  first, by \<open>_active\<close>.\<close>

definition sdbus_delete :: "bool \<Rightarrow> bool \<Rightarrow> bool \<Rightarrow> bus_release list" where
  "sdbus_delete actAsClient bus_set slot_set =
     (if \<not> actAsClient then [WorkerJoined] else []) @ closeBus bus_set @ (if slot_set then [SlotUnref] else [])"

definition sdbus_new :: "int \<Rightarrow> int \<Rightarrow> int \<Rightarrow> bool \<Rightarrow> 'a \<Rightarrow> (cpp_error + ('u, 'a) sd_bus) \<times> bool \<times> bool" where
  "sdbus_new r_open r_add r_name actAsClient l =
     (if r_open < 0 then (Inl RuntimeError, False, False)
      else if \<not> actAsClient \<and> \<not> initServer r_add r_name then (Inl RuntimeError, True, r_add \<ge> 0)
      else (Inr \<lparr>is_client = actAsClient, properties = [], listener = l\<rparr>, True, \<not> actAsClient))"

text \<open>The destructor releases what the constructor holds, the thread being joined before; when the
  constructor throws after the bus has been opened, nothing is released.\<close>

lemma sdbus_lifetime:
  "sdbus_new r_open r_add r_name client l = (Inr s, bus, slot) \<Longrightarrow>
     sdbus_delete (is_client s) bus slot = (if client then [BusUnref] else [WorkerJoined, BusUnref, SlotUnref])"
  "r_open \<ge> 0 \<Longrightarrow> \<not> client \<Longrightarrow> \<not> initServer r_add r_name \<Longrightarrow>
     sdbus_new r_open r_add r_name client l = (Inl RuntimeError, True, r_add \<ge> 0)"
  by (auto simp: sdbus_new_def sdbus_delete_def closeBus_def split: if_splits)

text \<open>The calls of \<open>serverWorker\<close>, each a result of \<open>sd_bus_process\<close> or \<open>sd_bus_wait\<close> with the value
  \<open>_active\<close> has when the code reads it next.  \<open>None\<close>: the worker goes on.\<close>

fun worker_process :: "(int \<times> bool) list \<Rightarrow> bool option"
  and worker_wait :: "(int \<times> bool) list \<Rightarrow> bool option" where
  "worker_process [] = None"
| "worker_process ((r, active) # es) =
     (if r < 0 then Some False
      else if r > 0 then (if active then worker_process es else Some True)
      else worker_wait es)"
| "worker_wait [] = None"
| "worker_wait ((r, active) # es) =
     (if r = 0 \<and> active then worker_wait es
      else if r < 0 then Some False
      else if active then worker_process es else Some True)"

definition serverWorker :: "(int \<times> bool) list \<Rightarrow> bool option" where
  "serverWorker es = worker_process es"

section \<open>What the bus promises\<close>

text \<open>A message made of arguments is read argument by argument; a variant of another signature is
  refused with \<open>-ENXIO\<close>, and nothing is written.\<close>

definition ENXIO :: int where "ENXIO = 6"

fun of_kind :: "char \<Rightarrow> bus_data \<Rightarrow> bool" where
  "of_kind c (DInt _) = (c \<noteq> CHR ''s'')" | "of_kind c (DText _) = (c = CHR ''s'')"

locale bus_library =
  fixes lib :: "'m bus_messages" and msg :: "bus_arg list \<Rightarrow> 'm"
  assumes string_read: "CHR 0x00 \<notin> set k \<Longrightarrow> read_string lib (msg (AString k # args)) = (1, Some k, msg args)"
    and byte_read: "0 \<le> n \<Longrightarrow> n < 256 \<Longrightarrow> read_byte lib (msg (AByte n # args)) = (1, Some n, msg args)"
    and variant_read: "of_kind c d \<Longrightarrow> read_variant lib c (msg (AVariant c d # args)) = (1, Some d, msg args)"
    and variant_refused: "c \<noteq> c' \<Longrightarrow> \<exists>m. read_variant lib c (msg (AVariant c' d # args)) = (- ENXIO, None, m)"

text \<open>A call is handed to the handler of its method and its answer handed back; \<open>'w\<close> is the server.\<close>

locale bus_delivery = bus_library lib msg
  for lib :: "'m bus_messages" and msg :: "bus_arg list \<Rightarrow> 'm" +
  fixes cb :: "('u, 'a) on_changed" and call :: "('m, ('u, 'a) sd_bus) bus_call"
  assumes answered: "map_of (rilserviceVtable lib cb) name = Some h \<Longrightarrow> h (msg args) srv = (Inr (Reply out), srv1) \<Longrightarrow>
    call name args srv = (1, Some (msg out), srv1)"

section \<open>Values survive the bus\<close>

text \<open>The values that can be read back: strings without NUL and integers of their C++ types, but no
  Booleans.\<close>

fun sendable :: "'u cpp_value \<Rightarrow> bool" where
  "sendable (VInt8 i) = (- 128 \<le> i \<and> i < 128)" | "sendable (VUInt8 i) = (0 \<le> i \<and> i < 256)"
| "sendable (VString s) = (CHR 0x00 \<notin> set s)" | "sendable (VBool _) = False" | "sendable (VDouble _) = False" | "sendable (VUser _ _) = False"
| "sendable _ = True"

lemma wire_roundtrip:
  assumes "sendable v"
  shows "of_wire (getAnyType (any_of v)) (to_wire v) = Some v"
proof (cases v)
  case (VInt8 i)
  with assms have "(i mod 256 + 128) mod 256 - 128 = i" by (simp add: mod_simps)
  with VInt8 show ?thesis by (simp add: getAnyType_def any_defs)
qed (use assms in \<open>simp_all add: getAnyType_def any_defs c_str_id\<close>)

lemma sendable_type:
  assumes "sendable v"
  shows "getAnyType (any_of v) \<noteq> KUndefined" "sd_cpp_type (getAnyType (any_of v)) = value_type v"
    "of_kind (sd_signature (getAnyType (any_of v))) (to_wire v)"
  using assms by (cases v; simp add: getAnyType_def any_defs)+

lemma sd_type_of_number [simp]: "sd_type_of (sd_number t) = t"
  by (cases t) (simp_all add: sd_type_of_def)

lemma sd_number_byte: "0 \<le> sd_number t \<and> sd_number t < 256"
  by (cases t) simp_all

lemma variant_args_of:
  assumes "sendable v"
  shows "variant_args (getAnyType (any_of v)) (any_of v) =
    Inr [AByte (sd_number (getAnyType (any_of v))), AVariant (sd_signature (getAnyType (any_of v))) (to_wire v)]"
  using sendable_type(2) [OF assms] by (simp add: variant_args_def any_cast_def any_of_def)

context bus_library
begin

lemma value_read:
  assumes "sendable v"
  shows "callSdbusMessageRead lib (getAnyType (any_of v)) (msg (AVariant (sd_signature (getAnyType (any_of v))) (to_wire v) # args)) =
    Inr (1, any_of v)"
  using variant_read [OF sendable_type(3) [OF assms]] wire_roundtrip [OF assms] by (simp add: callSdbusMessageRead_def)

end

text \<open>A callback whose exceptions \<open>propertiesManipulations\<close> catches.\<close>

definition harmless :: "('u, 'a) on_changed \<Rightarrow> bool" where
  "harmless cb \<longleftrightarrow> (\<forall>k old new l. fst (cb k old new l) \<in> {None, Some RuntimeError})"

context bus_delivery
begin

lemma stored:
  assumes "harmless cb"
  shows "\<exists>r. propertiesManipulations cb key val True srv = (Inr r,
    srv\<lparr>properties := omap_set key val (properties srv),
      listener := (case map_of (properties srv) key of None \<Rightarrow> listener srv | Some old \<Rightarrow> snd (cb key old val (listener srv)))\<rparr>)"
proof (cases "map_of (properties srv) key")
  case None
  then show ?thesis by (intro exI [of _ "(True, val)"]) (simp add: propertiesManipulations_def omap_insert_def)
next
  case (Some old)
  obtain x l where cb: "cb key old val (listener srv) = (x, l)" by fastforce
  have "fst (cb key old val (listener srv)) \<in> {None, Some RuntimeError}" using assms by (simp only: harmless_def)
  with cb have "x = None \<or> x = Some RuntimeError" by simp
  with Some cb show ?thesis by (auto simp: propertiesManipulations_def Let_def)
qed

lemma set_delivered:
  assumes "harmless cb" "sendable v" "CHR 0x00 \<notin> set key"
  shows "call ''set_object'' (AString key # [AByte (sd_number (getAnyType (any_of v))),
      AVariant (sd_signature (getAnyType (any_of v))) (to_wire v)]) srv =
    (1, Some (msg []), srv\<lparr>properties := omap_set key (any_of v) (properties srv),
      listener := (case map_of (properties srv) key of None \<Rightarrow> listener srv | Some old \<Rightarrow> snd (cb key old (any_of v) (listener srv)))\<rparr>)"
proof (rule answered [where h = "methodSetHandler lib cb"])
  from stored [OF assms(1)] obtain r where
    "propertiesManipulations cb key (any_of v) True srv = (Inr r, srv\<lparr>properties := omap_set key (any_of v) (properties srv),
      listener := (case map_of (properties srv) key of None \<Rightarrow> listener srv | Some old \<Rightarrow> snd (cb key old (any_of v) (listener srv)))\<rparr>)" by blast
  with string_read [OF assms(3)] value_read [OF assms(2)] byte_read [OF sd_number_byte [THEN conjunct1] sd_number_byte [THEN conjunct2]]
    sendable_type(1) [OF assms(2)]
  show "methodSetHandler lib cb (msg [AString key, AByte (sd_number (getAnyType (any_of v))),
      AVariant (sd_signature (getAnyType (any_of v))) (to_wire v)]) srv = (Inr (Reply []),
      srv\<lparr>properties := omap_set key (any_of v) (properties srv),
        listener := (case map_of (properties srv) key of None \<Rightarrow> listener srv | Some old \<Rightarrow> snd (cb key old (any_of v) (listener srv)))\<rparr>)"
    by (simp add: methodSetHandler_def ipcServerInterface_def)
qed (simp add: rilserviceVtable_def)

lemma set_property:
  assumes "harmless cb" "sendable v" "CHR 0x00 \<notin> set key" "is_client s"
  shows "setProperty cb call key (any_of v) s srv = (Some True, None, s, srv\<lparr>properties := omap_set key (any_of v) (properties srv),
      listener := (case map_of (properties srv) key of None \<Rightarrow> listener srv | Some old \<Rightarrow> snd (cb key old (any_of v) (listener srv)))\<rparr>)"
  using set_delivered [OF assms(1-3)] sendable_type(1) [OF assms(2)] assms(3,4)
  by (simp add: setProperty_def variant_args_of [OF assms(2)] c_str_id)

lemma get_property:
  assumes "map_of (properties srv) key = Some (any_of v)" "sendable v" "CHR 0x00 \<notin> set key"
  shows "property lib call key srv = (Inr (any_of v), None, srv)"
proof -
  let ?t = "getAnyType (any_of v)"
  have "methodGetHandler lib cb (msg [AString key]) srv =
      (Inr (Reply [AByte (sd_number ?t), AVariant (sd_signature ?t) (to_wire v)]), srv)"
    using string_read [OF assms(3)] assms(1) sendable_type(1) [OF assms(2)] variant_args_of [OF assms(2)]
    by (simp add: methodGetHandler_def ipcServerInterface_def propertiesManipulations_def any_has_value_def any_of_def)
  from answered [where name = "''get_object''" and h = "methodGetHandler lib cb", OF _ this] have "call ''get_object'' [AString key] srv =
      (1, Some (msg [AByte (sd_number ?t), AVariant (sd_signature ?t) (to_wire v)]), srv)"
    by (simp add: rilserviceVtable_def)
  with value_read [OF assms(2)] byte_read [OF sd_number_byte [THEN conjunct1] sd_number_byte [THEN conjunct2]]
    sendable_type(1) [OF assms(2)] assms(3)
  show ?thesis by (simp add: property_def c_str_id)
qed

lemma get_missing:
  assumes "map_of (properties srv) key = None \<or> (\<exists>a. map_of (properties srv) key = Some a \<and> getAnyType a = KUndefined)"
    "CHR 0x00 \<notin> set key"
  shows "property lib call key srv = (Inr any_empty, None, srv)"
proof -
  have "methodGetHandler lib cb (msg [AString key]) srv =
      (Inr (Reply [AByte (sd_number KUndefined), AVariant CHR ''s'' (DText [])]), srv)"
    using string_read [OF assms(2)] assms(1)
    by (auto simp: methodGetHandler_def ipcServerInterface_def propertiesManipulations_def)
  from answered [where name = "''get_object''" and h = "methodGetHandler lib cb", OF _ this] have "call ''get_object'' [AString key] srv =
      (1, Some (msg [AByte (sd_number KUndefined), AVariant CHR ''s'' (DText [])]), srv)"
    by (simp add: rilserviceVtable_def)
  with byte_read [of "sd_number KUndefined"] assms(2) show ?thesis by (simp add: property_def c_str_id sd_type_of_def)
qed

end

section \<open>Properties\<close>

text \<open>C13: A client that sets a property to an integer of one of the eight types or to a string without
  NUL, and reads it back, gets the same value with its type, and the server has told its listener
  about the change exactly when the property was there before, with the old and the new value; no
  other property changes.  The bus delivers every call, the key has no NUL and the listener throws
  at most what the server catches.  (The guard of each call releases the null pointer it has
  copied, not the reply.)\<close>

theorem sdbus_roundtrip:
  assumes bus: "bus_delivery lib msg cb call" and cb: "harmless cb"
    and v: "sendable v" "CHR 0x00 \<notin> set key" and s: "is_client s" "omap_inv (properties srv)"
  shows "\<exists>srv1. setProperty cb call key (any_of v) s srv = (Some True, None, s, srv1) \<and>
    map_of (properties srv1) = (map_of (properties srv))(key \<mapsto> any_of v) \<and>
    listener srv1 = (case map_of (properties srv) key of
       None \<Rightarrow> listener srv | Some old \<Rightarrow> snd (cb key old (any_of v) (listener srv))) \<and>
    property lib call key srv1 = (Inr (any_of v), None, srv1)"
proof (intro exI conjI)
  let ?srv = "srv\<lparr>properties := omap_set key (any_of v) (properties srv),
      listener := (case map_of (properties srv) key of None \<Rightarrow> listener srv | Some old \<Rightarrow> snd (cb key old (any_of v) (listener srv)))\<rparr>"
  show "setProperty cb call key (any_of v) s srv = (Some True, None, s, ?srv)"
    by (rule bus_delivery.set_property [OF bus cb v s(1)])
  show m: "map_of (properties ?srv) = (map_of (properties srv))(key \<mapsto> any_of v)" using s(2) by (simp add: map_of_omap_set)
  show "property lib call key ?srv = (Inr (any_of v), None, ?srv)"
    by (rule bus_delivery.get_property [OF bus _ v]) (simp only: m, simp)
qed simp

text \<open>C40: What cannot cross the bus is refused or empty: a client does not send a value of another type
  and reports failure; a property that is not there, or that the server itself has set to such a
  value, is read as an empty box.  But a message whose variant is not of the type its byte announces,
  which any program on the bus may send, makes the server use a variable that was never set, and one
  with a Boolean makes \<open>sd_bus_message_read\<close> write an \<open>int\<close> to a variable of one byte.\<close>

theorem sdbus_refuses:
  fixes cb :: "('u, 'a) on_changed"
  assumes bus: "bus_delivery lib msg cb call" and k: "CHR 0x00 \<notin> set key"
  shows "(is_client s \<and> getAnyType a = KUndefined \<longrightarrow> setProperty cb call key a s srv = (Some False, None, s, srv)) \<and>
    ((\<forall>a. map_of (properties srv) key = Some a \<longrightarrow> getAnyType a = KUndefined) \<longrightarrow>
      property lib call key srv = (Inr (any_empty :: 'u any), None, srv)) \<and>
    (t \<noteq> KUndefined \<and> c \<noteq> sd_signature t \<longrightarrow>
      methodSetHandler lib cb (msg [AString key, AByte (sd_number t), AVariant c d]) srv = (Inl UndefinedBehaviour, srv)) \<and>
    methodSetHandler lib cb (msg [AString key, AByte (sd_number KBool), AVariant CHR ''b'' (DInt n)]) srv = (Inl UndefinedBehaviour, srv)"
proof (intro conjI impI)
  show "setProperty cb call key a s srv = (Some False, None, s, srv)" if "is_client s \<and> getAnyType a = KUndefined"
    using that by (simp add: setProperty_def EINVAL_def)
  show "property lib call key srv = (Inr (any_empty :: 'u any), None, srv)"
    if "\<forall>a. map_of (properties srv) key = Some a \<longrightarrow> getAnyType a = KUndefined"
    by (rule bus_delivery.get_missing [OF bus _ k]) (use that in \<open>cases "map_of (properties srv) key"; simp\<close>)
  show "methodSetHandler lib cb (msg [AString key, AByte (sd_number KBool), AVariant CHR ''b'' (DInt n)]) srv = (Inl UndefinedBehaviour, srv)"
    using bus_library.string_read [OF bus_delivery.axioms(1) [OF bus] k]
      bus_library.byte_read [OF bus_delivery.axioms(1) [OF bus], of "sd_number KBool"] sd_number_byte [of KBool]
    by (simp add: methodSetHandler_def ipcServerInterface_def bool_read_undefined del: sd_number.simps)
next
  assume t: "t \<noteq> KUndefined \<and> c \<noteq> sd_signature t"
  note lib = bus_delivery.axioms(1) [OF bus]
  from bus_library.variant_refused [OF lib, of "sd_signature t" c d "[]"] t obtain m where
    "read_variant lib (sd_signature t) (msg [AVariant c d]) = (- ENXIO, None, m)" by auto
  with bus_library.string_read [OF lib k] bus_library.byte_read [OF lib, of "sd_number t"] sd_number_byte [of t] t
  show "methodSetHandler lib cb (msg [AString key, AByte (sd_number t), AVariant c d]) srv = (Inl UndefinedBehaviour, srv)"
    by (simp add: methodSetHandler_def ipcServerInterface_def callSdbusMessageRead_def)
qed

lemma worker_ends:
  "\<forall>p \<in> set es. \<not> snd p \<Longrightarrow> 2 \<le> length es \<Longrightarrow> worker_process (pre @ es) \<noteq> None"
  "\<forall>p \<in> set es. \<not> snd p \<Longrightarrow> 2 \<le> length es \<Longrightarrow> worker_wait (pre @ es) \<noteq> None"
proof (induction pre and pre rule: worker_process_worker_wait.induct)
  case 1
  then obtain r1 a1 r2 a2 es' where "es = (r1, a1) # (r2, a2) # es'"
    by (cases es; cases "tl es") auto
  with 1 show ?case by auto
next
  case 3
  then obtain r a es' where "es = (r, a) # es'" by (cases es) auto
  with 3 show ?case by auto
qed (use Suc_le_mono in auto)

text \<open>The thread of the server ends: once \<open>_active\<close> is false it returns after at most two more calls of
  the bus, so that the join of the destructor returns; otherwise only an error of the bus ends it.\<close>

theorem server_worker_stops:
  "((\<forall>p \<in> set es. \<not> snd p) \<and> 2 \<le> length es \<longrightarrow> serverWorker (pre @ es) \<noteq> None) \<and>
    (serverWorker es = Some True \<longrightarrow> (\<exists>p \<in> set es. \<not> snd p)) \<and>
    (serverWorker es = Some False \<longrightarrow> (\<exists>p \<in> set es. fst p < 0))"
proof -
  have "(worker_process es = Some True \<longrightarrow> (\<exists>p \<in> set es. \<not> snd p)) \<and> (worker_process es = Some False \<longrightarrow> (\<exists>p \<in> set es. fst p < 0))"
    "(worker_wait es = Some True \<longrightarrow> (\<exists>p \<in> set es. \<not> snd p)) \<and> (worker_wait es = Some False \<longrightarrow> (\<exists>p \<in> set es. fst p < 0))"
    by (induction es and es rule: worker_process_worker_wait.induct) auto
  with worker_ends(1) show ?thesis by (simp add: serverWorker_def)
qed

lemma server_worker_stops_witness: "serverWorker [(1, True), (0, True), (0, True), (0, False)] \<noteq> None"
  using server_worker_stops [of "[(0, False), (0, False)]" "[(1, True), (0, True), (0, True)]"] by (simp add: serverWorker_def)

section \<open>A bus that keeps the promises\<close>

text \<open>Messages are the arguments that are left; a call runs the handler at once.\<close>

fun list_string :: "bus_arg list \<Rightarrow> int \<times> string option \<times> bus_arg list" where
  "list_string (AString k # args) = (1, Some k, args)" | "list_string args = (- ENXIO, None, args)"

fun list_byte :: "bus_arg list \<Rightarrow> int \<times> int option \<times> bus_arg list" where
  "list_byte (AByte n # args) = (1, Some n, args)" | "list_byte args = (- ENXIO, None, args)"

fun list_variant :: "char \<Rightarrow> bus_arg list \<Rightarrow> int \<times> bus_data option \<times> bus_arg list" where
  "list_variant c (AVariant c' d # args) = (if c = c' then (1, Some d, args) else (- ENXIO, None, AVariant c' d # args))"
| "list_variant c args = (- ENXIO, None, args)"

definition list_bus :: "bus_arg list bus_messages" where
  "list_bus = \<lparr>read_string = list_string, read_byte = list_byte, read_variant = list_variant\<rparr>"

text \<open>A refusal is a negative result; an exception of a handler does not return.\<close>

definition list_call :: "('u, 'a) on_changed \<Rightarrow> (bus_arg list, ('u, 'a) sd_bus) bus_call" where
  "list_call cb name args srv =
     (case map_of (rilserviceVtable list_bus cb) name of
        None \<Rightarrow> (- EINVAL, None, srv)
      | Some h \<Rightarrow> (case h args srv of
            (Inr (Reply out), srv1) \<Rightarrow> (1, Some out, srv1)
          | (Inr (Refused r), srv1) \<Rightarrow> (r, None, srv1)
          | (Inl e, srv1) \<Rightarrow> (- EINVAL, None, srv1)))"

interpretation lists: bus_delivery list_bus "\<lambda>args. args" cb "list_call cb" for cb
  by unfold_locales (auto simp: list_bus_def list_call_def)

definition count_changes :: "(unit, nat) on_changed" where
  "count_changes k old new n = (None, Suc n)"

abbreviation "bus_server \<equiv> \<lparr>is_client = False, properties = [(''k'', any_of (VInt32 0))], listener = 0\<rparr>"
abbreviation "bus_client \<equiv> \<lparr>is_client = True, properties = [], listener = 0\<rparr>"

lemma sdbus_roundtrip_witness:
  "\<exists>srv1. setProperty count_changes (list_call count_changes) ''k'' (any_of (VInt8 (- 3))) bus_client bus_server =
      (Some True, None, bus_client, srv1) \<and> listener srv1 = 1 \<and>
    property list_bus (list_call count_changes) ''k'' srv1 = (Inr (any_of (VInt8 (- 3) :: unit cpp_value)), None, srv1)"
proof -
  have "harmless count_changes" by (simp add: harmless_def count_changes_def)
  from sdbus_roundtrip [OF lists.bus_delivery_axioms this, of "VInt8 (- 3)" "''k''" bus_client bus_server]
  show ?thesis by (auto simp: count_changes_def omap_inv_def)
qed

lemma sdbus_refuses_witness:
  "setProperty count_changes (list_call count_changes) ''k'' (any_of (VUser 0 ())) bus_client bus_server = (Some False, None, bus_client, bus_server) \<and>
    property list_bus (list_call count_changes) ''j'' bus_server = (Inr (any_empty :: unit any), None, bus_server) \<and>
    methodSetHandler list_bus count_changes [AString ''k'', AByte 9, AVariant CHR ''i'' (DInt 5)] bus_server = (Inl UndefinedBehaviour, bus_server)"
proof -
  have nul: "CHR 0x00 \<notin> set ''k''" "CHR 0x00 \<notin> set ''j''" by simp_all
  have t: "getAnyType (any_of (VUser 0 ())) = KUndefined" by (simp add: getAnyType_def any_defs)
  note r = sdbus_refuses [OF lists.bus_delivery_axioms]
  from r [OF nul(1), of bus_client "any_of (VUser 0 ())" count_changes bus_server KString "CHR ''i''" "DInt 5"]
    r [OF nul(2), of bus_client "any_of (VUser 0 ())" count_changes bus_server KString "CHR ''i''" "DInt 5"] t
  show ?thesis by simp
qed

end
