(* ===== verification/Curl.thy ===== *)
theory Curl
  imports Stdutils Containers
begin

text \<open>
  \<open>curl_helper.cc\<close>: HTTP requests with \<open>libcurl\<close>.  The library is a parameter: \<open>curl_easy_escape\<close>,
  and \<open>curl_easy_perform\<close> as what a transfer brings, handed to the callbacks of the class.
\<close>

section \<open>The state of a helper\<close>

text \<open>\<open>header_list\<close> is the \<open>curl_slist\<close>, \<open>None\<close> for the null pointer; the handle is never null.  It outlives the
  requests, and with it the option \<open>CURLOPT_HTTPHEADER\<close>, a pointer to a list that may have been freed.\<close>

datatype list_option = NoList | SetList "string list" | FreedList

record curl_helper =
  url :: string
  has_params :: bool
  verbose :: bool
  header_list :: "string list option"
  httpheader :: list_option
  cookies_repo :: "(string, string) omap"
  resp_bytes :: string
  resp_headers :: string
  headers_list :: "(string, string) omap"
  curl_error :: int

definition curl_new :: "string \<Rightarrow> curl_helper" where
  "curl_new u = \<lparr>url = u, has_params = False, verbose = False, header_list = None, httpheader = NoList, cookies_repo = [],
     resp_bytes = [], resp_headers = [], headers_list = [], curl_error = 0\<rparr>"

definition setVerbose :: "bool \<Rightarrow> curl_helper \<Rightarrow> curl_helper" where
  "setVerbose mode s = s\<lparr>verbose := mode\<rparr>"

definition addRequestParam :: "(string \<Rightarrow> string option) \<Rightarrow> string \<Rightarrow> string \<Rightarrow> curl_helper \<Rightarrow> curl_helper" where
  "addRequestParam escape name value s =
     (if url s = [] \<or> name = [] \<or> value = [] then s
      else (case escape value of
              None \<Rightarrow> s
            | Some encoded \<Rightarrow> s\<lparr>url := url s @ (if has_params s then ''&'' else ''?'') @ name @ ''='' @ encoded,
                has_params := True\<rparr>))"

definition addRequestHeader :: "string \<Rightarrow> string \<Rightarrow> curl_helper \<Rightarrow> curl_helper" where
  "addRequestHeader name value s =
     s\<lparr>header_list := Some ((case header_list s of None \<Rightarrow> [] | Some hs \<Rightarrow> hs) @ [c_str name @ '': '' @ c_str value])\<rparr>"

section \<open>Cookies\<close>

definition MAX_COOKIES_SIZE :: nat where "MAX_COOKIES_SIZE = 10000"

definition cookies_size :: "(string, string) omap \<Rightarrow> nat" where
  "cookies_size m = sum_list (map (\<lambda>(k, v). length k + length v) m)"

text \<open>A line of the Netscape cookie file; fields 5 and 6 are read without looking whether they are
  there.\<close>

definition deserialize_cookie :: "string \<Rightarrow> curl_helper \<Rightarrow> cpp_error + curl_helper" where
  "deserialize_cookie data s =
     (case data of
        [] \<Rightarrow> Inl OutOfRange
      | c # _ \<Rightarrow>
          if c = CHR ''#'' \<and> CHR 0x0A \<notin> set data then Inr s
          else (let tmp = string_split data (CHR 0x09)
                in if length tmp \<le> 6 then Inl UndefinedBehaviour
                   else Inr (if cookies_size (cookies_repo s) + length (tmp ! 6) + length (tmp ! 5) \<le> MAX_COOKIES_SIZE
                             then s\<lparr>cookies_repo := omap_insert (tmp ! 5) (tmp ! 6) (cookies_repo s)\<rparr> else s)))"

definition serialize_cookies :: "curl_helper \<Rightarrow> string" where
  "serialize_cookies s = concat (map (\<lambda>(k, v). c_str k @ ''='' @ c_str v @ ''; '') (cookies_repo s))"

definition setCookies :: "(string, string) omap \<Rightarrow> curl_helper \<Rightarrow> curl_helper" where
  "setCookies m s = s\<lparr>cookies_repo := m\<rparr>"

definition setCookie :: "string \<Rightarrow> string \<Rightarrow> curl_helper \<Rightarrow> curl_helper" where
  "setCookie key value s =
     (if map_of (cookies_repo s) key = Some value then s
      else if cookies_size (cookies_repo s) + length value + length key \<le> MAX_COOKIES_SIZE
      then s\<lparr>cookies_repo := omap_insert key value (cookies_repo s)\<rparr> else s)"

definition cookie :: "string \<Rightarrow> curl_helper \<Rightarrow> cpp_error + string" where
  "cookie key s = (case map_of (cookies_repo s) key of None \<Rightarrow> Inl OutOfRange | Some v \<Rightarrow> Inr v)"

section \<open>The callbacks\<close>

text \<open>\<open>rdOffset\<close> and the bytes it gives out; the sizes \<open>libcurl\<close> asks for are \<open>size * nmemb\<close>.\<close>

record upload =
  up_bytes :: string
  rd_offset :: nat

definition readDataCallback :: "nat \<Rightarrow> upload \<Rightarrow> string \<times> upload" where
  "readDataCallback n d =
     (let nread = min (length (up_bytes d) - rd_offset d) n
      in if nread = 0 then ([], d)
         else (take nread (drop (rd_offset d) (up_bytes d)), d\<lparr>rd_offset := rd_offset d + nread\<rparr>))"

definition writeDataCallback :: "string \<Rightarrow> curl_helper \<Rightarrow> nat \<times> curl_helper" where
  "writeDataCallback bytes s = (length bytes, s\<lparr>resp_bytes := resp_bytes s @ bytes\<rparr>)"

definition headerDataCallback :: "string \<Rightarrow> curl_helper \<Rightarrow> nat \<times> curl_helper" where
  "headerDataCallback bytes s = (length bytes, s\<lparr>resp_headers := resp_headers s @ bytes\<rparr>)"

section \<open>Response headers\<close>

text \<open>\<open>line.erase(line.find_last_not_of('\r') + 1)\<close>.\<close>

definition trim_cr :: "string \<Rightarrow> string" where
  "trim_cr line = rev (dropWhile (\<lambda>c. c = CHR 0x0D) (rev line))"

fun parse_lines :: "string list \<Rightarrow> bool \<Rightarrow> (string, string) omap \<Rightarrow> (cpp_error + bool) \<times> (string, string) omap" where
  "parse_lines [] rc m = (Inr rc, m)"
| "parse_lines (l # ls) rc m =
     (let line = trim_cr l
      in case find_first (\<lambda>c. c = CHR '':'') line of
           None \<Rightarrow> parse_lines ls rc m
         | Some p \<Rightarrow> (case substr_from (p + 2) line of
               Inl e \<Rightarrow> (Inl e, m)
             | Inr v \<Rightarrow> parse_lines ls True (omap_insert (take p line) v m)))"

definition parseResponseHeaders :: "curl_helper \<Rightarrow> (cpp_error + bool) \<times> curl_helper" where
  "parseResponseHeaders s =
     (if resp_headers s = [] then (Inr False, s)
      else (case parse_lines (string_split (resp_headers s) (CHR 0x0A)) False (headers_list s) of
              (r, m) \<Rightarrow> (r, s\<lparr>headers_list := m\<rparr>)))"

definition responseHasHeader :: "string \<Rightarrow> curl_helper \<Rightarrow> bool" where
  "responseHasHeader name s \<longleftrightarrow> map_of (headers_list s) name \<noteq> None"

definition responseHeader :: "string \<Rightarrow> curl_helper \<Rightarrow> string" where
  "responseHeader name s = (case map_of (headers_list s) name of Some v \<Rightarrow> v | None \<Rightarrow> [])"

definition errorString :: "(int \<Rightarrow> string) \<Rightarrow> curl_helper \<Rightarrow> string" where
  "errorString strerror s = (if strerror (curl_error s) = ''No error'' then [] else strerror (curl_error s))"

section \<open>Requests\<close>

text \<open>The options of the handle when a transfer starts.  A body is read with \<open>readDataCallback\<close>.\<close>

record curl_request =
  req_url :: string
  req_verbose :: bool
  req_cookie :: string
  req_headers :: "string list option"
  req_body :: "string option"

text \<open>What a transfer does: the pieces of the response, in order, each for its callback, the code,
  and the cookies \<open>CURLINFO_COOKIELIST\<close> gives then, if any.\<close>

datatype piece = Header string | Body string

record transfer =
  pieces :: "piece list"
  t_code :: int
  t_cookies :: "string list option"

definition given_list :: "curl_helper \<Rightarrow> list_option" where
  "given_list s = (case header_list s of Some hs \<Rightarrow> SetList hs | None \<Rightarrow> httpheader s)"

definition setDefaultCurlHandleOptions :: "string option \<Rightarrow> curl_helper \<Rightarrow> curl_request \<times> curl_helper" where
  "setDefaultCurlHandleOptions body s =
     (\<lparr>req_url = c_str (url s), req_verbose = verbose s, req_cookie = c_str (serialize_cookies s),
       req_headers = header_list s, req_body = body\<rparr>,
      s\<lparr>resp_bytes := [], resp_headers := [], httpheader := given_list s\<rparr>)"

fun receive :: "piece list \<Rightarrow> curl_helper \<Rightarrow> curl_helper" where
  "receive [] s = s"
| "receive (Header b # ps) s = receive ps (snd (headerDataCallback b s))"
| "receive (Body b # ps) s = receive ps (snd (writeDataCallback b s))"

fun deserialize_all :: "string list \<Rightarrow> curl_helper \<Rightarrow> (cpp_error + unit) \<times> curl_helper" where
  "deserialize_all [] s = (Inr (), s)"
| "deserialize_all (c # cs) s = (case deserialize_cookie c s of Inl e \<Rightarrow> (Inl e, s) | Inr s1 \<Rightarrow> deserialize_all cs s1)"

definition free_list :: "curl_helper \<Rightarrow> curl_helper" where
  "free_list s = (if header_list s = None then s else s\<lparr>header_list := None, httpheader := FreedList\<rparr>)"

definition curlPerform :: "(curl_request \<Rightarrow> 'w \<Rightarrow> transfer \<times> 'w) \<Rightarrow> curl_request \<Rightarrow> curl_helper \<Rightarrow> 'w \<Rightarrow>
    (cpp_error + bool) \<times> curl_helper \<times> 'w" where
  "curlPerform perform rq s w =
     (if httpheader s = FreedList then (Inl UndefinedBehaviour, s, w)
      else let (t, w1) = perform rq w;
          s1 = (receive (pieces t) s)\<lparr>curl_error := t_code t\<rparr>
      in case (if t_code t = 0
               then (case t_cookies t of None \<Rightarrow> (Inr (), s1) | Some cs \<Rightarrow> deserialize_all cs s1)
               else (Inr (), s1)) of
           (Inl e, s2) \<Rightarrow> (Inl e, s2, w1)
         | (Inr _, s2) \<Rightarrow> (case parseResponseHeaders s2 of
               (Inl e, s3) \<Rightarrow> (Inl e, s3, w1)
             | (Inr _, s3) \<Rightarrow> (Inr (t_code t = 0), free_list s3, w1)))"

definition doGet :: "(curl_request \<Rightarrow> 'w \<Rightarrow> transfer \<times> 'w) \<Rightarrow> curl_helper \<Rightarrow> 'w \<Rightarrow> (cpp_error + bool) \<times> curl_helper \<times> 'w" where
  "doGet perform s w = (case setDefaultCurlHandleOptions None s of (rq, s1) \<Rightarrow> curlPerform perform rq s1 w)"

definition doPost :: "(curl_request \<Rightarrow> 'w \<Rightarrow> transfer \<times> 'w) \<Rightarrow> string \<Rightarrow> curl_helper \<Rightarrow> 'w \<Rightarrow> (cpp_error + bool) \<times> curl_helper \<times> 'w" where
  "doPost perform data s w = (case setDefaultCurlHandleOptions (Some data) s of (rq, s1) \<Rightarrow> curlPerform perform rq s1 w)"

section \<open>Uploads\<close>

fun run_reads :: "nat list \<Rightarrow> upload \<Rightarrow> string \<times> upload" where
  "run_reads [] d = ([], d)"
| "run_reads (n # ns) d = (let (b, d1) = readDataCallback n d; (bs, d2) = run_reads ns d1 in (b @ bs, d2))"

lemma run_reads_from:
  "rd_offset d \<le> length (up_bytes d) \<Longrightarrow>
    run_reads ns d = (take (sum_list ns) (drop (rd_offset d) (up_bytes d)),
      d\<lparr>rd_offset := min (length (up_bytes d)) (rd_offset d + sum_list ns)\<rparr>)"
proof (induction ns arbitrary: d)
  case Nil
  then show ?case by (cases d) (simp add: min_def)
next
  case (Cons n ns)
  let ?r = "min (length (up_bytes d) - rd_offset d) n"
  let ?d = "d\<lparr>rd_offset := rd_offset d + ?r\<rparr>"
  have r: "readDataCallback n d = (take n (drop (rd_offset d) (up_bytes d)), ?d)"
    using Cons.prems by (cases d) (auto simp: readDataCallback_def Let_def min_def)
  have "run_reads ns ?d = (take (sum_list ns) (drop (rd_offset d + ?r) (up_bytes d)),
      ?d\<lparr>rd_offset := min (length (up_bytes d)) (rd_offset d + ?r + sum_list ns)\<rparr>)"
    using Cons.IH [of ?d] Cons.prems by simp
  moreover have "take n (drop (rd_offset d) (up_bytes d)) @ take (sum_list ns) (drop (rd_offset d + ?r) (up_bytes d)) =
      take (n + sum_list ns) (drop (rd_offset d) (up_bytes d))"
    by (cases "length (up_bytes d) - rd_offset d \<le> n") (simp_all add: take_add min_def add.commute)
  moreover have "min (length (up_bytes d)) (rd_offset d + ?r + sum_list ns) = min (length (up_bytes d)) (rd_offset d + (n + sum_list ns))"
    using Cons.prems by auto
  ultimately show ?case by (simp add: r)
qed

section \<open>Header lines\<close>

text \<open>What a server sends: the status line, the headers, an empty line.\<close>

definition header_line :: "string \<times> string \<Rightarrow> string" where
  "header_line h = fst h @ '': '' @ snd h @ [CHR 0x0D]"

definition header_text :: "string \<Rightarrow> (string \<times> string) list \<Rightarrow> string" where
  "header_text status hs = concat (map (\<lambda>l. l @ [CHR 0x0A]) ((status @ [CHR 0x0D]) # map header_line hs @ [[CHR 0x0D]]))"

fun header_ok :: "string \<times> string \<Rightarrow> bool" where
  "header_ok (n, v) \<longleftrightarrow> CHR '':'' \<notin> set n \<and> CHR 0x0A \<notin> set n \<and> CHR 0x0A \<notin> set v \<and> (v = [] \<or> last v \<noteq> CHR 0x0D)"

lemma trim_cr_line: "s = [] \<or> last s \<noteq> CHR 0x0D \<Longrightarrow> trim_cr (s @ [CHR 0x0D]) = s"
  by (cases s rule: rev_cases) (auto simp: trim_cr_def)

lemma split_lines:
  assumes "\<forall>l \<in> set ls. d \<notin> set l"
  shows "string_split (concat (map (\<lambda>l. l @ [d]) ls)) d = ls"
  using assms by (induction ls) (auto simp: string_split_hit)

lemma parse_header_line:
  assumes "header_ok h"
  shows "parse_lines (header_line h # ls) rc m = parse_lines ls True (omap_insert (fst h) (snd h) m)"
proof -
  obtain n v where h: "h = (n, v)" by fastforce
  have "trim_cr (header_line h) = n @ '': '' @ v"
    using trim_cr_line [of "n @ '': '' @ v"] assms by (auto simp: header_line_def h)
  moreover have "find_first (\<lambda>c. c = CHR '':'') (n @ '': '' @ v) = Some (length n)"
    using find_first_hit [of n "\<lambda>c. c = CHR '':''" "CHR '':''" "CHR '' '' # v"] assms by (auto simp: h)
  ultimately show ?thesis by (simp add: substr_from_def h)
qed

lemma parse_header_lines:
  assumes "\<forall>h \<in> set hs. header_ok h"
  shows "parse_lines (map header_line hs @ [[CHR 0x0D]]) rc m =
    (Inr (rc \<or> hs \<noteq> []), fold (\<lambda>h. omap_insert (fst h) (snd h)) hs m)"
  using assms
proof (induction hs arbitrary: rc m)
  case Nil
  have "trim_cr [CHR 0x0D] = []" by (simp add: trim_cr_def)
  then show ?case by simp
qed (simp add: parse_header_line del: parse_lines.simps)

lemma omap_inserts:
  assumes "omap_inv m"
  shows "omap_inv (fold (\<lambda>h. omap_insert (fst h) (snd h)) hs m) \<and>
    map_of (fold (\<lambda>h. omap_insert (fst h) (snd h)) hs m) = map_of hs ++ map_of m"
  using assms
proof (induction hs arbitrary: m)
  case (Cons h hs)
  then show ?case
    by (cases h) (auto simp: map_of_omap_insert omap_inv_insert fun_eq_iff map_add_def split: option.split)
qed simp

lemma parse_header_text:
  assumes "\<forall>h \<in> set hs. header_ok h" "CHR '':'' \<notin> set status" "CHR 0x0A \<notin> set status"
  shows "parse_lines (string_split (header_text status hs) (CHR 0x0A)) False m =
    (Inr (hs \<noteq> []), fold (\<lambda>h. omap_insert (fst h) (snd h)) hs m)"
proof -
  have "string_split (header_text status hs) (CHR 0x0A) = (status @ [CHR 0x0D]) # map header_line hs @ [[CHR 0x0D]]"
    unfolding header_text_def by (rule split_lines) (use assms in \<open>fastforce simp: header_line_def\<close>)
  moreover have "set (trim_cr (status @ [CHR 0x0D])) \<subseteq> set (status @ [CHR 0x0D])"
    by (auto simp: trim_cr_def dest: set_dropWhileD)
  then have "find_first (\<lambda>c. c = CHR '':'') (trim_cr (status @ [CHR 0x0D])) = None"
    using assms(2) by (auto simp: find_first_None)
  ultimately show ?thesis by (simp add: parse_header_lines assms(1))
qed

section \<open>Cookies\<close>

lemma cookies_size_set: "map_of m k = None \<Longrightarrow> cookies_size (omap_set k v m) = cookies_size m + length k + length v"
  by (induction k v m rule: omap_set.induct) (auto simp: cookies_size_def split: if_splits)

lemma cookies_size_insert:
  "cookies_size (omap_insert k v m) = (if map_of m k = None then cookies_size m + length k + length v else cookies_size m)"
  by (auto simp: omap_insert_def cookies_size_set split: option.split)

section \<open>Properties\<close>

text \<open>However large the pieces are that the library asks for, the callback hands out the bytes of a
  request in order, each once, and then no more.\<close>

theorem upload_in_pieces:
  "fst (run_reads ns \<lparr>up_bytes = data, rd_offset = 0\<rparr>) = take (sum_list ns) data \<and>
    (length data \<le> sum_list ns \<longrightarrow> fst (readDataCallback n (snd (run_reads ns \<lparr>up_bytes = data, rd_offset = 0\<rparr>))) = [])"
  by (simp add: run_reads_from readDataCallback_def)

lemma upload_in_pieces_witness:
  "fst (readDataCallback 9 (snd (run_reads [2, 0, 5] \<lparr>up_bytes = ''hello'', rd_offset = 0\<rparr>))) = []"
  using upload_in_pieces [of "[2, 0, 5]" "''hello''" 9] by simp

text \<open>C25: A cookie of the right form from the library is kept as \<open>setCookie\<close> keeps one; neither ever replaces
  a cookie nor lets the jar grow over its limit, and a new one that fits is there after.  (A cookie
  that has expired or changed keeps its first value, a cookie marked \<open>HttpOnly\<close> is taken for a
  comment, and one with an empty value is read past its last field.)\<close>

theorem cookie_jar:
  assumes jar: "omap_inv (cookies_repo s)" "cookies_size (cookies_repo s) \<le> MAX_COOKIES_SIZE"
    and line: "length fs = 5" "CHR 0x09 \<notin> set (concat fs @ k @ v)"
  shows "omap_inv (cookies_repo (setCookie k v s)) \<and> cookies_size (cookies_repo (setCookie k v s)) \<le> MAX_COOKIES_SIZE \<and>
    map_of (cookies_repo (setCookie k v s)) =
      (if map_of (cookies_repo s) k = None \<and> cookies_size (cookies_repo s) + length k + length v \<le> MAX_COOKIES_SIZE
       then (map_of (cookies_repo s))(k \<mapsto> v) else map_of (cookies_repo s)) \<and>
    (v \<noteq> [] \<and> take 1 (hd fs) \<noteq> ''#'' \<longrightarrow> deserialize_cookie (join_with (CHR 0x09) (fs @ [k, v])) s = Inr (setCookie k v s)) \<and>
    (v = [] \<and> k \<noteq> [] \<and> take 1 (hd fs) \<noteq> ''#'' \<longrightarrow>
      deserialize_cookie (join_with (CHR 0x09) (fs @ [k, v])) s = Inl UndefinedBehaviour) \<and>
    (take 1 (hd fs) = ''#'' \<and> CHR 0x0A \<notin> set (concat fs @ k @ v) \<longrightarrow>
      deserialize_cookie (join_with (CHR 0x09) (fs @ [k, v])) s = Inr s)"
proof -
  let ?line = "join_with (CHR 0x09) (fs @ [k, v])"
  obtain f fs' where fs: "fs = f # fs'" using line(1) by (cases fs) auto
  have first: "\<exists>c rest. ?line = c # rest \<and> (c = CHR ''#'' \<longleftrightarrow> take 1 f = ''#'')"
    by (cases f) (auto simp: join_with_def fs)
  have parts: "\<forall>p \<in> set (fs @ [k, v]). CHR 0x09 \<notin> set p" using line(2) by auto
  have full: "deserialize_cookie ?line s = Inr (setCookie k v s)" if "v \<noteq> []" "take 1 f \<noteq> ''#''"
  proof -
    have "string_split ?line (CHR 0x09) = fs @ [k, v]" by (rule string_split_join_with) (use parts that in auto)
    with line(1) have "string_split ?line (CHR 0x09) ! 5 = k" "string_split ?line (CHR 0x09) ! 6 = v"
      "length (string_split ?line (CHR 0x09)) = 7" by (simp_all add: nth_append)
    with first that(2) show ?thesis
      by (auto simp: deserialize_cookie_def setCookie_def Let_def omap_insert_def add.commute add.left_commute split: option.split)
  qed
  have no_value: "deserialize_cookie ?line s = Inl UndefinedBehaviour" if "v = []" "take 1 f \<noteq> ''#''"
  proof -
    have "string_split ?line (CHR 0x09) = fs @ [k]"
      using split_lines [of "fs @ [k]" "CHR 0x09"] parts that(1) by (simp add: join_with_def butlast_append)
    with line(1) first that(2) show ?thesis by (auto simp: deserialize_cookie_def)
  qed
  have comment: "deserialize_cookie ?line s = Inr s" if "take 1 f = ''#''" "CHR 0x0A \<notin> set (concat fs @ k @ v)"
  proof -
    have "CHR 0x0A \<notin> set ?line" using that(2) by (auto simp: join_with_def butlast_append)
    with first that(1) show ?thesis by (auto simp: deserialize_cookie_def)
  qed
  have "omap_inv (cookies_repo (setCookie k v s)) \<and> cookies_size (cookies_repo (setCookie k v s)) \<le> MAX_COOKIES_SIZE \<and>
      map_of (cookies_repo (setCookie k v s)) =
        (if map_of (cookies_repo s) k = None \<and> cookies_size (cookies_repo s) + length k + length v \<le> MAX_COOKIES_SIZE
         then (map_of (cookies_repo s))(k \<mapsto> v) else map_of (cookies_repo s))"
    using jar by (auto simp: setCookie_def cookies_size_insert map_of_omap_insert)
  with full no_value comment show ?thesis by (simp add: fs)
qed

lemma cookie_jar_witness:
  "deserialize_cookie (join_with (CHR 0x09) [''x.org'', ''FALSE'', ''/'', ''TRUE'', ''0'', ''id'', ''7'']) (curl_new ''u'') = Inr (setCookie ''id'' ''7'' (curl_new ''u''))"
  using cookie_jar [of "curl_new ''u''" "[''x.org'', ''FALSE'', ''/'', ''TRUE'', ''0'']" "''id''" "''7''"]
  by (simp add: curl_new_def cookies_size_def)

section \<open>Requests\<close>

fun bodies :: "piece list \<Rightarrow> string" where
  "bodies [] = []" | "bodies (Body b # ps) = b @ bodies ps" | "bodies (Header b # ps) = bodies ps"

fun headers_of :: "piece list \<Rightarrow> string" where
  "headers_of [] = []" | "headers_of (Header b # ps) = b @ headers_of ps" | "headers_of (Body b # ps) = headers_of ps"

lemma receive_all:
  "receive ps s = s\<lparr>resp_bytes := resp_bytes s @ bodies ps, resp_headers := resp_headers s @ headers_of ps\<rparr>"
  by (induction ps s rule: receive.induct) (simp_all add: writeDataCallback_def headerDataCallback_def)

text \<open>A line that has all its fields, or is a comment.\<close>

definition cookie_line_ok :: "string \<Rightarrow> bool" where
  "cookie_line_ok c \<longleftrightarrow> c \<noteq> [] \<and> (hd c = CHR ''#'' \<and> CHR 0x0A \<notin> set c \<or> length (string_split c (CHR 0x09)) > 6)"

lemma deserialize_line: "cookie_line_ok c \<Longrightarrow> \<exists>m. deserialize_cookie c s = Inr (s\<lparr>cookies_repo := m\<rparr>)"
proof -
  assume ok: "cookie_line_ok c"
  obtain x cs where c: "c = x # cs" using ok by (cases c) (auto simp: cookie_line_ok_def)
  let ?tmp = "string_split c (CHR 0x09)"
  let ?fits = "cookies_size (cookies_repo s) + length (?tmp ! 6) + length (?tmp ! 5) \<le> MAX_COOKIES_SIZE"
  show ?thesis
  proof (cases "x = CHR ''#'' \<and> CHR 0x0A \<notin> set c \<or> \<not> ?fits")
    case True
    with ok have "deserialize_cookie c s = Inr s" by (auto simp: cookie_line_ok_def deserialize_cookie_def c Let_def)
    then show ?thesis by (intro exI [of _ "cookies_repo s"]) simp
  next
    case False
    with ok have "deserialize_cookie c s = Inr (s\<lparr>cookies_repo := omap_insert (?tmp ! 5) (?tmp ! 6) (cookies_repo s)\<rparr>)"
      by (auto simp: cookie_line_ok_def deserialize_cookie_def c Let_def)
    then show ?thesis by blast
  qed
qed

lemma deserialize_lines: "\<forall>c \<in> set cs. cookie_line_ok c \<Longrightarrow> \<exists>m. deserialize_all cs s = (Inr (), s\<lparr>cookies_repo := m\<rparr>)"
proof (induction cs arbitrary: s)
  case Nil
  then show ?case by (intro exI [of _ "cookies_repo s"]) simp
next
  case (Cons c cs)
  from deserialize_line [of c s] Cons.prems obtain m where m: "deserialize_cookie c s = Inr (s\<lparr>cookies_repo := m\<rparr>)" by auto
  from Cons.IH [of "s\<lparr>cookies_repo := m\<rparr>"] Cons.prems m show ?case by auto
qed

text \<open>The transfer has ended well, up to the headers.\<close>

lemma curlPerform_received:
  assumes "httpheader s \<noteq> FreedList" "perform rq w = (t, w1)" "t_code t = 0" "\<forall>cs. t_cookies t = Some cs \<longrightarrow> (\<forall>c \<in> set cs. cookie_line_ok c)"
  shows "\<exists>m. curlPerform perform rq s w =
    (let s2 = s\<lparr>resp_bytes := resp_bytes s @ bodies (pieces t), resp_headers := resp_headers s @ headers_of (pieces t),
                curl_error := 0, cookies_repo := m\<rparr>
     in case parseResponseHeaders s2 of
          (Inl e, s3) \<Rightarrow> (Inl e, s3, w1) | (Inr _, s3) \<Rightarrow> (Inr True, free_list s3, w1))"
proof (cases "t_cookies t")
  case None
  with assms(1-3) show ?thesis
    by (intro exI [of _ "cookies_repo s"]) (simp add: curlPerform_def receive_all Let_def split: sum.split prod.split)
next
  case (Some cs)
  with assms(4) deserialize_lines [of cs "s\<lparr>resp_bytes := resp_bytes s @ bodies (pieces t),
      resp_headers := resp_headers s @ headers_of (pieces t), curl_error := 0\<rparr>"]
  obtain m where "deserialize_all cs (s\<lparr>resp_bytes := resp_bytes s @ bodies (pieces t),
      resp_headers := resp_headers s @ headers_of (pieces t), curl_error := 0\<rparr>) =
    (Inr (), s\<lparr>resp_bytes := resp_bytes s @ bodies (pieces t),
      resp_headers := resp_headers s @ headers_of (pieces t), curl_error := 0, cookies_repo := m\<rparr>)" by auto
  with Some assms(1-3) show ?thesis
    by (intro exI [of _ m]) (simp add: curlPerform_def receive_all Let_def split: sum.split prod.split)
qed

lemma curl_request_response:
  assumes rq: "setDefaultCurlHandleOptions body s = (rq, s0)" and list: "given_list s \<noteq> FreedList"
    and t: "perform rq w = (t, w1)" "t_code t = 0" "\<forall>cs. t_cookies t = Some cs \<longrightarrow> (\<forall>c \<in> set cs. cookie_line_ok c)"
  shows "\<exists>m. (case body of None \<Rightarrow> doGet perform s w | Some d \<Rightarrow> doPost perform d s w) =
    (let s2 = s\<lparr>httpheader := given_list s, resp_bytes := bodies (pieces t), resp_headers := headers_of (pieces t), curl_error := 0, cookies_repo := m\<rparr>
     in case parseResponseHeaders s2 of
          (Inl e, s3) \<Rightarrow> (Inl e, s3, w1) | (Inr _, s3) \<Rightarrow> (Inr True, free_list s3, w1))"
proof -
  have "(case body of None \<Rightarrow> doGet perform s w | Some d \<Rightarrow> doPost perform d s w) = curlPerform perform rq s0 w"
    using rq by (cases body) (simp_all add: doGet_def doPost_def)
  moreover have "s0 = s\<lparr>resp_bytes := [], resp_headers := [], httpheader := given_list s\<rparr>" using rq by (auto simp: setDefaultCurlHandleOptions_def)
  ultimately show ?thesis using curlPerform_received [where perform = perform and rq = rq and w = w, OF _ t, of s0] list by simp
qed

text \<open>C18: Whatever pieces a response comes in, after a request the text is its body, and every header is
  found under its name, the first of a name that comes twice, the headers given for the request are
  used up, and the request has had them, the cookies and the body.  But the headers of an earlier
  response of the same helper stay, and hide the new ones of the same name; and when the request had headers of its
  own, their list is freed while the handle still points to it, so that a next request without any reads freed memory.\<close>

theorem curl_exchange:
  assumes rq: "setDefaultCurlHandleOptions body s = (rq, s0)" and list: "given_list s \<noteq> FreedList"
    and t: "perform rq w = (t, w1)" "t_code t = 0" "\<forall>cs. t_cookies t = Some cs \<longrightarrow> (\<forall>c \<in> set cs. cookie_line_ok c)"
    and hs: "headers_of (pieces t) = header_text status hs" "CHR '':'' \<notin> set status" "CHR 0x0A \<notin> set status"
      "\<forall>h \<in> set hs. header_ok h"
    and inv: "omap_inv (headers_list s)"
  shows "req_headers rq = header_list s \<and> req_cookie rq = c_str (serialize_cookies s) \<and> req_body rq = body \<and>
    (\<exists>s1. (case body of None \<Rightarrow> doGet perform s w | Some d \<Rightarrow> doPost perform d s w) = (Inr True, s1, w1) \<and>
      resp_bytes s1 = bodies (pieces t) \<and> header_list s1 = None \<and>
      map_of (headers_list s1) = map_of hs ++ map_of (headers_list s) \<and>
      (header_list s = None \<and> given_list s1 = httpheader s \<or>
       header_list s \<noteq> None \<and> (\<forall>w. fst (doGet perform s1 w) = Inl UndefinedBehaviour)))"
proof -
  from curl_request_response [where perform = perform and w = w, OF rq list t] obtain m where m:
    "(case body of None \<Rightarrow> doGet perform s w | Some d \<Rightarrow> doPost perform d s w) =
      (let s2 = s\<lparr>httpheader := given_list s, resp_bytes := bodies (pieces t), resp_headers := headers_of (pieces t), curl_error := 0, cookies_repo := m\<rparr>
       in case parseResponseHeaders s2 of
            (Inl e, s3) \<Rightarrow> (Inl e, s3, w1) | (Inr _, s3) \<Rightarrow> (Inr True, free_list s3, w1))" by blast
  have "header_text status hs \<noteq> []" by (simp add: header_text_def)
  with m omap_inserts [OF inv, of hs] parse_header_text [OF hs(4,2,3), of "headers_list s"] hs(1)
  have "\<exists>s1. (case body of None \<Rightarrow> doGet perform s w | Some d \<Rightarrow> doPost perform d s w) = (Inr True, s1, w1) \<and>
      resp_bytes s1 = bodies (pieces t) \<and> header_list s1 = None \<and>
      map_of (headers_list s1) = map_of hs ++ map_of (headers_list s) \<and>
      (header_list s = None \<and> given_list s1 = httpheader s \<or>
       header_list s \<noteq> None \<and> (\<forall>w. fst (doGet perform s1 w) = Inl UndefinedBehaviour))"
    by (cases "header_list s") (simp_all add: parseResponseHeaders_def Let_def free_list_def given_list_def doGet_def
        setDefaultCurlHandleOptions_def curlPerform_def)
  with rq show ?thesis by (auto simp: setDefaultCurlHandleOptions_def)
qed

text \<open>A response header that ends with its colon makes \<open>doGet\<close> throw \<open>std::out_of_range\<close> although the
  transfer has succeeded, and the request headers stay for the next request; one without a space
  after the colon loses the first character of its value.\<close>

theorem bare_header_throws:
  assumes rq: "setDefaultCurlHandleOptions None s = (rq, s0)" and list: "given_list s \<noteq> FreedList"
    and t: "perform rq w = (t, w1)" "t_code t = 0" "t_cookies t = None"
    and h: "headers_of (pieces t) = n @ '':'' @ v @ [CHR 0x0D, CHR 0x0A]"
      "CHR '':'' \<notin> set n" "CHR 0x0A \<notin> set (n @ v)" "v = [] \<or> last v \<noteq> CHR 0x0D"
  shows "\<exists>r s1. doGet perform s w = (r, s1, w1) \<and> resp_bytes s1 = bodies (pieces t) \<and>
    (if v = [] then r = Inl OutOfRange \<and> header_list s1 = header_list s \<and> headers_list s1 = headers_list s
     else r = Inr True \<and> headers_list s1 = omap_insert n (tl v) (headers_list s))"
proof -
  from curl_request_response [where perform = perform and w = w, OF rq list t(1,2)] t(3) obtain m where m:
    "doGet perform s w =
      (let s2 = s\<lparr>httpheader := given_list s, resp_bytes := bodies (pieces t), resp_headers := headers_of (pieces t), curl_error := 0, cookies_repo := m\<rparr>
       in case parseResponseHeaders s2 of
            (Inl e, s3) \<Rightarrow> (Inl e, s3, w1) | (Inr _, s3) \<Rightarrow> (Inr True, free_list s3, w1))" by auto
  have "string_split ((n @ '':'' @ v @ [CHR 0x0D]) @ CHR 0x0A # []) (CHR 0x0A) = [n @ '':'' @ v @ [CHR 0x0D]]"
    using string_split_hit [of "CHR 0x0A" "n @ '':'' @ v @ [CHR 0x0D]" "[]"] h(3) by simp
  moreover have "trim_cr (n @ '':'' @ v @ [CHR 0x0D]) = n @ CHR '':'' # v"
    using trim_cr_line [of "n @ CHR '':'' # v"] h(4) by auto
  moreover have "find_first (\<lambda>c. c = CHR '':'') (n @ CHR '':'' # v) = Some (length n)"
    using find_first_hit [of n "\<lambda>c. c = CHR '':''" "CHR '':''" v] h(2) by auto
  ultimately have "parse_lines (string_split (headers_of (pieces t)) (CHR 0x0A)) False (headers_list s) =
      (if v = [] then (Inl OutOfRange, headers_list s) else (Inr True, omap_insert n (tl v) (headers_list s)))"
    by (cases v) (simp_all add: h(1) substr_from_def)
  with m h(1) show ?thesis by (auto simp: parseResponseHeaders_def Let_def free_list_def)
qed

text \<open>A server that answers every request in the same way, and a helper that has had an answer.\<close>

definition echo_server :: "string \<Rightarrow> curl_request \<Rightarrow> nat \<Rightarrow> transfer \<times> nat" where
  "echo_server hs rq n = (\<lparr>pieces = [Header hs, Body ''hi'', Body ''!''], t_code = 0, t_cookies = None\<rparr>, Suc n)"

abbreviation "used_helper \<equiv> (curl_new ''http://h'')\<lparr>headers_list := [(''A'', ''old'')], header_list := Some [''X: y'']\<rparr>"

lemma curl_exchange_witness:
  "\<exists>s1. doPost (echo_server (header_text ''200 OK'' [(''A'', ''new''), (''B'', ''b'')])) ''data'' used_helper 0 = (Inr True, s1, 1) \<and>
    resp_bytes s1 = ''hi!'' \<and> responseHeader ''A'' s1 = ''old'' \<and> responseHeader ''B'' s1 = ''b''"
proof -
  let ?hs = "[(''A'', ''new''), (''B'', ''b'')]"
  obtain rq s0 where rq: "setDefaultCurlHandleOptions (Some ''data'') used_helper = (rq, s0)" by fastforce
  have "omap_inv (headers_list used_helper)" by (simp add: omap_inv_def)
  from curl_exchange [where perform = "echo_server (header_text ''200 OK'' ?hs)" and w = 0 and status = "''200 OK''" and hs = ?hs, OF rq _ _ _ _ _ _ _ _ this]
  show ?thesis by (auto simp: given_list_def echo_server_def responseHeader_def map_add_def)
qed

lemma bare_header_throws_witness:
  "\<exists>s1. doGet (echo_server (''A:'' @ [CHR 0x0D, CHR 0x0A])) used_helper 0 = (Inl OutOfRange, s1, 1) \<and> header_list s1 = Some [''X: y'']"
proof -
  obtain rq s0 where rq: "setDefaultCurlHandleOptions None used_helper = (rq, s0)" by fastforce
  from bare_header_throws [where perform = "echo_server (''A:'' @ [CHR 0x0D, CHR 0x0A])" and w = 0 and n = "''A''" and v = "[]", OF rq]
  show ?thesis by (auto simp: given_list_def echo_server_def)
qed

end
