(* ===== verification/HttpLife.thy ===== *)
theory HttpLife
  imports Main
begin

text \<open>
  \<open>HttpServerImpl::start\<close> and \<open>stop\<close> of \<open>http_server_impl.cc\<close>, step by step beside the threads of MHD,
  which run one request each: the shared state is the flag \<open>_goingToStop\<close> and the counter of the
  connection objects.  Requests are numbered; the server itself is used by one thread at a time,
  which may be the thread of a request whose handler calls \<open>stop\<close>.
\<close>

section \<open>Steps\<close>

datatype life_pc =
    P_Down      \<comment> \<open>\<open>_server\<close> is null\<close>
  | P_Daemon    \<comment> \<open>in \<open>start\<close>, the daemon runs, before \<open>_cron->start()\<close>\<close>
  | P_Cron      \<comment> \<open>before \<open>_goingToStop = false\<close>\<close>
  | P_Up
  | P_Stop      \<comment> \<open>in \<open>stop\<close>, after \<open>_cron->stop()\<close>, before \<open>_goingToStop = true\<close>\<close>
  | P_Flag      \<comment> \<open>before \<open>MHD_quiesce_daemon\<close>\<close>
  | P_Wait      \<comment> \<open>in \<open>waitUntilRequestsCompleted\<close>\<close>
  | P_Waited    \<comment> \<open>in \<open>MHD_stop_daemon\<close>\<close>

text \<open>\<open>checked\<close>: the requests whose thread has found the flag clear in \<open>mhdEventHandler\<close> and has not yet
  made the connection object; \<open>live\<close>: those with one; \<open>refused\<close> counts the others.\<close>

record http_life =
  pc :: life_pc
  going :: bool
  checked :: "nat set"
  live :: "nat set"
  conn_count :: nat
  caller :: "nat option"
  refused :: nat

definition life_new :: http_life where
  "life_new = \<lparr>pc = P_Down, going = False, checked = {}, live = {}, conn_count = 0, caller = None, refused = 0\<rparr>"

text \<open>\<open>MHD_stop_daemon\<close> returns when the threads of all requests have ended.\<close>

inductive lstep :: "http_life \<Rightarrow> http_life \<Rightarrow> bool" where
  start_daemon: "pc s = P_Down \<Longrightarrow> lstep s (s\<lparr>pc := P_Daemon\<rparr>)"
| start_cron: "pc s = P_Daemon \<Longrightarrow> lstep s (s\<lparr>pc := P_Cron\<rparr>)"
| clear_flag: "pc s = P_Cron \<Longrightarrow> lstep s (s\<lparr>pc := P_Up, going := False\<rparr>)"
| admit: "pc s \<noteq> P_Down \<Longrightarrow> \<not> going s \<Longrightarrow> i \<notin> checked s \<union> live s \<Longrightarrow> lstep s (s\<lparr>checked := insert i (checked s)\<rparr>)"
| refuse: "pc s \<noteq> P_Down \<Longrightarrow> going s \<Longrightarrow> lstep s (s\<lparr>refused := Suc (refused s)\<rparr>)"
| connect: "i \<in> checked s \<Longrightarrow>
    lstep s (s\<lparr>checked := checked s - {i}, live := insert i (live s), conn_count := conn_count s + 1\<rparr>)"
| complete: "i \<in> live s \<Longrightarrow> caller s \<noteq> Some i \<Longrightarrow> lstep s (s\<lparr>live := live s - {i}, conn_count := conn_count s - 1\<rparr>)"
| call_stop: "pc s = P_Up \<Longrightarrow> set_option c \<subseteq> live s \<Longrightarrow> lstep s (s\<lparr>pc := P_Stop, caller := c\<rparr>)"
| set_flag: "pc s = P_Stop \<Longrightarrow> lstep s (s\<lparr>pc := P_Flag, going := True\<rparr>)"
| quiesce: "pc s = P_Flag \<Longrightarrow> lstep s (s\<lparr>pc := P_Wait\<rparr>)"
| waited: "pc s = P_Wait \<Longrightarrow> conn_count s = 0 \<Longrightarrow> lstep s (s\<lparr>pc := P_Waited\<rparr>)"
| stopped: "pc s = P_Waited \<Longrightarrow> checked s = {} \<Longrightarrow> live s = {} \<Longrightarrow> lstep s (s\<lparr>pc := P_Down, caller := None\<rparr>)"

inductive_cases lstep_cases: "lstep s s'"

section \<open>The invariant\<close>

definition stopping_pcs :: "life_pc set" where
  "stopping_pcs = {P_Stop, P_Flag, P_Wait, P_Waited}"

definition life_inv :: "http_life \<Rightarrow> bool" where
  "life_inv s \<longleftrightarrow> finite (checked s) \<and> finite (live s) \<and> checked s \<inter> live s = {} \<and> conn_count s = card (live s) \<and>
     (pc s = P_Down \<longrightarrow> checked s = {} \<and> live s = {}) \<and>
     (pc s \<in> {P_Flag, P_Wait, P_Waited} \<longrightarrow> going s) \<and>
     (caller s \<noteq> None \<longrightarrow> pc s \<in> {P_Stop, P_Flag, P_Wait}) \<and> set_option (caller s) \<subseteq> live s"

lemma life_inv_new: "life_inv life_new"
  by (simp add: life_inv_def life_new_def)

lemma life_inv_step:
  assumes "lstep s s'" "life_inv s"
  shows "life_inv s'"
  using assms(1)
proof (cases rule: lstep.cases)
  case (connect i)
  with assms(2) have "i \<notin> live s" "finite (live s)" by (auto simp: life_inv_def)
  with connect assms(2) show ?thesis by (auto simp: life_inv_def)
next
  case (complete i)
  with assms(2) have "card (live s - {i}) = card (live s) - 1" by (simp add: life_inv_def)
  with complete assms(2) show ?thesis by (auto simp: life_inv_def)
next
  case (call_stop c)
  with assms(2) show ?thesis by (simp add: life_inv_def stopping_pcs_def)
next
  case waited
  with assms(2) have "live s = {}" by (auto simp: life_inv_def)
  with waited assms(2) show ?thesis by (auto simp: life_inv_def)
qed (use assms(2) in \<open>auto simp: life_inv_def stopping_pcs_def\<close>)

lemma life_inv_steps: "lstep\<^sup>*\<^sup>* s s' \<Longrightarrow> life_inv s \<Longrightarrow> life_inv s'"
  by (induction rule: rtranclp_induct) (auto intro: life_inv_step)

text \<open>The work that is left until a stop has ended.\<close>

fun pc_rank :: "life_pc \<Rightarrow> nat" where
  "pc_rank P_Stop = 4" | "pc_rank P_Flag = 3" | "pc_rank P_Wait = 2" | "pc_rank P_Waited = 1" | "pc_rank _ = 0"

definition stop_work :: "http_life \<Rightarrow> nat" where
  "stop_work s = pc_rank (pc s) + 2 * card (checked s) + card (live s)"

lemma stop_work_less:
  assumes "lstep s s'" "life_inv s" "pc s \<in> {P_Flag, P_Wait, P_Waited}"
  shows "stop_work s' < stop_work s \<or> s' = s\<lparr>refused := Suc (refused s)\<rparr>"
  using assms(1)
proof (cases rule: lstep.cases)
  case (connect i)
  with assms(2) have "card (checked s) > 0" "i \<notin> live s" by (auto simp: life_inv_def card_gt_0_iff)
  then have "2 * (card (checked s) - 1) + 1 < 2 * card (checked s)" by linarith
  with connect assms(2) \<open>i \<notin> live s\<close> show ?thesis by (simp add: stop_work_def life_inv_def)
next
  case (complete i)
  with assms(2) have "card (live s) > 0" by (auto simp: life_inv_def card_gt_0_iff)
  with complete assms(2) show ?thesis by (simp add: stop_work_def life_inv_def)
qed (use assms(2,3) in \<open>auto simp: stop_work_def life_inv_def\<close>)

lemma stop_not_stuck:
  assumes "life_inv s" "pc s \<in> stopping_pcs" "caller s = None"
  shows "\<exists>s'. lstep s s' \<and> s' \<noteq> s\<lparr>refused := Suc (refused s)\<rparr>"
proof (cases "checked s = {} \<and> live s = {}")
  case True
  have "P_Stop \<noteq> P_Flag" "P_Flag \<noteq> P_Wait" "P_Wait \<noteq> P_Waited" "P_Waited \<noteq> P_Down" by simp_all
  with True assms(1,2) lstep.set_flag [of s] lstep.quiesce [of s] lstep.waited [of s] lstep.stopped [of s]
  show ?thesis by (cases s) (auto simp: stopping_pcs_def life_inv_def)
next
  case False
  then consider i where "i \<in> checked s" | i where "i \<in> live s" by blast
  then show ?thesis
  proof cases
    case 1
    have "s\<lparr>checked := checked s - {i}, live := insert i (live s), conn_count := conn_count s + 1\<rparr> \<noteq> s\<lparr>refused := Suc (refused s)\<rparr>"
      by (cases s) simp
    with lstep.connect [OF 1] show ?thesis by blast
  next
    case 2
    have "s\<lparr>live := live s - {i}, conn_count := conn_count s - 1\<rparr> \<noteq> s\<lparr>refused := Suc (refused s)\<rparr>"
      by (cases s) simp
    with lstep.complete [OF 2] assms(3) show ?thesis by auto
  qed
qed

text \<open>A stop that a handler has called.\<close>

lemma handler_stays:
  "lstep\<^sup>*\<^sup>* s s' \<Longrightarrow> life_inv s \<Longrightarrow> caller s = Some i \<Longrightarrow> caller s' = Some i \<and> pc s' \<in> {P_Stop, P_Flag, P_Wait}"
proof (induction rule: rtranclp_induct)
  case base
  then show ?case by (simp add: life_inv_def)
next
  case (step s' s'')
  then have inv: "life_inv s'" and h: "caller s' = Some i" "pc s' \<in> {P_Stop, P_Flag, P_Wait}"
    using life_inv_steps by auto
  from inv h(1) have "conn_count s' \<noteq> 0" by (auto simp: life_inv_def card_eq_0_iff)
  with step.hyps(2) h show ?case by (cases rule: lstep.cases) auto
qed

section \<open>Properties\<close>

text \<open>C12: The counter of the server is the number of its connection objects; while it is down no request
  is under way, so that destroying it then leaves no connection with a reference to it; and from the
  moment the flag is set no request is admitted.\<close>

theorem http_stop_safe:
  assumes "lstep\<^sup>*\<^sup>* life_new s"
  shows "finite (live s) \<and> conn_count s = card (live s) \<and> (pc s = P_Down \<longrightarrow> checked s = {} \<and> live s = {}) \<and>
    (pc s \<in> {P_Flag, P_Wait, P_Waited} \<longrightarrow> (\<forall>s'. lstep s s' \<longrightarrow> checked s' \<union> live s' \<subseteq> checked s \<union> live s))"
proof -
  have inv: "life_inv s" by (rule life_inv_steps [OF assms life_inv_new])
  have "checked s' \<union> live s' \<subseteq> checked s \<union> live s" if "pc s \<in> {P_Flag, P_Wait, P_Waited}" "lstep s s'" for s'
    using that(2,1) inv by (cases rule: lstep.cases) (auto simp: life_inv_def)
  with inv show ?thesis by (simp add: life_inv_def)
qed

text \<open>C21: A stop ends when no handler has called it: until then some step is possible besides the refusal of
  a request, and every such step lessens the work that is left.  But a \<open>stop\<close> that the handler of a
  request calls waits for this request, and so for itself: whatever happens, the server never goes
  down again.\<close>

theorem http_stop_ends:
  assumes "lstep\<^sup>*\<^sup>* life_new s" "pc s \<in> {P_Flag, P_Wait, P_Waited}"
  shows "(caller s = None \<longrightarrow> (\<exists>s'. lstep s s' \<and> stop_work s' < stop_work s)) \<and>
    (\<forall>s'. lstep s s' \<longrightarrow> stop_work s' < stop_work s \<or> s' = s\<lparr>refused := Suc (refused s)\<rparr>) \<and>
    (\<forall>i s'. caller s = Some i \<longrightarrow> lstep\<^sup>*\<^sup>* s s' \<longrightarrow> pc s' \<in> {P_Flag, P_Wait})"
proof (intro conjI impI allI)
  have inv: "life_inv s" by (rule life_inv_steps [OF assms(1) life_inv_new])
  show less: "stop_work s' < stop_work s \<or> s' = s\<lparr>refused := Suc (refused s)\<rparr>" if "lstep s s'" for s'
    by (rule stop_work_less [OF that inv assms(2)])
  show "\<exists>s'. lstep s s' \<and> stop_work s' < stop_work s" if "caller s = None"
    using stop_not_stuck [OF inv _ that] assms(2) less by (auto simp: stopping_pcs_def)
  show "pc s' \<in> {P_Flag, P_Wait}" if "caller s = Some i" "lstep\<^sup>*\<^sup>* s s'" for i s'
    using that(2)
  proof (induction rule: rtranclp_induct)
    case base
    from handler_stays [OF rtranclp.rtrancl_refl inv that(1)] assms(2) show ?case by auto
  next
    case (step s' s'')
    note h = handler_stays [OF step.hyps(1) inv that(1)] handler_stays [OF rtranclp.rtrancl_into_rtrancl [OF step.hyps(1,2)] inv that(1)]
    from step.hyps(2) show ?case by (cases rule: lstep.cases) (use h step.IH in auto)
  qed
qed

text \<open>A request whose handler calls \<open>stop\<close>.\<close>

definition handler_stop :: http_life where
  "handler_stop = \<lparr>pc = P_Flag, going = True, checked = {}, live = {0}, conn_count = 1, caller = Some 0, refused = 0\<rparr>"

lemma handler_stop_reached: "lstep\<^sup>*\<^sup>* life_new handler_stop"
proof -
  let ?s = "\<lambda>p g c l n. \<lparr>pc = p, going = g, checked = c, live = l, conn_count = n, caller = None, refused = 0\<rparr>"
  have "lstep life_new (?s P_Daemon False {} {} 0)" using lstep.start_daemon [of life_new] by (simp add: life_new_def)
  moreover have "lstep (?s P_Daemon False {} {} 0) (?s P_Cron False {} {} 0)"
    using lstep.start_cron [of "?s P_Daemon False {} {} 0"] by simp
  moreover have "lstep (?s P_Cron False {} {} 0) (?s P_Up False {} {} 0)"
    using lstep.clear_flag [of "?s P_Cron False {} {} 0"] by simp
  moreover have "lstep (?s P_Up False {} {} 0) (?s P_Up False {0} {} 0)"
    using lstep.admit [of "?s P_Up False {} {} 0" 0] by simp
  moreover have "lstep (?s P_Up False {0} {} 0) (?s P_Up False {} {0} 1)"
    using lstep.connect [of 0 "?s P_Up False {0} {} 0"] by simp
  moreover have "lstep (?s P_Up False {} {0} 1) ((?s P_Stop False {} {0} 1)\<lparr>caller := Some 0\<rparr>)"
    using lstep.call_stop [of "?s P_Up False {} {0} 1" "Some 0"] by simp
  moreover have "lstep ((?s P_Stop False {} {0} 1)\<lparr>caller := Some 0\<rparr>) handler_stop"
    using lstep.set_flag [of "(?s P_Stop False {} {0} 1)\<lparr>caller := Some 0\<rparr>"] by (simp add: handler_stop_def)
  ultimately show ?thesis by (meson converse_rtranclp_into_rtranclp rtranclp.rtrancl_refl)
qed

lemma http_stop_safe_witness: "finite (live handler_stop) \<and> conn_count handler_stop = card (live handler_stop)"
  using http_stop_safe [OF handler_stop_reached] by blast

lemma http_stop_ends_witness: "{s'. lstep\<^sup>*\<^sup>* handler_stop s'} \<inter> {s'. pc s' = P_Down} = {}"
proof -
  have "pc handler_stop \<in> {P_Flag, P_Wait, P_Waited}" "caller handler_stop = Some 0" by (simp_all add: handler_stop_def)
  with http_stop_ends [OF handler_stop_reached] show ?thesis by fastforce
qed

end
