(* ===== verification/PathClass.thy ===== *)
theory PathClass
  imports FsOps
begin

text \<open>
  The class \<open>Path\<close> of \<open>fsutils.hh\<close>: a text with the type and the times of the entry it named when it was
  last changed; and the functions of \<open>fsutils.cc\<close> around single system calls.
\<close>

section \<open>The class\<close>

datatype path_type = PT_NONE | PT_REGULAR | PT_DIRECTORY | PT_SYMLINK | PT_UNKNOWN

record path_obj =
  p_atime :: int
  p_mtime :: int
  p_value :: string
  p_type :: path_type

text \<open>\<open>lstat\<close>: the kind of the entry, the times of its last access and change.\<close>

type_synonym lstat = "string \<Rightarrow> (file_kind \<times> int \<times> int) option"

fun path_type_of :: "file_kind \<Rightarrow> path_type" where
  "path_type_of Regular = PT_REGULAR" | "path_type_of Symlink = PT_SYMLINK"
| "path_type_of Directory = PT_DIRECTORY" | "path_type_of Other = PT_UNKNOWN"

definition updateInternals :: "lstat \<Rightarrow> path_obj \<Rightarrow> path_obj" where
  "updateInternals lst p =
     (case lst (p_value p) of
        Some (k, a, m) \<Rightarrow> p\<lparr>p_atime := a, p_mtime := m, p_type := path_type_of k\<rparr>
      | None \<Rightarrow> p)"

definition path_default :: path_obj where
  "path_default = \<lparr>p_atime = 0, p_mtime = 0, p_value = [], p_type = PT_NONE\<rparr>"

definition path_new :: "lstat \<Rightarrow> string \<Rightarrow> path_obj" where
  "path_new lst v = updateInternals lst (path_default\<lparr>p_value := v\<rparr>)"

text \<open>The text \<open>append\<close> makes is \<open>path_append\<close>; two early returns leave the rest as it was.\<close>

definition append_obj :: "lstat \<Rightarrow> string \<Rightarrow> path_obj \<Rightarrow> path_obj" where
  "append_obj lst other p =
     (let q = p\<lparr>p_value := path_append (p_value p) other\<rparr>
      in if other = [] \<or> (\<forall>c \<in> set (p_value p @ other). c = CHR ''/'') then q else updateInternals lst q)"

definition plus_eq :: "lstat \<Rightarrow> string \<Rightarrow> path_obj \<Rightarrow> path_obj" where
  "plus_eq lst other p = (if other \<noteq> [] then updateInternals lst (p\<lparr>p_value := p_value p @ other\<rparr>) else p)"

definition path_plus :: "lstat \<Rightarrow> path_obj \<Rightarrow> string \<Rightarrow> path_obj" where
  "path_plus lst lhs rhs = plus_eq lst rhs lhs"

definition path_parent :: "lstat \<Rightarrow> path_obj \<Rightarrow> path_obj" where
  "path_parent lst p = path_new lst (parent (p_value p))"

definition path_basename :: "path_obj \<Rightarrow> string" where
  "path_basename p = basename (p_value p)"

definition path_has_parent :: "path_obj \<Rightarrow> bool" where
  "path_has_parent p \<longleftrightarrow> hasParent (p_value p)"

definition path_permissions :: "'s os \<Rightarrow> path_obj \<Rightarrow> 's \<Rightarrow> cpp_error + nat" where
  "path_permissions os p s = getPermissions os (p_value p) s"

definition path_extension :: "'s os \<Rightarrow> path_obj \<Rightarrow> 's \<Rightarrow> string" where
  "path_extension os p s = extension (isdir os (p_value p) s) (p_value p)"

section \<open>Functions around one system call\<close>

definition fs_exist :: "(string \<Rightarrow> int) \<Rightarrow> string \<Rightarrow> bool" where
  "fs_exist access_F_OK path \<longleftrightarrow> access_F_OK (c_str path) = 0"

definition path_exist :: "(string \<Rightarrow> int) \<Rightarrow> path_obj \<Rightarrow> bool" where
  "path_exist access_F_OK p \<longleftrightarrow> fs_exist access_F_OK (p_value p)"

text \<open>\<open>getcwd\<close> fails when the path does not fit into \<open>PATH_MAX\<close>: the directory is then empty.\<close>

definition workingDir :: "string option \<Rightarrow> string" where
  "workingDir getcwd = (case getcwd of Some path \<Rightarrow> path | None \<Rightarrow> [])"

definition fileAtime :: "(string \<Rightarrow> (int \<times> int) option) \<Rightarrow> string \<Rightarrow> int" where
  "fileAtime stat_times path = (case stat_times path of Some (a, m) \<Rightarrow> a | None \<Rightarrow> 0)"

definition fileMtime :: "(string \<Rightarrow> (int \<times> int) option) \<Rightarrow> string \<Rightarrow> int" where
  "fileMtime stat_times path = (case stat_times path of Some (a, m) \<Rightarrow> m | None \<Rightarrow> 0)"

text \<open>\<open>fs_remove\<close>, \<open>fs_rename\<close> and \<open>fs_symlink\<close> are \<open>remove\<close>, \<open>rename\<close> and \<open>symlink\<close>.\<close>

definition fs_remove :: "(string \<Rightarrow> 's \<Rightarrow> int \<times> 's) \<Rightarrow> string \<Rightarrow> 's \<Rightarrow> bool \<times> 's" where
  "fs_remove call path s = (case call path s of (r, s1) \<Rightarrow> (r = 0, s1))"

definition fs_rename :: "(string \<Rightarrow> string \<Rightarrow> 's \<Rightarrow> int \<times> 's) \<Rightarrow> string \<Rightarrow> string \<Rightarrow> 's \<Rightarrow> bool \<times> 's" where
  "fs_rename call oldname newname s = (case call oldname newname s of (r, s1) \<Rightarrow> (r = 0, s1))"

definition fs_symlink :: "(string \<Rightarrow> string \<Rightarrow> 's \<Rightarrow> int \<times> 's) \<Rightarrow> string \<Rightarrow> string \<Rightarrow> 's \<Rightarrow> bool \<times> 's" where
  "fs_symlink call srcpath dstpath s = (case call srcpath dstpath s of (r, s1) \<Rightarrow> (r = 0, s1))"

text \<open>The buffer is as long as the file was when its size was asked for; what the file no longer has
  stays uninitialised, here \<open>None\<close>.\<close>

definition readBinaryFileIntoBuffer :: "(string \<Rightarrow> string option) \<Rightarrow> (string \<Rightarrow> nat) \<Rightarrow> string \<Rightarrow> char option list \<Rightarrow>
    bool \<times> char option list" where
  "readBinaryFileIntoBuffer open_file size_of path buffer =
     (case open_file path of
        None \<Rightarrow> (False, buffer)
      | Some bytes \<Rightarrow> (True, map Some (take (size_of path) bytes) @ replicate (size_of path - length bytes) None))"

text \<open>\<open>statvfs\<close>: the size of a fragment and the number of free blocks; the product is an \<open>int64_t\<close>.\<close>

definition fsAvail :: "(string \<Rightarrow> (int \<times> int) option) \<Rightarrow> string \<Rightarrow> int" where
  "fsAvail statvfs path =
     (case statvfs path of
        None \<Rightarrow> - 1
      | Some (frsize, bavail) \<Rightarrow> (frsize * bavail + 2 ^ 63) mod 2 ^ 64 - 2 ^ 63)"

definition permissions_or :: "nat \<Rightarrow> nat \<Rightarrow> nat" where
  "permissions_or lhs rhs = or lhs rhs"

section \<open>What a path knows of its entry\<close>

text \<open>The members after any change of the text are those of the entry that has the new name; when there
  is none, those of the old name stay, and the default ones for a new object.\<close>

lemma updateInternals_facts:
  "p_value (updateInternals lst p) = p_value p \<and>
    (p_type (updateInternals lst p), p_atime (updateInternals lst p), p_mtime (updateInternals lst p)) =
      (case lst (p_value p) of Some (k, a, m) \<Rightarrow> (path_type_of k, a, m) | None \<Rightarrow> (p_type p, p_atime p, p_mtime p))"
  by (auto simp: updateInternals_def split: option.split)

text \<open>A path object has the type and the times of the entry it names, when it is made and when its
  text changes; but when there is no such entry it keeps those of the entry it named before, which
  a path that has just been made has not.\<close>

theorem path_knows_entry:
  assumes "other \<noteq> []"
  shows "(case lst v of
      Some (k, a, m) \<Rightarrow> path_new lst v = \<lparr>p_atime = a, p_mtime = m, p_value = v, p_type = path_type_of k\<rparr>
    | None \<Rightarrow> path_new lst v = \<lparr>p_atime = 0, p_mtime = 0, p_value = v, p_type = PT_NONE\<rparr>) \<and>
    (case lst (p_value p @ other) of
      Some e \<Rightarrow> plus_eq lst other p = path_new lst (p_value p @ other)
    | None \<Rightarrow> plus_eq lst other p = p\<lparr>p_value := p_value p @ other\<rparr>) \<and>
    ((\<exists>c \<in> set (p_value p @ other). c \<noteq> CHR ''/'') \<longrightarrow>
      (case lst (path_append (p_value p) other) of
        Some e \<Rightarrow> append_obj lst other p = path_new lst (path_append (p_value p) other)
      | None \<Rightarrow> append_obj lst other p = p\<lparr>p_value := path_append (p_value p) other\<rparr>))"
proof -
  have keep: "updateInternals lst q = q" if "lst (p_value q) = None" for q
    using that by (simp add: updateInternals_def)
  have new: "updateInternals lst q = path_new lst (p_value q)" if "lst (p_value q) = Some e" for q e
    using that by (cases q, cases e) (simp add: updateInternals_def path_new_def path_default_def)
  show ?thesis
    using assms keep new
    by (auto simp: plus_eq_def append_obj_def Let_def path_new_def path_default_def updateInternals_def split: option.split)
qed

section \<open>Removing a tree follows links\<close>

text \<open>Two directories, \<open>d\<close> and \<open>t\<close>; the entry \<open>l\<close> of \<open>d\<close> is a symbolic link to \<open>t\<close>, which \<open>stat\<close> follows.
  The state is the files and links that are left.\<close>

definition real_name :: "string \<Rightarrow> string" where
  "real_name p = (if p = ''d/l/f'' then ''t/f'' else p)"

definition link_os :: "string list os" where
  "link_os = one_file_os\<lparr>
     sys_stat := (\<lambda>p s. if p \<in> {''d'', ''d/l'', ''t''} then Stat \<lparr>st_kind = Directory, st_size = 0, st_perm = 0\<rparr>
       else if real_name p \<in> set s then Stat \<lparr>st_kind = Regular, st_size = 0, st_perm = 0\<rparr> else NoEntry),
     sys_readdir := (\<lambda>p s. if p = ''d'' then Some [''l''] else if p \<in> {''d/l'', ''t''} then Some [''f''] else None),
     sys_fnmatch := (\<lambda>pat f. True),
     sys_remove := (\<lambda>p s. (real_name p \<in> set s, removeAll (real_name p) s))\<rparr>"

text \<open>Removing \<open>d\<close> removes the file of \<open>t\<close>.\<close>

lemma removal_follows_links:
  "removeNonemptyDirectory 3 link_os ''d'' [''d'', ''d/l'', ''t'', ''t/f''] = Some (True, [''t''])"
proof -
  have "path_append ''d'' ''l'' = ''d/l''" "path_append ''d/l'' ''f'' = ''d/l/f''" by code_simp+
  then show ?thesis
    by (simp add: numeral_3_eq_3 link_os_def isdir_def dirContent_def real_name_def)
qed

end
