(* ===== verification/HttpStart.thy ===== *)
theory HttpStart
  imports PathClass "HOL-Library.Word"
begin

text \<open>
  \<open>HttpServerImpl::startServerHttp\<close> and \<open>createAddressFor\<close> of \<open>http_server_impl.cc\<close>: what the settings
  of a server (\<open>http_server.hh\<close>) make of the options of the MHD daemon.  \<open>inet_pton\<close>, the files
  and the daemon are arguments.
\<close>

section \<open>The options of the daemon\<close>

record http_settings =
  hs_address :: string
  hs_port :: "16 word"
  enableSecure :: bool
  keyFilePath :: string
  certFilePath :: string

datatype mhd_flag = USE_THREAD_PER_CONNECTION | USE_INTERNAL_POLLING_THREAD | USE_DEBUG | USE_ITC | USE_TLS

text \<open>A buffer of the server: a null pointer, or bytes, of which some may not be initialised.\<close>

type_synonym buffer = "char option list option"

record daemon_options =
  d_flags :: "mhd_flag list"
  d_port :: "16 word"
  d_limit :: int
  d_ip_limit :: int
  d_reuse :: int
  d_sock_addr :: "(32 word option \<times> 16 word) option"
  d_key :: "buffer option"
  d_cert :: "buffer option"

definition cHttpDaemonConnectionsLimit :: int where "cHttpDaemonConnectionsLimit = 50"
definition cHttpDaemonConnectionsPerIPLimit :: int where
  "cHttpDaemonConnectionsPerIPLimit = cHttpDaemonConnectionsLimit div 2"
definition cHttpDaemonAddressReuse :: int where "cHttpDaemonAddressReuse = 1"

text \<open>The result of \<open>inet_pton\<close> is not looked at: when it fails, \<open>sin_addr\<close> is not initialised (\<open>None\<close>).\<close>

definition createAddressFor :: "(string \<Rightarrow> 32 word option) \<Rightarrow> string \<Rightarrow> 16 word \<Rightarrow> 32 word option \<times> 16 word" where
  "createAddressFor inet_pton ipAddress port = (inet_pton (c_str ipAddress), port)"

text \<open>A buffer that cannot be filled is left as it was, which is null at the first start.\<close>

definition load_buffer :: "(string \<Rightarrow> string option) \<Rightarrow> (string \<Rightarrow> nat) \<Rightarrow> string \<Rightarrow> buffer \<Rightarrow> buffer" where
  "load_buffer open_file size_of path b =
     (case readBinaryFileIntoBuffer open_file size_of path [] of (ok, bytes) \<Rightarrow> if ok then Some bytes else b)"

text \<open>The result: whether there is a daemon, its options, and the buffers for the certificate and the key.\<close>

definition startServerHttp :: "(string \<Rightarrow> 32 word option) \<Rightarrow> (string \<Rightarrow> string option) \<Rightarrow> (string \<Rightarrow> nat) \<Rightarrow>
    (daemon_options \<Rightarrow> bool) \<Rightarrow> http_settings \<Rightarrow> buffer \<Rightarrow> buffer \<Rightarrow> bool \<times> daemon_options \<times> buffer \<times> buffer" where
  "startServerHttp inet_pton open_file size_of MHD_start_daemon st certBuffer keyBuffer =
     (let addr = (if hs_address st \<noteq> [] then Some (createAddressFor inet_pton (hs_address st) (hs_port st)) else None);
          base = \<lparr>d_flags = [USE_THREAD_PER_CONNECTION, USE_INTERNAL_POLLING_THREAD, USE_DEBUG, USE_ITC],
            d_port = hs_port st, d_limit = cHttpDaemonConnectionsLimit, d_ip_limit = cHttpDaemonConnectionsPerIPLimit,
            d_reuse = cHttpDaemonAddressReuse, d_sock_addr = addr, d_key = None, d_cert = None\<rparr>
      in if enableSecure st
         then (let cert = load_buffer open_file size_of (certFilePath st) certBuffer;
                   key = load_buffer open_file size_of (keyFilePath st) keyBuffer;
                   opts = base\<lparr>d_flags := d_flags base @ [USE_TLS], d_key := Some key, d_cert := Some cert\<rparr>
               in (MHD_start_daemon opts, opts, cert, key))
         else (MHD_start_daemon base, base, certBuffer, keyBuffer))"

section \<open>The key as a C string\<close>

text \<open>What a function that takes a C string reads from a buffer: \<open>None\<close> when the pointer is null, or it
  meets a byte that is not initialised, or the end of the buffer, before a NUL.\<close>

fun c_string_at :: "char option list \<Rightarrow> string option" where
  "c_string_at [] = None"
| "c_string_at (None # bs) = None"
| "c_string_at (Some c # bs) = (if c = CHR 0x00 then Some [] else map_option ((#) c) (c_string_at bs))"

definition c_string_of :: "buffer \<Rightarrow> string option" where
  "c_string_of b = (case b of None \<Rightarrow> None | Some bytes \<Rightarrow> c_string_at bytes)"

lemma c_string_at_unterminated: "Some CHR 0x00 \<notin> set bs \<Longrightarrow> c_string_at bs = None"
  by (induction bs rule: c_string_at.induct) auto

text \<open>Documented of \<open>MHD_OPTION_HTTPS_MEM_KEY\<close> and \<open>MHD_OPTION_HTTPS_MEM_CERT\<close>: the argument is a string
  that ends with a NUL.  No text file gives one, whether it can be read or not.\<close>

lemma tls_buffers_unterminated:
  assumes "enableSecure st"
    and "\<And>path bytes. open_file path = Some bytes \<Longrightarrow> CHR 0x00 \<notin> set bytes"
    and "startServerHttp inet_pton open_file size_of mhd st None None = (started, opts, cert, key)"
  shows "\<exists>k c. d_key opts = Some k \<and> d_cert opts = Some c \<and> c_string_of k = None \<and> c_string_of c = None"
proof -
  have "c_string_of (load_buffer open_file size_of path None) = None" for path
  proof (cases "open_file path")
    case (Some bytes)
    have "Some CHR 0x00 \<notin> set (map Some (take (size_of path) bytes) @ replicate (size_of path - length bytes) None)"
      using assms(2) [OF Some] by (auto dest: in_set_takeD)
    with Some show ?thesis
      by (simp add: load_buffer_def readBinaryFileIntoBuffer_def c_string_of_def c_string_at_unterminated)
  qed (simp add: load_buffer_def readBinaryFileIntoBuffer_def c_string_of_def)
  with assms(1,3) show ?thesis by (auto simp: startServerHttp_def Let_def)
qed

lemma start_without_address:
  assumes "hs_address st = []" "\<not> enableSecure st"
  shows "startServerHttp inet_pton open_file size_of mhd st cert key = (started, opts, cert', key') \<Longrightarrow>
    d_sock_addr opts = None \<and> USE_TLS \<notin> set (d_flags opts) \<and> started = mhd opts \<and> cert' = cert \<and> key' = key"
  using assms by (auto simp: startServerHttp_def Let_def)

end
