(* ===== verification/HttpFile.thy ===== *)
theory HttpFile
  imports HttpServer
begin

text \<open>
  \<open>fileReader\<close> of \<open>http_server_impl.cc\<close> and its \<open>FileReaderContext\<close> (\<open>utils.hh\<close>): how the part of a file that a
  request has asked for reaches MHD, and with it the bytes of the reply.
\<close>

section \<open>The reader\<close>

text \<open>\<open>FileReaderContext\<close>: the open file, as its bytes and its position, and the offset.\<close>

record reader_context =
  file_bytes :: string
  file_position :: nat
  reader_offset :: int

definition open_context :: "string \<Rightarrow> int \<Rightarrow> reader_context" where
  "open_context bytes offset = \<lparr>file_bytes = bytes, file_position = 0, reader_offset = offset\<rparr>"

text \<open>The sum of the offset and the unsigned position, as the \<open>long\<close> that \<open>fseek\<close> takes.\<close>

definition seek_target :: "reader_context \<Rightarrow> nat \<Rightarrow> int" where
  "seek_target ctx pos = signed_take_bit 63 (reader_offset ctx + int pos)"

text \<open>\<open>fileReader\<close>: its result, what it has put into the buffer, and the context; an \<open>fseek\<close> to a negative
  position fails, which is ignored.\<close>

definition fileReader :: "reader_context \<Rightarrow> nat \<Rightarrow> nat \<Rightarrow> nat \<times> string \<times> reader_context" where
  "fileReader ctx pos room =
     (let at = (if 0 \<le> seek_target ctx pos then nat (seek_target ctx pos) else file_position ctx);
          buf = take room (drop at (file_bytes ctx))
      in (length buf, buf, ctx\<lparr>file_position := at + length buf\<rparr>))"

text \<open>What MHD gets for a response of \<open>len\<close> bytes from its calls, one for each buffer: it asks from the
  first byte it does not have, never beyond the length, until it has them all.\<close>

fun bytes_read :: "reader_context \<Rightarrow> nat \<Rightarrow> nat \<Rightarrow> nat list \<Rightarrow> string" where
  "bytes_read ctx len pos [] = []"
| "bytes_read ctx len pos (m # ms) =
     (if len \<le> pos then []
      else (let (n, buf, ctx1) = fileReader ctx pos (min m (len - pos))
            in buf @ bytes_read ctx1 len (pos + n) ms))"

section \<open>The bytes of a reply\<close>

lemma fileReader_at:
  assumes "0 \<le> reader_offset ctx" "reader_offset ctx + int pos < 2 ^ 63"
  shows "fileReader ctx pos room =
    (let at = nat (reader_offset ctx) + pos; buf = take room (drop at (file_bytes ctx))
     in (length buf, buf, ctx\<lparr>file_position := at + length buf\<rparr>))"
proof -
  have "seek_target ctx pos = reader_offset ctx + int pos"
    using assms by (simp add: seek_target_def signed_take_bit_int_eq_self)
  then show ?thesis using assms(1) by (simp add: fileReader_def Let_def nat_add_distrib)
qed

lemma bytes_read_slice:
  assumes "0 \<le> reader_offset ctx" "reader_offset ctx + int len < 2 ^ 63"
    and "nat (reader_offset ctx) + len \<le> length (file_bytes ctx)"
    and "\<forall>m \<in> set ms. 0 < m" "len \<le> pos + length ms" "pos \<le> len"
  shows "bytes_read ctx len pos ms = take (len - pos) (drop (nat (reader_offset ctx) + pos) (file_bytes ctx))"
  using assms
proof (induction ms arbitrary: ctx pos)
  case Nil
  then show ?case by simp
next
  case (Cons m ms)
  show ?case
  proof (cases "len \<le> pos")
    case False
    define n where "n = min m (len - pos)"
    define rest where "rest = drop (nat (reader_offset ctx) + pos) (file_bytes ctx)"
    have n: "0 < n" "n \<le> len - pos" using False Cons.prems(4) by (auto simp: n_def)
    have len: "length (take n rest) = n" using Cons.prems(3) n(2) by (simp add: rest_def)
    let ?ctx = "ctx\<lparr>file_position := nat (reader_offset ctx) + pos + n\<rparr>"
    have "fileReader ctx pos n = (n, take n rest, ?ctx)"
      using Cons.prems(1,2) False len by (subst fileReader_at) (simp_all add: Let_def rest_def)
    then have "bytes_read ctx len pos (m # ms) = take n rest @ bytes_read ?ctx len (pos + n) ms"
      using False by (simp add: n_def)
    also have "bytes_read ?ctx len (pos + n) ms = take (len - (pos + n)) (drop n rest)"
      using Cons.prems n by (subst Cons.IH) (simp_all add: rest_def ac_simps)
    also have "take n rest @ take (len - (pos + n)) (drop n rest) = take (len - pos) rest"
    proof -
      have "n + (len - (pos + n)) = len - pos" using n(2) by arith
      then show ?thesis by (simp flip: take_add)
    qed
    finally show ?thesis by (simp add: rest_def)
  qed simp
qed

text \<open>C14: A request for the bytes \<open>a\<close> to \<open>b\<close> of a file the dispatcher sends is answered with
  status 206, with headers that say so, and with exactly the bytes of the file in that range, cut to the
  file: in however many buffers MHD reads them, once there are enough.\<close>

theorem range_response:
  assumes "\<not> goingToStop srv"
    and "d (if debug then setResponseHeader ''Access-Control-Allow-Origin'' ''*'' c else c) (heap srv) = (True, c1, h)"
    and "conn_error c1 = 0" and "streamName c1 = f" "f \<noteq> []" and "file_size fs f = Some (int (length content))"
    and "header ''Range'' c1 = ''bytes='' @ show_int a @ CHR ''-'' # show_int b"
    and "0 \<le> a" "a \<le> b" "b \<le> INT_MAX" and "a < int (length content)" "int (length content) \<le> INT_MAX"
    and "can_fopen fs f" and "\<forall>n > 0. mhd_creates fs n"
    and "\<forall>m \<in> set ms. 0 < m" "length content \<le> length ms"
  shows "\<exists>hs len. fst (handleHttpRequest debug d fs tts now srv c) =
    \<lparr>status = STATUS_PARTIAL_CONTENT, response_of = Some (FromRange f a len),
     headers_of = [(''Content-Range'', ''bytes '' @ show_int a @ ''-'' @ show_int (min b (int (length content) - 1)) @ ''/'' @ show_int (int (length content))),
       (''Content-Length'', show_int len)] @ hs\<rparr> \<and>
    bytes_read (open_context content a) (nat len) 0 ms = take (nat (b - a + 1)) (drop (nat a) content)"
proof -
  define len where "len = min b (int (length content) - 1) - a + 1"
  have len: "0 < len" "a + len \<le> int (length content)" "len \<le> b - a + 1"
    "len < b - a + 1 \<longrightarrow> a + len = int (length content)" using assms(9,11) by (auto simp: len_def)
  have "bytes_read (open_context content a) (nat len) 0 ms = take (nat len) (drop (nat a) content)"
    using bytes_read_slice [of "open_context content a" "nat len" ms 0] len(1,2) assms(8,12,15,16)
    by (simp add: open_context_def INT_MAX_def)
  moreover have "take (nat len) (drop (nat a) content) = take (nat (b - a + 1)) (drop (nat a) content)"
  proof (cases "len = b - a + 1")
    case False
    with len have "length (drop (nat a) content) \<le> nat len" "length (drop (nat a) content) \<le> nat (b - a + 1)" by auto
    then show ?thesis by simp
  qed simp
  ultimately show ?thesis using range_reply [where d = d and debug = debug and c = c and srv = srv and h = h and ?c1.0 = c1 and f = f and sz = "int (length content)" and tts = tts and now = now, OF assms(1-14)] by (auto simp: len_def)
qed

theorem range_response_witness:
  "\<exists>hs len. fst (handleHttpRequest False file_dispatch movie_files (\<lambda>t. []) 0 idle_server (range_request ''bytes=1-49'')) =
      \<lparr>status = 206, response_of = Some (FromRange ''/srv/movie'' 1 len),
       headers_of = [(''Content-Range'', ''bytes 1-9/10''), (''Content-Length'', show_int len)] @ hs\<rparr> \<and>
    bytes_read (open_context ''0123456789'' 1) (nat len) 0 (replicate 10 4) = ''123456789''"
proof -
  have s: "show_int 1 = ''1''" "show_int 49 = ''49''" "show_int 9 = ''9''" "show_int 10 = ''10''"
    by code_simp+
  let ?c = "sendFile ''/srv/movie'' (range_request ''bytes=1-49'')"
  let ?p = "if False then setResponseHeader ''Access-Control-Allow-Origin'' ''*'' (range_request ''bytes=1-49'') else range_request ''bytes=1-49''"
  have "file_dispatch ?p (heap idle_server) = (True, ?c, heap idle_server)" by (simp add: file_dispatch_def)
  moreover have "header ''Range'' ?c = ''bytes='' @ show_int 1 @ CHR ''-'' # show_int 49"
    unfolding s by (simp add: header_def sendFile_def range_request_def new_connection_def)
  moreover have "\<forall>m \<in> set (replicate 10 4). 0 < (m :: nat)" "length ''0123456789'' \<le> length (replicate 10 (4 :: nat))" by simp_all
  ultimately show ?thesis
    using range_response [of idle_server file_dispatch False "range_request ''bytes=1-49''" ?c "heap idle_server"
        "''/srv/movie''" movie_files "''0123456789''" 1 49 "replicate 10 4" "\<lambda>t. []" 0]
    by (simp add: s idle_server_def movie_files_def sendFile_def range_request_def new_connection_def INT_MAX_def STATUS_PARTIAL_CONTENT_def)
qed

text \<open>A file that has become shorter: the reader returns 0 for ever, which to MHD means that
  the data will come later, and not the end of the stream.\<close>

lemma shortened_file_stalls:
  assumes "0 \<le> reader_offset ctx" "reader_offset ctx + int pos < 2 ^ 63"
    and "length (file_bytes ctx) \<le> nat (reader_offset ctx) + pos"
  shows "fst (fileReader ctx pos room) = 0" and "bytes_read ctx len pos ms = []"
proof -
  show "fst (fileReader ctx pos room) = 0" using assms by (simp add: fileReader_at Let_def)
  show "bytes_read ctx len pos ms = []" using assms
    by (induction ms arbitrary: ctx) (simp_all add: fileReader_at Let_def)
qed

end
