(* ===== verification/MigrationSettings.thy ===== *)
theory MigrationSettings
  imports Migration Settings
begin

text \<open>
  \<open>migration_settings.hh\<close>: the migration task that adds a structure to the settings.  The state of
  the application is the settings, which the task holds a reference to, and a rest \<open>'w\<close>, which the
  version callbacks of the user work on.
\<close>

section \<open>The task\<close>

text \<open>\<open>Settings::declare<T>(name)\<close>, and the assignment to the reference that \<open>access<T>()\<close> gives.\<close>

definition declare_named :: "('v, 'f, 's, 'a, 'ds, 'da) settings_io \<Rightarrow> disk \<Rightarrow> ('v, 's, 'a, 'ds, 'da) cpp_struct \<Rightarrow> string \<Rightarrow>
    ('v, 's, 'a, 'ds, 'da) settings \<Rightarrow> unit res \<times> ('v, 's, 'a, 'ds, 'da) settings" where
  "declare_named io dk T name st = declareImpl io dk T (fresh (accessor T)) name False st"

definition access_assign :: "nat \<Rightarrow> 'v \<Rightarrow> ('v, 's, 'a, 'ds, 'da) settings \<Rightarrow> cpp_error + ('v, 's, 'a, 'ds, 'da) settings" where
  "access_assign t v st =
     (case find (\<lambda>(name, e). map_option fst (mv_value e) = Some t) (entries_of st) of
        Some (name, e) \<Rightarrow> Inr (st\<lparr>entries_of := omap_set name (e\<lparr>mv_value := Some (t, v)\<rparr>) (entries_of st)\<rparr>)
      | None \<Rightarrow> Inl LogicError)"

definition new_struct_update :: "('v, 'f, 's, 'a, 'ds, 'da) settings_io \<Rightarrow> disk \<Rightarrow> ('v, 's, 'a, 'ds, 'da) cpp_struct \<Rightarrow> string \<Rightarrow> 'v \<Rightarrow>
    ('v, 's, 'a, 'ds, 'da) settings \<Rightarrow> bool res \<times> ('v, 's, 'a, 'ds, 'da) settings" where
  "new_struct_update io dk T name x st =
     (case declare_named io dk T name st of
        (Inl e, st1) \<Rightarrow> (Inl e, st1)
      | (Inr _, st1) \<Rightarrow> (case access_assign (type_id T) x st1 of
            Inl e \<Rightarrow> (Inl (Thrown e), st1) | Inr st2 \<Rightarrow> (Inr True, st2)))"

definition new_struct_rollback :: "string \<Rightarrow> ('v, 's, 'a, 'ds, 'da) settings \<Rightarrow> bool res \<times> ('v, 's, 'a, 'ds, 'da) settings" where
  "new_struct_rollback name st =
     (case undeclare name st of Inl e \<Rightarrow> (Inl (Thrown e), st) | Inr st1 \<Rightarrow> (Inr True, st1))"

text \<open>The constructor binds the settings, the name and a copy of the value.\<close>

definition newSettingsStructTask :: "('v, 'f, 's, 'a, 'ds, 'da) settings_io \<Rightarrow> disk \<Rightarrow> version \<Rightarrow> ('v, 's, 'a, 'ds, 'da) cpp_struct \<Rightarrow> string \<Rightarrow> 'v \<Rightarrow>
    (('v, 's, 'a, 'ds, 'da) settings \<times> 'w) task" where
  "newSettingsStructTask io dk from T name x =
     \<lparr>task_version = from,
      updateFunc = Some (\<lambda>(st, w). case new_struct_update io dk T name x st of (r, st1) \<Rightarrow> (r, (st1, w))),
      rollbackFunc = Some (\<lambda>(st, w). case new_struct_rollback name st of (r, st1) \<Rightarrow> (r, (st1, w))),
      task_description = ''create new settings structure: '' @ name\<rparr>"

section \<open>One task\<close>

lemma access_slot:
  assumes "inj nm" "settings_ok nm st"
  shows "access t st = (case map_of (entries_of st) (nm t) of None \<Rightarrow> Inl LogicError | Some e \<Rightarrow> Inr (snd (the (mv_value e))))"
proof (cases "map_of (entries_of st) (nm t)")
  case None
  have "find (\<lambda>(name, e). map_option fst (mv_value e) = Some t) (entries_of st) = None"
  proof (rule ccontr)
    assume "\<not> ?thesis"
    then have "isTypeDeclared t st" by (auto simp: find_None_iff isTypeDeclared_def)
    from type_declared [OF assms(2) this] None show False by simp
  qed
  with None show ?thesis by (simp add: access_def)
next
  case (Some e)
  with settings_okD [OF assms(2) Some] injD [OF assms(1)] have "map_option fst (mv_value e) = Some t" by (auto simp: entry_ok_def)
  with declared_access [OF assms(2) Some this] Some show ?thesis by (auto split: sum.splits)
qed

lemma access_assign_slot:
  assumes "inj nm" "settings_ok nm st" "map_of (entries_of st) (nm t) = Some e"
  shows "access_assign t v st = Inr (st\<lparr>entries_of := omap_set (nm t) (e\<lparr>mv_value := Some (t, v)\<rparr>) (entries_of st)\<rparr>)"
proof -
  let ?P = "\<lambda>(name, e). map_option fst (mv_value e) = Some t"
  have e: "map_option fst (mv_value e) = Some t"
    using settings_okD [OF assms(2,3)] injD [OF assms(1)] by (auto simp: entry_ok_def)
  with map_of_SomeD [OF assms(3)] have "find ?P (entries_of st) \<noteq> None" by (auto simp: find_None_iff)
  then obtain name e' where p: "find ?P (entries_of st) = Some (name, e')" by auto
  from find_SomeD [OF this] have e': "(name, e') \<in> set (entries_of st)" "map_option fst (mv_value e') = Some t" by auto
  then have m: "map_of (entries_of st) name = Some e'"
    using assms(2) by (auto simp: settings_ok_def intro: map_of_is_SomeI omap_inv_distinct)
  with settings_okD [OF assms(2) m] e'(2) have "name = nm t" by (auto simp: entry_ok_def)
  with m assms(3) p show ?thesis by (simp add: access_assign_def)
qed

lemma declareImpl_frame:
  assumes "omap_inv (entries_of st)"
  shows "n \<noteq> name \<Longrightarrow> map_of (entries_of (snd (declareImpl io dk T v name u st))) n = map_of (entries_of st) n"
    and "default_path (snd (declareImpl io dk T v name u st)) = default_path st"
    and "has_deserializer (snd (declareImpl io dk T v name u st)) = has_deserializer st"
  using assms by (auto simp: declareImpl_def map_of_omap_set omap_inv_set Let_def split: prod.split sum.split option.split)

text \<open>Why the value of the type \<open>T\<close> cannot be read from the default file, where there is one to read.\<close>

definition file_error :: "('v, 'f, 's, 'a, 'ds, 'da) settings_io \<Rightarrow> disk \<Rightarrow> ('v, 's, 'a, 'ds, 'da) settings \<Rightarrow>
    ('v, 's, 'a, 'ds, 'da) cpp_struct \<Rightarrow> string \<Rightarrow> stop option" where
  "file_error io dk st T name =
     (if default_path st \<noteq> [] \<and> has_deserializer st
      then (case fst (read_stream io (contents dk (default_path st)) [(name, \<lparr>mv_value = None, mv_assembler = Some T\<rparr>)]) of
              Inl x \<Rightarrow> Some x | Inr _ \<Rightarrow> None)
      else None)"

lemma file_error_cong:
  "default_path st1 = default_path st \<Longrightarrow> has_deserializer st1 = has_deserializer st \<Longrightarrow>
    file_error io dk st1 T name = file_error io dk st T name"
  by (simp add: file_error_def)

text \<open>The map of one entry that \<open>declareImpl\<close> reads has a value of that type or none.\<close>

lemma stub_deserialized:
  "mv_assembler e = Some T \<Longrightarrow> mv_value e = None \<or> map_option fst (mv_value e) = Some (type_id T) \<Longrightarrow>
    \<exists>x. snd (map_deserialize keys ds [(name, e)]) = [(name, e\<lparr>mv_value := x\<rparr>)] \<and>
      (x = None \<or> map_option fst x = Some (type_id T))"
proof (induction keys arbitrary: ds e)
  case Nil
  then show ?case by (intro exI [of _ "mv_value e"]) simp
next
  case (Cons key keys)
  have same: "\<exists>x. [(name, e)] = [(name, e\<lparr>mv_value := x\<rparr>)] \<and> (x = None \<or> map_option fst x = Some (type_id T))"
    using Cons.prems(2) by (intro exI [of _ "mv_value e"]) simp
  show ?case
  proof (cases "key = name")
    case False
    then show ?thesis using Cons.IH [OF Cons.prems, of ds] by simp
  next
    case True
    obtain r ds1 where v: "value_deserialize T key ds = (r, ds1)" by fastforce
    show ?thesis
    proof (cases r)
      case (Inl x)
      with True v Cons.prems(1) same show ?thesis by simp
    next
      case (Inr y)
      with v have y: "map_option fst y = Some (type_id T)" by (auto simp: value_deserialize_def split: prod.splits sum.splits)
      with Cons.IH [of "e\<lparr>mv_value := y\<rparr>" ds1] Cons.prems(1) True v Inr show ?thesis by simp
    qed
  qed
qed

lemma stub_read:
  "\<exists>x. snd (read_stream io file [(name, \<lparr>mv_value = None, mv_assembler = Some T\<rparr>)]) = [(name, \<lparr>mv_value = x, mv_assembler = Some T\<rparr>)] \<and>
    (x = None \<or> map_option fst x = Some (type_id T))"
  using stub_deserialized [where e = "\<lparr>mv_value = None, mv_assembler = Some T\<rparr>" and T = T and name = name]
  by (auto simp: read_stream_def Let_def split: option.split sum.split)

text \<open>Declaring a new type under a new name throws exactly what the reading of the default file throws.\<close>

lemma declare_new:
  assumes "\<not> isTypeDeclared (type_id T) st" "\<not> isNameDeclared name st"
  shows "fst (declareImpl io dk T v name u st) = (case file_error io dk st T name of None \<Rightarrow> Inr () | Some x \<Rightarrow> Inl x)"
proof (cases "default_path st \<noteq> [] \<and> has_deserializer st")
  case True
  obtain r stub where r: "read_stream io (contents dk (default_path st)) [(name, \<lparr>mv_value = None, mv_assembler = Some T\<rparr>)] = (r, stub)"
    by fastforce
  from stub_read [of io "contents dk (default_path st)" name T] r obtain x where
    "stub = [(name, \<lparr>mv_value = x, mv_assembler = Some T\<rparr>)]" "x = None \<or> map_option fst x = Some (type_id T)" by auto
  with assms True r show ?thesis by (auto simp: declareImpl_def file_error_def Let_def split: sum.split)
next
  case False
  then show ?thesis using assms by (auto simp: declareImpl_def file_error_def Let_def)
qed

lemma declare_again: "isTypeDeclared (type_id T) st \<Longrightarrow> fst (declareImpl io dk T v name u st) = Inr ()"
  by (simp add: declareImpl_def)

lemma undeclared_access: "\<not> isTypeDeclared t st \<Longrightarrow> access t st = Inl LogicError"
proof -
  assume "\<not> isTypeDeclared t st"
  then have "find (\<lambda>(name, e). map_option fst (mv_value e) = Some t) (entries_of st) = None"
    by (auto simp: find_None_iff isTypeDeclared_def)
  then show ?thesis by (simp only: access_def option.case)
qed

text \<open>A task stops where its type is new and its value cannot be read.\<close>

definition unreadable :: "('v, 'f, 's, 'a, 'ds, 'da) settings_io \<Rightarrow> disk \<Rightarrow> (nat \<Rightarrow> string) \<Rightarrow> ('v, 's, 'a, 'ds, 'da) settings \<Rightarrow>
    ('v, 's, 'a, 'ds, 'da) cpp_struct \<Rightarrow> stop option" where
  "unreadable io dk nm st T =
     (if isTypeDeclared (type_id T) st then None else file_error io dk st T (nm (type_id T)))"

lemma unreadable_none: "\<not> (default_path st \<noteq> [] \<and> has_deserializer st) \<Longrightarrow> unreadable io dk nm st T = None"
  by (auto simp: unreadable_def file_error_def)

lemma access_declared:
  assumes "inj nm" "settings_ok nm st"
  shows "isTypeDeclared t st \<longleftrightarrow> (\<exists>y. access t st = Inr y)"
  using type_declared [OF assms(2), of t] undeclared_access [of t st] by (force simp: access_slot [OF assms])

lemma unreadable_cong:
  assumes "inj nm" "settings_ok nm st" "settings_ok nm st1" "access (type_id T) st1 = access (type_id T) st"
    "default_path st1 = default_path st" "has_deserializer st1 = has_deserializer st"
  shows "unreadable io dk nm st1 T = unreadable io dk nm st T"
  using file_error_cong [OF assms(5,6), of io dk T "nm (type_id T)"] by (simp add: unreadable_def access_declared [OF assms(1,2)] access_declared [OF assms(1,3)] assms(4))

lemma update_one:
  assumes "inj nm" "settings_ok nm st" "new_struct_update io dk T (nm (type_id T)) x st = (r, st1)"
  shows "settings_ok nm st1"
    and "t \<noteq> type_id T \<Longrightarrow> access t st1 = access t st"
    and "default_path st1 = default_path st" "has_deserializer st1 = has_deserializer st"
    and "case unreadable io dk nm st T of
        None \<Rightarrow> r = Inr True \<and> access (type_id T) st1 = Inr x
      | Some e \<Rightarrow> r = Inl e \<and> (\<exists>y. access (type_id T) st1 = Inr y)"
proof -
  let ?d = "declareImpl io dk T (fresh (accessor T)) (nm (type_id T)) False st"
  obtain r0 st0 where d: "?d = (r0, st0)" by fastforce
  have inv: "omap_inv (entries_of st)" using assms(2) by (simp add: settings_ok_def)
  have ok: "settings_ok nm st0" using declareImpl_ok [OF assms(2) refl, of io dk T "fresh (accessor T)" False] d by simp
  obtain e where e: "map_of (entries_of st0) (nm (type_id T)) = Some e" "map_option fst (mv_value e) = Some (type_id T)"
    using declared_entry [OF assms(1,2) refl, where T = T and io = io and dk = dk and v = "fresh (accessor T)" and u = False] d by auto
  note frame = declareImpl_frame [OF inv, where name = "nm (type_id T)" and io = io and dk = dk and T = T and
      v = "fresh (accessor T)" and u = False, unfolded d snd_conv]
  note set = access_assign_slot [OF assms(1) ok e(1), of x]
  have ent: "entry_ok nm (nm (type_id T)) (e\<lparr>mv_value := Some (type_id T, x)\<rparr>)"
    using settings_okD [OF ok e(1)] injD [OF assms(1)] by (auto simp: entry_ok_def)
  note ok2 = settings_ok_set [OF ok ent]
  let ?st2 = "st0\<lparr>entries_of := omap_set (nm (type_id T)) (e\<lparr>mv_value := Some (type_id T, x)\<rparr>) (entries_of st0)\<rparr>"
  have inv0: "omap_inv (entries_of st0)" using ok by (simp add: settings_ok_def)
  have st1: "st1 = (case r0 of Inl _ \<Rightarrow> st0 | Inr _ \<Rightarrow> ?st2)" "r = (case r0 of Inl x \<Rightarrow> Inl x | Inr _ \<Rightarrow> Inr True)"
    using assms(3) d set by (auto simp: new_struct_update_def declare_named_def split: sum.splits)
  show ok1: "settings_ok nm st1" using st1(1) ok ok2 by (auto split: sum.split)
  show "default_path st1 = default_path st" "has_deserializer st1 = has_deserializer st"
    using st1(1) frame(2,3) by (auto split: sum.split)
  show "access t st1 = access t st" if "t \<noteq> type_id T"
  proof -
    have n: "nm t \<noteq> nm (type_id T)" using that injD [OF assms(1)] by blast
    then have "map_of (entries_of st1) (nm t) = map_of (entries_of st) (nm t)"
      using st1(1) frame(1) by (auto simp: map_of_omap_set [OF inv0] split: sum.split)
    then show ?thesis by (simp add: access_slot [OF assms(1) ok1] access_slot [OF assms(1,2)])
  qed
  have r0: "r0 = (case unreadable io dk nm st T of None \<Rightarrow> Inr () | Some x \<Rightarrow> Inl x)"
  proof (cases "isTypeDeclared (type_id T) st")
    case True
    with declare_again [OF True, of io dk "fresh (accessor T)" "nm (type_id T)" False] d show ?thesis by (simp add: unreadable_def)
  next
    case False
    then have "\<not> isNameDeclared (nm (type_id T)) st"
      by (auto simp: access_declared [OF assms(1,2)] access_slot [OF assms(1,2)] isNameDeclared_def split: option.splits)
    with declare_new [OF False, of "nm (type_id T)" io dk "fresh (accessor T)" False] d False show ?thesis by (simp add: unreadable_def)
  qed
  show "case unreadable io dk nm st T of
        None \<Rightarrow> r = Inr True \<and> access (type_id T) st1 = Inr x
      | Some e \<Rightarrow> r = Inl e \<and> (\<exists>y. access (type_id T) st1 = Inr y)"
    using st1 r0 e(1)
    by (auto simp: access_slot [OF assms(1) ok] access_slot [OF assms(1) ok2] map_of_omap_set [OF inv0] split: option.split)
qed

section \<open>Many tasks\<close>

text \<open>The tasks of the structures \<open>L\<close>, each with its version, its type and its value, under the names \<open>nm\<close>.\<close>

definition struct_tasks :: "('v, 'f, 's, 'a, 'ds, 'da) settings_io \<Rightarrow> disk \<Rightarrow> (nat \<Rightarrow> string) \<Rightarrow>
    (version \<times> ('v, 's, 'a, 'ds, 'da) cpp_struct \<times> 'v) list \<Rightarrow> (('v, 's, 'a, 'ds, 'da) settings \<times> 'w) task list" where
  "struct_tasks io dk nm L = map (\<lambda>(vr, T, x). newSettingsStructTask io dk vr T (nm (type_id T)) x) L"

definition struct_types :: "(version \<times> ('v, 's, 'a, 'ds, 'da) cpp_struct \<times> 'v) list \<Rightarrow> nat list" where
  "struct_types L = map (\<lambda>(vr, T, x). type_id T) L"

lemma struct_tasks_simps [simp]:
  "struct_tasks io dk nm [] = []"
  "struct_tasks io dk nm ((vr, T, x) # L) = newSettingsStructTask io dk vr T (nm (type_id T)) x # struct_tasks io dk nm L"
  "struct_types [] = []" "struct_types ((vr, T, x) # L) = type_id T # struct_types L"
  "struct_types (L @ L') = struct_types L @ struct_types L'"
  by (simp_all add: struct_tasks_def struct_types_def)

lemma set_struct_types_rev: "set (struct_types (rev L)) = set (struct_types L)"
  by (simp add: struct_types_def)

lemma task_version_new [simp]: "task_version (newSettingsStructTask io dk vr T name x) = vr"
  by (simp add: newSettingsStructTask_def)

lemma struct_tasks_versions: "map task_version (struct_tasks io dk nm L) = map fst L"
  by (simp add: struct_tasks_def split_beta comp_def)

lemma struct_tasks_filter:
  "filter (\<lambda>t. P (task_version t)) (struct_tasks io dk nm L) = struct_tasks io dk nm (filter (\<lambda>(vr, T, x). P vr) L)"
  by (induction L) (auto simp: struct_tasks_def)

lemma struct_tasks_rev: "rev (struct_tasks io dk nm L) = struct_tasks io dk nm (rev L)"
  by (simp add: struct_tasks_def rev_map)

text \<open>What the settings offer after the tasks \<open>ok\<close>, when those in \<open>rest\<close> were not applied: the first
  of these is the first of all whose value cannot be read.\<close>

definition migrated :: "('v, 'f, 's, 'a, 'ds, 'da) settings_io \<Rightarrow> disk \<Rightarrow> (nat \<Rightarrow> string) \<Rightarrow> ('v, 's, 'a, 'ds, 'da) settings \<Rightarrow>
    (version \<times> ('v, 's, 'a, 'ds, 'da) cpp_struct \<times> 'v) list \<Rightarrow>
    (version \<times> ('v, 's, 'a, 'ds, 'da) cpp_struct \<times> 'v) list \<Rightarrow> ('v, 's, 'a, 'ds, 'da) settings \<Rightarrow> bool" where
  "migrated io dk nm st ok rest st1 \<longleftrightarrow> settings_ok nm st1 \<and>
     default_path st1 = default_path st \<and> has_deserializer st1 = has_deserializer st \<and>
     (\<forall>(vr, T, x) \<in> set ok. access (type_id T) st1 = Inr x \<and> unreadable io dk nm st T = None) \<and>
     (\<forall>t. t \<notin> set (struct_types (ok @ rest)) \<longrightarrow> access t st1 = access t st) \<and>
     (\<forall>vr T x more. rest = (vr, T, x) # more \<longrightarrow>
        unreadable io dk nm st T \<noteq> None \<and> (\<exists>y. access (type_id T) st1 = Inr y))"

text \<open>An exception ends a migration like the end of the tasks; what is no exception ends it without a result.\<close>

definition migration_ends :: "('v, 'f, 's, 'a, 'ds, 'da) settings_io \<Rightarrow> disk \<Rightarrow> (nat \<Rightarrow> string) \<Rightarrow> ('v, 's, 'a, 'ds, 'da) settings \<Rightarrow>
    (version \<times> ('v, 's, 'a, 'ds, 'da) cpp_struct \<times> 'v) list \<Rightarrow> stop option" where
  "migration_ends io dk nm st rest =
     (case rest of [] \<Rightarrow> None
      | (vr, T, x) # _ \<Rightarrow> (case unreadable io dk nm st T of None \<Rightarrow> None | Some e \<Rightarrow> if catches e then None else Some e))"

lemma migration_ends_Nil [simp]: "migration_ends io dk nm st [] = None"
  by (simp add: migration_ends_def)

lemma updates_applied:
  assumes "inj nm" "settings_ok nm st" "distinct (struct_types L)"
  shows "\<exists>ok rest st1. L = ok @ rest \<and> migrated io dk nm st ok rest st1 \<and>
    apply_changeset Update (struct_tasks io dk nm L) v (st, w) =
      (case migration_ends io dk nm st rest of None \<Rightarrow> Inr (last (v # map fst ok)) | Some e \<Rightarrow> Inl e, (st1, w))"
  using assms(2,3)
proof (induction L arbitrary: st v)
  case Nil
  then show ?case by (simp add: migrated_def)
next
  case (Cons p L)
  obtain vr T x where p: "p = (vr, T, x)" by (cases p)
  obtain r st0 where u: "new_struct_update io dk T (nm (type_id T)) x st = (r, st0)" by fastforce
  note one = update_one [OF assms(1) Cons.prems(1) u]
  have run: "task_apply Update (newSettingsStructTask io dk vr T (nm (type_id T)) x) (st, w) = (r, (st0, w))"
    using u by (simp add: task_apply_def newSettingsStructTask_def)
  show ?case
  proof (cases "unreadable io dk nm st T")
    case (Some e)
    with one(5) have r: "r = Inl e" "\<exists>y. access (type_id T) st0 = Inr y" by simp_all
    have "migrated io dk nm st [] (p # L) st0" using one(1-4) r(2) Some by (auto simp: migrated_def p)
    with run r(1) Some show ?thesis
      by (intro exI [of _ "[]"] exI [of _ "p # L"] exI [of _ st0]) (simp add: p migration_ends_def)
  next
    case None
    with one(5) have b: "r = Inr True" "access (type_id T) st0 = Inr x" by simp_all
    from Cons.IH [OF one(1), of vr] Cons.prems(2) p obtain ok rest st1 where
      IH: "L = ok @ rest" "migrated io dk nm st0 ok rest st1"
      "apply_changeset Update (struct_tasks io dk nm L) vr (st0, w) =
        (case migration_ends io dk nm st0 rest of None \<Rightarrow> Inr (last (vr # map fst ok)) | Some e \<Rightarrow> Inl e, (st1, w))"
      by auto
    have same: "unreadable io dk nm st0 T' = unreadable io dk nm st T'" if "(vr', T', x') \<in> set (ok @ rest)" for vr' T' x'
    proof (rule unreadable_cong [OF assms(1) Cons.prems(1) one(1) one(2) one(3,4)])
      show "type_id T' \<noteq> type_id T" using that Cons.prems(2) IH(1) by (force simp: p struct_types_def)
    qed
    have "migration_ends io dk nm st0 rest = migration_ends io dk nm st rest"
    proof (cases rest)
      case (Cons q more)
      obtain vr' T' x' where "q = (vr', T', x')" by (cases q)
      with same [of vr' T' x'] Cons show ?thesis by (simp add: migration_ends_def)
    qed simp
    moreover have "migrated io dk nm st (p # ok) rest st1"
    proof -
      have "access (type_id T') st1 = Inr x' \<and> unreadable io dk nm st T' = None" if "(vr', T', x') \<in> set ok" for vr' T' x'
        using IH(2) same [of vr' T' x'] that by (auto simp: migrated_def)
      moreover have "unreadable io dk nm st T' \<noteq> None \<and> (\<exists>y. access (type_id T') st1 = Inr y)"
        if "rest = (vr', T', x') # more" for vr' T' x' more
        using IH(2) same [of vr' T' x'] that by (simp add: migrated_def)
      moreover have "access (type_id T) st1 = Inr x" "\<forall>t. t \<notin> set (struct_types (p # ok @ rest)) \<longrightarrow> access t st1 = access t st"
        using IH(1,2) one(2) b(2) Cons.prems(2) by (auto simp: migrated_def p)
      ultimately show ?thesis using IH(2) one(3,4) None unfolding migrated_def by (auto simp: p)
    qed
    ultimately have "p # L = (p # ok) @ rest \<and> migrated io dk nm st (p # ok) rest st1 \<and>
        apply_changeset Update (struct_tasks io dk nm (p # L)) v (st, w) =
          (case migration_ends io dk nm st rest of None \<Rightarrow> Inr (last (v # map fst (p # ok))) | Some e \<Rightarrow> Inl e, (st1, w))"
      using IH(1,3) run b(1) by (simp add: p split: option.split)
    then show ?thesis by blast
  qed
qed

text \<open>Rolling back takes the settings out one by one until one is not declared.\<close>

definition without :: "string list \<Rightarrow> ('v, 's, 'a, 'ds, 'da) settings \<Rightarrow> ('v, 's, 'a, 'ds, 'da) settings" where
  "without ns st = st\<lparr>entries_of := filter (\<lambda>e. fst e \<notin> set ns) (entries_of st)\<rparr>"

lemma without_nil [simp]: "without [] st = st" by (simp add: without_def)

lemma without_cons: "without (n # ns) st = without ns (st\<lparr>entries_of := omap_erase n (entries_of st)\<rparr>)"
  by (simp add: without_def omap_erase_def conj_commute)

lemma rollback_applied:
  assumes "inj nm" "distinct (struct_types L)"
  shows "apply_changeset Rollback (struct_tasks io dk nm L) v (st, w) =
    (let ok = takeWhile (\<lambda>(vr, T, x). isNameDeclared (nm (type_id T)) st) L
     in (Inr (last (v # map fst ok)), (without (map nm (struct_types ok)) st, w)))"
  using assms(2)
proof (induction L arbitrary: st v)
  case Nil
  then show ?case by simp
next
  case (Cons p L)
  obtain vr T x where p: "p = (vr, T, x)" by (cases p)
  let ?n = "nm (type_id T)"
  have run: "task_apply Rollback (newSettingsStructTask io dk vr T ?n x) (st, w) =
      (if isNameDeclared ?n st then (Inr True, (st\<lparr>entries_of := omap_erase ?n (entries_of st)\<rparr>, w)) else (Inl (Thrown LogicError), (st, w)))"
    by (simp add: task_apply_def newSettingsStructTask_def new_struct_rollback_def undeclare_def)
  show ?case
  proof (cases "isNameDeclared ?n st")
    case True
    let ?st = "st\<lparr>entries_of := omap_erase ?n (entries_of st)\<rparr>"
    have "isNameDeclared (nm (type_id T')) ?st = isNameDeclared (nm (type_id T')) st" if "(vr', T', x') \<in> set L" for vr' T' x'
    proof -
      have "type_id T' \<noteq> type_id T" using that Cons.prems by (force simp: p struct_types_def)
      with injD [OF assms(1)] show ?thesis by (auto simp: isNameDeclared_def map_of_omap_erase)
    qed
    then have "takeWhile (\<lambda>(vr, T, x). isNameDeclared (nm (type_id T)) ?st) L = takeWhile (\<lambda>(vr, T, x). isNameDeclared (nm (type_id T)) st) L"
      by (intro takeWhile_cong) auto
    with Cons.IH [of vr ?st] Cons.prems True run show ?thesis by (simp add: p Let_def without_cons)
  qed (use run in \<open>simp add: p Let_def caught_def\<close>)
qed

section \<open>A manager of such tasks\<close>

text \<open>The version callbacks of the user work on the rest of the application.\<close>

definition settings_manager :: "('v, 'f, 's, 'a, 'ds, 'da) settings_io \<Rightarrow> disk \<Rightarrow> (nat \<Rightarrow> string) \<Rightarrow> ('w \<Rightarrow> version) \<Rightarrow> (version \<Rightarrow> 'w \<Rightarrow> bool \<times> 'w) \<Rightarrow>
    (version \<times> ('v, 's, 'a, 'ds, 'da) cpp_struct \<times> 'v) list \<Rightarrow> (('v, 's, 'a, 'ds, 'da) settings \<times> 'w) manager \<Rightarrow> bool" where
  "settings_manager io dk nm ld sv L m \<longleftrightarrow> manager_inv m \<and> mtasks m = struct_tasks io dk nm L \<and>
     loadVFunc m = Some (\<lambda>(st, w). ld w) \<and> saveVFunc m = Some (\<lambda>v (st, w). case sv v w of (b, w1) \<Rightarrow> (b, (st, w1)))"

definition struct_changeset :: "version \<Rightarrow> version \<Rightarrow> (version \<times> 'x) list \<Rightarrow> (version \<times> 'x) list" where
  "struct_changeset currentV nextV L =
     (if version_lt nextV currentV then filter (\<lambda>(vr, _). version_le nextV vr \<and> version_le vr currentV) (rev L)
      else filter (\<lambda>(vr, _). version_lt currentV vr \<and> version_le vr nextV) L)"

lemma struct_changeset_tasks:
  assumes "mtasks m = struct_tasks io dk nm L"
  shows "changeset m currentV nextV = struct_tasks io dk nm (struct_changeset currentV nextV L)"
  by (simp add: changeset_def struct_changeset_def assms struct_tasks_rev
      struct_tasks_filter [of "\<lambda>v. version_le nextV v \<and> version_le v currentV"]
      struct_tasks_filter [of "\<lambda>v. version_lt currentV v \<and> version_le v nextV"] case_prod_unfold)

lemma struct_changeset_distinct: "distinct (struct_types L) \<Longrightarrow> distinct (struct_types (struct_changeset c n L))"
  by (simp add: struct_changeset_def struct_types_def distinct_map_filter flip: rev_map)

lemma checkout_struct_tasks:
  assumes "settings_manager io dk nm ld sv L m"
  shows "checkout_to m nextV (st, w) =
    (case apply_changeset (direction (ld w) nextV) (struct_tasks io dk nm (struct_changeset (ld w) nextV L)) (ld w) (st, w) of
       (Inr v, (st1, w1)) \<Rightarrow> (Inr v, (st1, snd (sv v w1))) | (Inl e, s) \<Rightarrow> (Inl e, s))"
proof -
  from assms have m: "manager_inv m" "mtasks m = struct_tasks io dk nm L" "loadVFunc m = Some (\<lambda>(st, w). ld w)"
    "saveVFunc m = Some (\<lambda>v (st, w). case sv v w of (b, w1) \<Rightarrow> (b, (st, w1)))" by (simp_all add: settings_manager_def)
  note cs = struct_changeset_tasks [OF m(2), of "ld w" nextV]
  show ?thesis
  proof (cases "version_eq nextV (ld w)")
    case True
    with changeset_same [OF this, of m] cs have "struct_changeset (ld w) nextV L = []" by (simp add: struct_tasks_def)
    with True m show ?thesis by (simp add: checkout_to_def Let_def split: prod.split)
  next
    case False
    then show ?thesis using checkout_to_changeset [OF m(1,3,4), of nextV "(st, w)"] cs
      by (auto split: prod.split sum.split)
  qed
qed

section \<open>Properties\<close>

text \<open>C16: With one name for each type, a migration upwards declares the structures of the versions on the
  way in ascending order, each with the value of its task whatever the default file holds, and
  changes no other setting.  It stops exactly at the first structure that was not declared before
  and whose value cannot be read from the default file: the reading of the file for its type does
  not succeed.  That one stays declared, with some value, and the version saved is the one before;
  if the reading is undefined or does not end, nor does the migration, and the version is as it was.\<close>

theorem settings_migration:
  assumes m: "settings_manager io dk nm ld sv L m"
    and nm: "inj nm" "settings_ok nm st" "distinct (struct_types L)"
    and up: "\<not> version_lt nextV (ld w)"
  shows "\<exists>ok rest st1. filter (\<lambda>(vr, _). version_lt (ld w) vr \<and> version_le vr nextV) L = ok @ rest \<and>
    migrated io dk nm st ok rest st1 \<and>
    (let u = last (ld w # map fst ok) in
       checkout_to m nextV (st, w) = (case migration_ends io dk nm st rest of
           None \<Rightarrow> (Inr u, (st1, snd (sv u w))) | Some e \<Rightarrow> (Inl e, (st1, w))))"
proof -
  let ?L = "filter (\<lambda>(vr, _). version_lt (ld w) vr \<and> version_le vr nextV) L"
  have L: "struct_changeset (ld w) nextV L = ?L" "direction (ld w) nextV = Update"
    using up by (simp_all add: struct_changeset_def direction_def)
  with struct_changeset_distinct [OF nm(3), of "ld w" nextV] have "distinct (struct_types ?L)" by simp
  from updates_applied [OF nm(1,2) this, of io dk "ld w" w] obtain ok rest st1 where
    s: "?L = ok @ rest" "migrated io dk nm st ok rest st1"
    "apply_changeset Update (struct_tasks io dk nm ?L) (ld w) (st, w) =
      (case migration_ends io dk nm st rest of None \<Rightarrow> Inr (last (ld w # map fst ok)) | Some e \<Rightarrow> Inl e, (st1, w))"
    by blast
  from s(3) have "let u = last (ld w # map fst ok) in
       checkout_to m nextV (st, w) = (case migration_ends io dk nm st rest of
           None \<Rightarrow> (Inr u, (st1, snd (sv u w))) | Some e \<Rightarrow> (Inl e, (st1, w)))"
    using checkout_struct_tasks [OF m, of nextV st w] by (simp add: L Let_def split: option.split)
  with s(1,2) show ?thesis by blast
qed

text \<open>When the default file is not read, an upward migration runs all its tasks.\<close>

lemma migration_up:
  assumes m: "settings_manager io dk nm ld sv L m" and nm: "inj nm" "settings_ok nm st" "distinct (struct_types L)"
    and up: "\<not> version_lt nextV (ld w)" and free: "\<not> (default_path st \<noteq> [] \<and> has_deserializer st)"
    and cs: "struct_changeset (ld w) nextV L = cs"
  shows "\<exists>st1. migrated io dk nm st cs [] st1 \<and>
    checkout_to m nextV (st, w) = (Inr (last (ld w # map fst cs)), (st1, snd (sv (last (ld w # map fst cs)) w)))"
proof -
  have d: "distinct (struct_types cs)" using struct_changeset_distinct [OF nm(3)] cs by blast
  from updates_applied [OF nm(1,2) d, of io dk "ld w" w] obtain ok rest st1 where
    s: "cs = ok @ rest" "migrated io dk nm st ok rest st1"
    "apply_changeset Update (struct_tasks io dk nm cs) (ld w) (st, w) =
      (case migration_ends io dk nm st rest of None \<Rightarrow> Inr (last (ld w # map fst ok)) | Some e \<Rightarrow> Inl e, (st1, w))"
    by blast
  have "rest = []" using s(2) by (cases rest) (auto simp: migrated_def unreadable_none [OF free])
  with s up checkout_struct_tasks [OF m, of nextV st w] show ?thesis by (simp add: cs direction_def)
qed

lemma migration_down:
  assumes m: "settings_manager io dk nm ld sv L m" and nm: "inj nm" "distinct (struct_types L)"
    and down: "version_lt nextV (ld w)" and cs: "struct_changeset (ld w) nextV L = cs"
    and decl: "\<forall>(vr, T, x) \<in> set cs. isNameDeclared (nm (type_id T)) st"
  shows "checkout_to m nextV (st, w) =
    (Inr (last (ld w # map fst cs)), (without (map nm (struct_types cs)) st, snd (sv (last (ld w # map fst cs)) w)))"
proof -
  have d: "distinct (struct_types cs)" using struct_changeset_distinct [OF nm(2)] cs by blast
  have "takeWhile (\<lambda>(vr, T, x). isNameDeclared (nm (type_id T)) st) cs = cs" using decl by (simp add: takeWhile_eq_all_conv)
  with rollback_applied [OF nm(1) d, of io dk "ld w" st w] checkout_struct_tasks [OF m, of nextV st w] down show ?thesis
    by (simp add: cs direction_def Let_def)
qed

lemma without_ok:
  assumes "inj nm" "settings_ok nm st"
  shows "settings_ok nm (without ns st)"
    and "access t (without ns st) = (if nm t \<in> set ns then Inl LogicError else access t st)"
proof -
  have m: "map_of (filter (\<lambda>e. fst e \<notin> set ns) es) n = (if n \<in> set ns then None else map_of es n)" for es :: "(string \<times> 'z) list" and n
    by (induction es) auto
  have "omap_inv (filter (\<lambda>e. fst e \<notin> set ns) (entries_of st))"
    using assms(2) by (auto simp: settings_ok_def omap_inv_def sorted_wrt_map intro: sorted_wrt_filter)
  then show ok: "settings_ok nm (without ns st)" using assms(2) by (auto simp: settings_ok_def without_def m)
  show "access t (without ns st) = (if nm t \<in> set ns then Inl LogicError else access t st)"
    unfolding access_slot [OF assms(1) ok] access_slot [OF assms] by (simp add: without_def m)
qed

lemma accessible_declared:
  assumes "inj nm" "settings_ok nm st" "access t st = Inr x"
  shows "isNameDeclared (nm t) st"
  using assms(3) by (auto simp: access_slot [OF assms(1,2)] isNameDeclared_def split: option.splits)

lemma migrated_declared:
  assumes "inj nm" "migrated io dk nm st ok rest st1"
  shows "\<forall>(vr, T, x) \<in> set (rev ok). isNameDeclared (nm (type_id T)) st1"
proof (clarsimp)
  fix vr T x assume "(vr, T, x) \<in> set ok"
  with assms(2) have "access (type_id T) st1 = Inr x" by (auto simp: migrated_def)
  with accessible_declared [OF assms(1), of st1] assms(2) show "isNameDeclared (nm (type_id T)) st1"
    by (auto simp: migrated_def)
qed

text \<open>The versions on the way when the first task has the lowest one.\<close>

lemma all_changesets:
  assumes "settings_manager io dk nm ld sv (p # L) m" "version_lt c (fst p)" "\<forall>q \<in> set L. version_lt (fst p) (fst q)"
  shows "latestVersion m = Inr (last (fst p # map fst L))"
    and "version_lt c (last (fst p # map fst L))"
    and "struct_changeset c (last (fst p # map fst L)) (p # L) = p # L"
    and "struct_changeset (last (fst p # map fst L)) c (p # L) = rev (p # L)"
    and "struct_changeset (fst p) (last (fst p # map fst L)) (p # L) = L"
    and "\<not> version_lt (last (fst p # map fst L)) (fst p)"
proof -
  let ?v = "last (fst p # map fst L)"
  from assms(1) have m: "manager_inv m" "mtasks m = struct_tasks io dk nm (p # L)" by (simp_all add: settings_manager_def)
  have vs: "map task_version (mtasks m) = fst p # map fst L" unfolding m(2) struct_tasks_versions by simp
  then have "mtasks m \<noteq> []" by auto
  with last_map [OF this, of task_version] vs show l: "latestVersion m = Inr ?v" by (simp add: latestVersion_def)
  have "version_le (fst q) ?v" if "q \<in> set (p # L)" for q
  proof -
    from arg_cong [OF vs, of set] that have "fst q \<in> task_version ` set (mtasks m)" by auto
    with latestVersion_last [OF m(1) l] show ?thesis by auto
  qed
  then have le: "version_le (fst p) ?v" "\<forall>q \<in> set L. version_le (fst q) ?v" by auto
  have low: "\<forall>q \<in> set L. version_lt c (fst q)" using assms(2,3) version.lt_trans by blast
  show "\<not> version_lt ?v (fst p)" using le(1) by (simp add: version_le_not_lt)
  show up: "version_lt c ?v" by (rule version_lt_up [OF assms(2)]) (use le(1) in \<open>simp add: version_le_not_lt\<close>)
  then have not: "\<not> version_lt ?v c" using version.lt_asym by blast
  show "struct_changeset c ?v (p # L) = p # L"
    using not assms(2) low le by (auto simp: struct_changeset_def split_beta intro!: filter_True)
  have "version_le c (fst p)" "\<forall>q \<in> set L. version_le c (fst q)" using assms(2) low by (simp_all add: version_le_def)
  then show "struct_changeset ?v c (p # L) = rev (p # L)"
    using up le by (auto simp: struct_changeset_def split_beta intro!: filter_True)
  show "struct_changeset (fst p) ?v (p # L) = L"
    using le assms(3) by (auto simp: struct_changeset_def split_beta version_le_not_lt version.lt_irrefl intro!: filter_True)
qed

text \<open>A program with two structures, of the versions 0.1 and 0.3, that keeps its version beside the settings.\<close>

abbreviation "unary i \<equiv> replicate i CHR ''x''"
abbreviation "two_structs \<equiv> [(mk_version 0 1 0 0, text_type 1 TBool, NBool True), (mk_version 0 3 0 0, text_type 2 TStr, NStr ''me'')]"

definition two_manager :: "(((int node, int jtree, int jtree json_array, int jtree, int jtree json_cursor) settings) \<times> version) manager" where
  "two_manager = \<lparr>mtasks = struct_tasks (json_io half_as_is text_lib) text_disk unary two_structs,
     loadVFunc = Some (\<lambda>(st, w). w), saveVFunc = Some (\<lambda>v (st, w). case (True, v) of (b, w1) \<Rightarrow> (b, (st, w1)))\<rparr>"

lemma two_manager:
  "settings_manager (json_io half_as_is text_lib) text_disk unary (\<lambda>w. w) (\<lambda>v w. (True, v)) two_structs two_manager"
  "inj unary" "settings_ok unary settings_new" "distinct (struct_types two_structs)"
  "\<not> (default_path settings_new \<noteq> [] \<and> has_deserializer settings_new)"
  by (simp_all add: settings_manager_def two_manager_def manager_inv_def compareTasks_def version_lt_def mk_version_def
      json_type_of_def settings_ok_def settings_new_def inj_def)

lemma settings_migration_witness:
  "\<exists>st1. checkout_to two_manager (mk_version 0 3 0 0) (settings_new, mk_version 0 1 0 0) = (Inr (mk_version 0 3 0 0), (st1, mk_version 0 3 0 0)) \<and>
    access 2 st1 = Inr (NStr ''me'') \<and> access 1 st1 = Inl LogicError"
proof -
  have "\<not> version_lt (mk_version 0 3 0 0) (mk_version 0 1 0 0)" by (simp add: version_lt_def mk_version_def)
  moreover have way: "filter (\<lambda>(vr, _). version_lt (mk_version 0 1 0 0) vr \<and> version_le vr (mk_version 0 3 0 0)) two_structs =
      [(mk_version 0 3 0 0, text_type 2 TStr, NStr ''me'')]"
    by (simp add: version_lt_def version_le_def version_eq_def mk_version_def)
  ultimately obtain ok rest st1 where
    s: "[(mk_version 0 3 0 0, text_type 2 TStr, NStr ''me'')] = ok @ rest"
    "migrated (json_io half_as_is text_lib) text_disk unary settings_new ok rest st1"
    "checkout_to two_manager (mk_version 0 3 0 0) (settings_new, mk_version 0 1 0 0) =
       (case migration_ends (json_io half_as_is text_lib) text_disk unary settings_new rest of
          None \<Rightarrow> (Inr (last (mk_version 0 1 0 0 # map fst ok)), (st1, last (mk_version 0 1 0 0 # map fst ok)))
        | Some e \<Rightarrow> (Inl e, (st1, mk_version 0 1 0 0)))"
    using settings_migration [OF two_manager(1-4), of "mk_version 0 3 0 0" "mk_version 0 1 0 0"]
    by (auto simp only: way Let_def snd_conv)
  have "rest = []" using s(2) by (cases rest) (auto simp: migrated_def unreadable_none [OF two_manager(5)])
  with s(1,2) have "access 2 st1 = Inr (NStr ''me'')" "access 1 st1 = Inl LogicError"
    by (auto simp: migrated_def json_type_of_def access_def settings_new_def)
  with s \<open>rest = []\<close> show ?thesis by auto
qed

text \<open>C17: A migration that is undone and done again loses a setting: the rollback to the version
  before the first structure takes all of them out, but leaves the version of the first task saved,
  so the next migration to the latest version, which succeeds as well, declares every structure but
  this one, and \<open>access\<close> throws for it.\<close>

theorem migrated_setting_lost:
  assumes m: "settings_manager io dk nm ld sv ((v1, T1, x1) # L) m"
    and nm: "inj nm" "settings_ok nm st" "distinct (struct_types ((v1, T1, x1) # L))"
    and first: "version_lt (ld w) v1" "\<forall>q \<in> set L. version_lt v1 (fst q)"
    and store: "\<And>v w. ld (snd (sv v w)) = v"
    and free: "\<not> (default_path st \<noteq> [] \<and> has_deserializer st)"
    and new: "\<forall>t \<in> set (struct_types ((v1, T1, x1) # L)). \<not> isTypeDeclared t st"
  shows "\<exists>latest st1 w1 st2 w2 st3 w3. latestVersion m = Inr latest \<and>
    checkout m (st, w) = (Inr latest, (st1, w1)) \<and> migrated io dk nm st ((v1, T1, x1) # L) [] st1 \<and>
    checkout_to m (ld w) (st1, w1) = (Inr v1, (st2, w2)) \<and> (\<forall>t. access t st2 = access t st) \<and>
    checkout m (st2, w2) = (Inr latest, (st3, w3)) \<and> migrated io dk nm st2 L [] st3 \<and>
    access (type_id T1) st3 = Inl LogicError"
proof -
  let ?p = "(v1, T1, x1)" and ?v = "last (v1 # map fst L)"
  note cs = all_changesets [OF m, of "ld w", unfolded fst_conv, OF first]
  let ?w1 = "snd (sv ?v w)" and ?w2 = "snd (sv v1 (snd (sv ?v w)))"
  have "\<not> version_lt ?v (ld w)" using cs(2) version.lt_asym by blast
  from migration_up [OF m nm this free cs(3)] obtain st1 where
    st1: "migrated io dk nm st (?p # L) [] st1" "checkout_to m ?v (st, w) = (Inr ?v, (st1, ?w1))" by auto
  have ok1: "settings_ok nm st1" using st1(1) by (simp add: migrated_def)
  let ?st2 = "without (map nm (struct_types (rev (?p # L)))) st1"
  have lw: "ld ?w1 = ?v" "ld ?w2 = v1" by (rule store)+
  have "last (?v # map fst (rev (?p # L))) = v1" by simp
  with migration_down [OF m nm(1,3), of "ld w" ?w1 "rev (?p # L)" st1] cs(2,4) migrated_declared [OF nm(1) st1(1)]
  have st2: "checkout_to m (ld w) (st1, ?w1) = (Inr v1, (?st2, ?w2))" by (simp only: lw)
  have dom: "nm t \<in> set (map nm (struct_types (rev (?p # L)))) \<longleftrightarrow> t \<in> set (struct_types (?p # L))" for t
    by (simp only: set_map set_struct_types_rev inj_image_mem_iff [OF nm(1)])
  have acc: "access t ?st2 = access t st" for t
  proof (cases "t \<in> set (struct_types (?p # L))")
    case True
    with new undeclared_access have "access t st = Inl LogicError" by blast
    with True show ?thesis by (simp only: without_ok(2) [OF nm(1) ok1] dom if_True)
  next
    case False
    with st1(1) show ?thesis by (simp only: without_ok(2) [OF nm(1) ok1] dom migrated_def if_False append_Nil2) blast
  qed
  have free2: "\<not> (default_path ?st2 \<noteq> [] \<and> has_deserializer ?st2)"
    using free st1(1) by (simp add: without_def migrated_def)
  from migration_up [OF m nm(1) without_ok(1) [OF nm(1) ok1] nm(3), of ?v ?w2 "map nm (struct_types (rev (?p # L)))" L]
    cs(5,6) lw free2 obtain st3 where
    st3: "migrated io dk nm ?st2 L [] st3" "checkout_to m ?v (?st2, ?w2) = (Inr ?v, (st3, snd (sv ?v ?w2)))" by (auto simp only: lw)
  have "access (type_id T1) st3 = access (type_id T1) ?st2" using st3(1) nm(3) by (simp add: migrated_def)
  then have "access (type_id T1) st3 = Inl LogicError" using acc new by (simp add: undeclared_access)
  with st1 st2 st3 acc cs(1) show ?thesis
    by (intro exI [of _ ?v] exI [of _ st1] exI [of _ ?w1] exI [of _ ?st2] exI [of _ ?w2] exI [of _ st3] exI [of _ "snd (sv ?v ?w2)"])
      (simp add: checkout_def)
qed

lemma migrated_setting_lost_witness:
  "\<exists>st1 w1 st2 w2 st3 w3. checkout two_manager (settings_new, mk_version 0 0 0 0) = (Inr (mk_version 0 3 0 0), (st1, w1)) \<and>
    access 1 st1 = Inr (NBool True) \<and>
    checkout_to two_manager (mk_version 0 0 0 0) (st1, w1) = (Inr (mk_version 0 1 0 0), (st2, w2)) \<and>
    checkout two_manager (st2, w2) = (Inr (mk_version 0 3 0 0), (st3, w3)) \<and> access 1 st3 = Inl LogicError"
proof -
  have v: "version_lt (mk_version 0 0 0 0) (mk_version 0 1 0 0)"
    "\<forall>q \<in> set [(mk_version 0 3 0 0, text_type 2 TStr, NStr ''me'')]. version_lt (mk_version 0 1 0 0) (fst q)"
    by (simp_all add: version_lt_def mk_version_def)
  have new: "\<forall>t \<in> set (struct_types two_structs). \<not> isTypeDeclared t settings_new"
    by (simp add: isTypeDeclared_def settings_new_def)
  have latest: "latestVersion two_manager = Inr (mk_version 0 3 0 0)" by (simp add: latestVersion_def two_manager_def)
  have "type_id (text_type 1 TBool) = 1" by (simp add: json_type_of_def)
  with migrated_setting_lost [OF two_manager(1-4) v _ two_manager(5) new] latest show ?thesis
    by (auto simp: migrated_def)
qed

end
