(* ===== verification/RestJson.thy ===== *)
theory RestJson
  imports Rest Settings
begin

text \<open>
  \<open>RestConnection\<close> and \<open>IDocCommand\<close> of \<open>resthandler.hh\<close>: a command that takes a structure from the
  body of its request and answers with one, as JSON, from the events of MHD to the reply.
\<close>

section \<open>The connection of a command\<close>

text \<open>\<open>input<T>\<close> and \<open>setOutput\<close>, for a structure with the members \<open>ms\<close>.\<close>

definition rest_input :: "('f, 'j, string) json_lib \<Rightarrow> ('r, 'j, 'j) base_member list \<Rightarrow> 'r \<Rightarrow> http_conn \<Rightarrow> 'r res" where
  "rest_input J ms z c = deserializeFromJsonObject J ms z (body c)"

definition setOutput :: "('f, 'j, string) json_lib \<Rightarrow> ('r, 'j, 'j) base_member list \<Rightarrow> 'r \<Rightarrow> http_conn \<Rightarrow> http_conn res" where
  "setOutput J ms object c = (case serializeAsJsonObject J ms object of Inl e \<Rightarrow> Inl e | Inr x \<Rightarrow> Inr (write_out x c))"

text \<open>\<open>defineRequest\<close> and \<open>defineResponse\<close> keep the graph of the assembler, named \<open>root\<close> by default.\<close>

definition defineRequest :: "('n, 's, 'a, 'ds, 'da) assembler \<Rightarrow> cmd_doc \<Rightarrow> cmd_doc res" where
  "defineRequest A d = (case graph_of A ''root'' of Inl e \<Rightarrow> Inl e | Inr g \<Rightarrow> Inr (d\<lparr>requestGraph := g\<rparr>))"

definition defineResponse :: "('n, 's, 'a, 'ds, 'da) assembler \<Rightarrow> cmd_doc \<Rightarrow> cmd_doc res" where
  "defineResponse A d = (case graph_of A ''root'' of Inl e \<Rightarrow> Inl e | Inr g \<Rightarrow> Inr (d\<lparr>responseGraph := g\<rparr>))"

section \<open>A command over JSON\<close>

text \<open>A command of the user: the body of \<open>perform\<close> that reads its input, computes, and sets its
  output; \<open>what\<close> is the message of the exception that ends it.  A loop that does not end and
  undefined behaviour are no exceptions.\<close>

definition perform_ended :: "(cpp_error \<Rightarrow> string) \<Rightarrow> stop \<Rightarrow> perform_result" where
  "perform_ended what s =
     (case s of Thrown e \<Rightarrow> if caught e then Threw (what e) else Stopped s | Endless \<Rightarrow> Stopped s)"

definition json_perform :: "('f, 'j, string) json_lib \<Rightarrow> (cpp_error \<Rightarrow> string) \<Rightarrow> ('p, 'j, 'j) base_member list \<Rightarrow> 'p \<Rightarrow>
    ('q, 'j, 'j) base_member list \<Rightarrow> ('p \<Rightarrow> 'q) \<Rightarrow> cmd_info list \<Rightarrow> http_conn \<Rightarrow> perform_result \<times> http_conn" where
  "json_perform J what ins z outs g infos c =
     (case rest_input J ins z c of
        Inl s \<Rightarrow> (perform_ended what s, c)
      | Inr p \<Rightarrow> (case setOutput J outs (g p) c of
            Inl s \<Rightarrow> (perform_ended what s, c)
          | Inr c1 \<Rightarrow> (Performed True, c1)))"

section \<open>From the events to the reply\<close>

lemma thrown_Inr_iff: "thrown r = Inr x \<longleftrightarrow> r = Inr x"
  by (cases r) simp_all

lemma rest_reply_ok:
  assumes "c = (new_connection u m b mc)\<lparr>conn_session := s\<rparr>" "\<not> goingToStop srv" "path c = CHR ''/'' # n"
    and cmd: "find (\<lambda>cmd. cmd_name cmd = n) rh = Some cmd"
    and run: "\<And>infos k. body k = b \<Longrightarrow> perform cmd infos k = (Performed True, write_out y k)"
  shows "\<exists>hs c2 srv2. handleHttpRequest debug (rest_dispatch rh) fs tts now srv c =
    (\<lparr>status = STATUS_OK, response_of = Some (FromBuffer y), headers_of = hs\<rparr>, c2, srv2) \<and>
    map_of hs ''Content-type'' = Some ''application/json''"
proof -
  define c0 where "c0 = (if debug then setResponseHeader ''Access-Control-Allow-Origin'' ''*'' c else c)"
  have "path c0 = path c" by (simp add: path_def c0_def setResponseHeader_def split: option.split)
  then have c0: "path c0 = CHR ''/'' # n" "body c0 = b" "strResponse c0 = []" "omap_inv (responseHeaders c0)"
    "map_of (responseHeaders c0) ''Content-type'' = None"
    using assms(1,3) by (auto simp: c0_def setResponseHeader_def new_connection_def omap_inv_def)
  define c1 where "c1 = setError STATUS_OK (setResponseHeader ''Content-type'' ''application/json'' (write_out y c0))"
  have c1: "strResponse c1 = y" "streamName c1 = []" "conn_error c1 = STATUS_OK" "omap_inv (responseHeaders c1)"
    "map_of (responseHeaders c1) ''Content-type'' = Some ''application/json''"
    using c0 by (auto simp: c1_def setError_def setResponseHeader_def write_out_def omap_inv_set map_of_omap_set)
  have "rest_dispatch rh c0 (heap srv) = (True, c1, heap srv)"
    using cmd run [OF c0(2)] c0 by (simp add: rest_dispatch_def rest_handle_def substr_from_def run_command_def Let_def c1_def
        responseHasHeader_def write_out_def)
  then have handled: "server_handle (rest_dispatch rh) srv c0 = (True, c1, srv)"
    using assms(2) c1(3) by (simp add: server_handle_def STATUS_OK_def)
  obtain srv2 c2 where s: "reply_session tts now srv c1 = (srv2, c2)" by fastforce
  then have c2: "strResponse c2 = y" "streamName c2 = []" "conn_error c2 = STATUS_OK"
    "map_of (responseHeaders c2) ''Content-type'' = Some ''application/json''"
    using c1 by (auto simp: reply_session_def Let_def setResponseHeader_def omap_inv_set map_of_omap_set split: prod.splits option.splits)
  have "handleHttpRequest debug (rest_dispatch rh) fs tts now srv c =
    (\<lparr>status = STATUS_OK, response_of = Some (FromBuffer y), headers_of = responseHeaders c2\<rparr>, c2, srv2)"
    using handled s c1(3) c2 by (simp add: handleHttpRequest_def Let_def c0_def)
  with c2(4) show ?thesis by blast
qed

lemma rest_reply_failed:
  assumes "c = (new_connection u m b mc)\<lparr>conn_session := s\<rparr>" "\<not> goingToStop srv" "path c = CHR ''/'' # n"
    and cmd: "find (\<lambda>cmd. cmd_name cmd = n) rh = Some cmd"
    and run: "\<And>infos k. body k = b \<Longrightarrow> perform cmd infos k = (Threw msg, k)"
  shows "\<exists>hs c2 srv2. handleHttpRequest debug (rest_dispatch rh) fs tts now srv c =
    (\<lparr>status = STATUS_INTERNAL_ERROR, response_of = Some (FromBuffer (''Internal server error: '' @ msg)), headers_of = hs\<rparr>, c2, srv2)"
proof -
  define c0 where "c0 = (if debug then setResponseHeader ''Access-Control-Allow-Origin'' ''*'' c else c)"
  have "path c0 = path c" by (simp add: path_def c0_def setResponseHeader_def split: option.split)
  then have c0: "path c0 = CHR ''/'' # n" "body c0 = b" "strResponse c0 = []" "conn_error c0 = 0"
    using assms(1,3) by (auto simp: c0_def setResponseHeader_def new_connection_def)
  define c1 where "c1 = write_out msg (write_out ''Internal server error: '' (setError STATUS_INTERNAL_ERROR c0))"
  have c1: "strResponse c1 = ''Internal server error: '' @ msg" "conn_error c1 = STATUS_INTERNAL_ERROR"
    using c0 by (simp_all add: c1_def setError_def write_out_def)
  have "rest_dispatch rh c0 (heap srv) = (False, c1, heap srv)"
    using cmd run [OF c0(2)] c0 by (simp add: rest_dispatch_def rest_handle_def substr_from_def run_command_def Let_def c1_def)
  then have "server_handle (rest_dispatch rh) srv c0 = (False, c1, srv)"
    using assms(2) c1(2) by (simp add: server_handle_def STATUS_INTERNAL_ERROR_def)
  with c1 show ?thesis by (simp add: handleHttpRequest_def Let_def c0_def STATUS_INTERNAL_ERROR_def STATUS_OK_def)
qed

lemma events_reply:
  assumes go: "\<not> goingToStop srv" and mth: "map_of methodTypeFromString mth = Some m" "m \<noteq> OPTIONS"
    and chunks: "\<forall>x \<in> set chunks. x \<noteq> []"
    and reply: "\<And>s srv1. \<not> goingToStop srv1 \<Longrightarrow> \<exists>hs c2 srv2.
      handleHttpRequest debug d fs tts now srv1 ((new_connection u m (concat chunks) mc)\<lparr>conn_session := s\<rparr>) =
        (\<lparr>status = st, response_of = r, headers_of = hs\<rparr>, c2, srv2) \<and> P hs"
  shows "\<exists>hs con srv2. run_events debug d fs tts queues now
      (map (\<lambda>x. \<lparr>ev_method = mth, ev_url = u, ev_data = x, ev_mhd = mc\<rparr>) ([] # chunks @ [[]])) None srv =
      (Some con, srv2, [\<lparr>status = st, response_of = r, headers_of = hs\<rparr>]) \<and> P hs"
proof -
  from request_events [OF go mth chunks] obtain s srv1 where s: "\<not> goingToStop srv1"
    "run_events debug d fs tts queues now
      (map (\<lambda>x. \<lparr>ev_method = mth, ev_url = u, ev_data = x, ev_mhd = mc\<rparr>) ([] # chunks @ [[]])) None srv =
    (let (r, c2, srv2) = handleHttpRequest debug d fs tts now srv1 ((new_connection u m (concat chunks) mc)\<lparr>conn_session := s\<rparr>)
     in (Some c2, srv2, [r]))" by blast
  from reply [OF s(1)] obtain hs c2 srv2 where
    "handleHttpRequest debug d fs tts now srv1 ((new_connection u m (concat chunks) mc)\<lparr>conn_session := s\<rparr>) =
      (\<lparr>status = st, response_of = r, headers_of = hs\<rparr>, c2, srv2)" "P hs" by blast
  with s(2) show ?thesis by (intro exI [of _ hs] exI [of _ c2] exI [of _ srv2]) simp
qed

abbreviation "json_members J fuel fc ms \<equiv> asm_members fuel (json_writer J) (json_reader J) fc ms"
abbreviation "json_fresh J fuel fc ms \<equiv> fresh (asm fuel (json_writer J) (json_reader J) fc (TStruct ms))"
abbreviation "json_stores fin fuel fc ms \<equiv> ok_el (store False (\<lambda>_. True) (json_prim fin) fuel fc (TStruct ms))"
abbreviation "request_of mth u mc chunks \<equiv>
  map (\<lambda>x. \<lparr>ev_method = mth, ev_url = u, ev_data = x, ev_mhd = mc\<rparr>) ([] # chunks @ [[]])"

text \<open>C15: A client that writes a structure as JSON and sends it to \<open>/name\<close>, cut into whatever pieces, gets
  one reply: the status 200, the content type of JSON, and a text from which it reads the structure
  that the command has computed from the one sent.  A body whose reading throws gets 500 with the
  message of the exception; one whose reading does not end or is undefined gets no reply, since the
  handler does not return.\<close>

theorem rest_json_exchange:
  assumes lib: "json_library J obj arr fin norm"
    and ins: "wf_ty (\<lambda>_. True) (json_prim fin) (TStruct ins)" "json_stores fin fuel fc ins v"
    and outs: "wf_ty (\<lambda>_. True) (json_prim fin) (TStruct outs)" "json_stores fin fuel fc outs (g v)"
    and sent: "serializeAsJsonObject J (json_members J fuel fc ins) v = Inr x"
    and made: "serializeAsJsonObject J (json_members J fuel fc outs) (g v) = Inr y"
    and cmd: "find (\<lambda>cmd. cmd_name cmd = n) rh = Some cmd"
      "perform cmd = json_perform J what (json_members J fuel fc ins) (json_fresh J fuel fc ins) (json_members J fuel fc outs) g"
    and go: "\<not> goingToStop srv" and mth: "map_of methodTypeFromString mth = Some m" "m \<noteq> OPTIONS"
    and u: "path (new_connection u m [] mc) = CHR ''/'' # n"
    and chunks: "\<forall>w \<in> set chunks. w \<noteq> []"
  shows "(concat chunks = x \<longrightarrow> (\<exists>hs con srv2.
      run_events debug (rest_dispatch rh) fs tts queues now (request_of mth u mc chunks) None srv =
        (Some con, srv2, [\<lparr>status = STATUS_OK, response_of = Some (FromBuffer y), headers_of = hs\<rparr>]) \<and>
      map_of hs ''Content-type'' = Some ''application/json'') \<and>
      deserializeFromJsonObject J (json_members J fuel fc outs) (json_fresh J fuel fc outs) y = Inr (g v)) \<and>
    (\<forall>e. deserializeFromJsonObject J (json_members J fuel fc ins) (json_fresh J fuel fc ins) (concat chunks) = Inl (Thrown e) \<and> caught e \<longrightarrow> (\<exists>hs con srv2.
      run_events debug (rest_dispatch rh) fs tts queues now (request_of mth u mc chunks) None srv =
        (Some con, srv2, [\<lparr>status = STATUS_INTERNAL_ERROR, response_of = Some (FromBuffer (''Internal server error: '' @ what e)), headers_of = hs\<rparr>]))) \<and>
    (\<forall>s c. deserializeFromJsonObject J (json_members J fuel fc ins) (json_fresh J fuel fc ins) (concat chunks) = Inl s \<and> \<not> catches s \<and>
      path c = CHR ''/'' # n \<and> body c = concat chunks \<longrightarrow> rest_handle rh c = Inl s)"
proof (intro conjI impI allI)
  have path: "path ((new_connection u m b mc)\<lparr>conn_session := s\<rparr>) = CHR ''/'' # n" for b s
    using u by (simp add: path_def new_connection_def split: option.splits)
  have read_back: "deserializeFromJsonObject J (json_members J fuel fc ms) (json_fresh J fuel fc ms) t = Inr w"
    if "wf_ty (\<lambda>_. True) (json_prim fin) (TStruct ms)" "json_stores fin fuel fc ms w"
      "serializeAsJsonObject J (json_members J fuel fc ms) w = Inr t" for ms w t
    using json_library.struct_roundtrip [OF lib that(1,2)] that(3) by (metis thrown_Inr_iff)
  show "deserializeFromJsonObject J (json_members J fuel fc outs) (json_fresh J fuel fc outs) y = Inr (g v)"
    by (rule read_back [OF outs made])
  show "\<exists>hs con srv2. run_events debug (rest_dispatch rh) fs tts queues now (request_of mth u mc chunks) None srv =
        (Some con, srv2, [\<lparr>status = STATUS_OK, response_of = Some (FromBuffer y), headers_of = hs\<rparr>]) \<and>
      map_of hs ''Content-type'' = Some ''application/json''" if "concat chunks = x"
  proof (rule events_reply [OF go mth chunks], rule rest_reply_ok [OF refl _ path cmd(1)])
    show "perform cmd infos k = (Performed True, write_out y k)" if "body k = concat chunks" for infos k
      using that \<open>concat chunks = x\<close> read_back [OF ins sent] made by (simp add: cmd(2) json_perform_def rest_input_def setOutput_def)
  qed
  show "\<exists>hs con srv2. run_events debug (rest_dispatch rh) fs tts queues now (request_of mth u mc chunks) None srv =
        (Some con, srv2, [\<lparr>status = STATUS_INTERNAL_ERROR, response_of = Some (FromBuffer (''Internal server error: '' @ what e)), headers_of = hs\<rparr>])"
    if "deserializeFromJsonObject J (json_members J fuel fc ins) (json_fresh J fuel fc ins) (concat chunks) = Inl (Thrown e) \<and> caught e" for e
  proof -
    have "perform cmd infos k = (Threw (what e), k)" if "body k = concat chunks" for infos k
      using that \<open>_ = Inl (Thrown e) \<and> caught e\<close> by (simp add: cmd(2) json_perform_def rest_input_def perform_ended_def)
    note failed = rest_reply_failed [OF refl _ path cmd(1) this]
    from events_reply [OF go mth chunks, where P = "\<lambda>_. True"] failed show ?thesis by simp
  qed
  show "rest_handle rh c = Inl s"
    if "deserializeFromJsonObject J (json_members J fuel fc ins) (json_fresh J fuel fc ins) (concat chunks) = Inl s \<and> \<not> catches s \<and>
      path c = CHR ''/'' # n \<and> body c = concat chunks" for s c
  proof -
    have "perform_ended what s = Stopped s" using that by (cases s) (simp_all add: perform_ended_def)
    with that show ?thesis
      by (simp add: rest_handle_def substr_from_def cmd run_command_def json_perform_def rest_input_def)
  qed
qed

text \<open>A command that doubles a number, over the JSON values of \<open>text_lib\<close>.\<close>

abbreviation "text_members \<equiv> json_members text_lib 9 exact_conv"
abbreviation "text_fresh \<equiv> json_fresh text_lib 9 exact_conv"
abbreviation "number n \<equiv> [(n, TInt 8 True :: ty)]"

fun double :: "int node \<Rightarrow> int node" where
  "double (NStruct [NInt i]) = NStruct [NInt (2 * i)]"
| "double x = x"

definition double_command :: rest_command where
  "double_command = \<lparr>cmd_name = ''double'', cmd_docs = None,
     perform = json_perform text_lib (\<lambda>_. ''wrong input'') (text_members (number ''n'')) (text_fresh (number ''n''))
       (text_members (number ''twice'')) double\<rparr>"

theorem rest_json_exchange_witness:
  "\<exists>x y hs con srv2. serializeAsJsonObject text_lib (text_members (number ''n'')) (NStruct [NInt 20]) = Inr x \<and>
     run_events False (rest_dispatch [double_command]) movie_files (\<lambda>t. []) (\<lambda>_. True) 0
       (request_of ''POST'' ''/double'' no_mhd [x]) None idle_server =
       (Some con, srv2, [\<lparr>status = STATUS_OK, response_of = Some (FromBuffer y), headers_of = hs\<rparr>]) \<and>
     deserializeFromJsonObject text_lib (text_members (number ''twice'')) (text_fresh (number ''twice'')) y = Inr (NStruct [NInt 40])"
proof -
  have wf: "wf_ty (\<lambda>_. True) (json_prim (\<lambda>_ :: int. True)) (TStruct (number n))" for n by simp
  have st: "ok_el (store False (\<lambda>_. True) (json_prim (\<lambda>_ :: int. True)) 9 exact_conv (TStruct (number n))) (NStruct [NInt i])"
    if "0 \<le> i" "i \<le> 100" for n i
    using that by (simp add: row_spec_def comp_spec_def lift_spec_def prim_spec_def json_prim_def int_min_def int_max_def)
  have v: "double (NStruct [NInt 20]) = NStruct [NInt 40]" by simp
  obtain x where x: "serializeAsJsonObject text_lib (text_members (number ''n'')) (NStruct [NInt 20]) = Inr x" "x \<noteq> []"
    using texts.struct_roundtrip [OF wf st, of 20 "''n''"] by (auto simp: text_lib_def)
  obtain y where y: "serializeAsJsonObject text_lib (text_members (number ''twice'')) (double (NStruct [NInt 20])) = Inr y"
    using texts.struct_roundtrip [OF wf st, of 40 "''twice''"] by (auto simp: text_lib_def)
  have cmd: "find (\<lambda>cmd. cmd_name cmd = ''double'') [double_command] = Some double_command" by (simp add: double_command_def)
  have st2: "ok_el (store False (\<lambda>_. True) (json_prim (\<lambda>_ :: int. True)) 9 exact_conv (TStruct (number ''twice''))) (double (NStruct [NInt 20]))"
    unfolding v by (rule st) simp_all
  have p: "perform double_command = json_perform text_lib (\<lambda>_. ''wrong input'') (text_members (number ''n'')) (text_fresh (number ''n''))
       (text_members (number ''twice'')) double" by (simp add: double_command_def)
  have u: "path (new_connection ''/double'' POST [] no_mhd) = CHR ''/'' # ''double''" by (simp add: path_def new_connection_def)
  have post: "map_of methodTypeFromString ''POST'' = Some POST" "POST \<noteq> OPTIONS" by (simp_all add: methodTypeFromString_def)
  have go: "\<not> goingToStop idle_server" by (simp add: idle_server_def)
  have chunk: "\<forall>w \<in> set [x]. w \<noteq> []" using x(2) by simp
  note exchange = rest_json_exchange [OF texts.json_library_axioms wf st wf st2 x(1) y cmd p go post u chunk, of False movie_files "\<lambda>t. []" "\<lambda>_. True" 0]
  have "concat [x] = x" by simp
  with exchange x(1) v show ?thesis by simp blast
qed

end
