(* ===== verification/PidFile.thy ===== *)
theory PidFile
  imports Service
begin

text \<open>
  The PID file of \<open>SysVService\<close> (\<open>service.cc\<close>) as several processes see it: the calls of
  \<open>createPidFile\<close> and of the guard of \<open>SysVService::run\<close>, interleaved, on a path that names at most one file.
  What \<open>open\<close>, \<open>fcntl\<close>, \<open>close\<close> and \<open>unlink\<close> do is POSIX: a write lock belongs to a file and a process, and a
  file that is unlinked lives on for those that have it open.
\<close>

section \<open>The calls\<close>

text \<open>How far a process has come; the number is the file it has opened.  In \<open>GaveUp\<close> it has returned an
  error from \<open>createPidFile\<close>, which leaves the file open.\<close>

datatype pid_phase =
    Absent | HasOpened nat | HasLocked nat | Serves nat | HasClosed nat | GaveUp nat

record pid_world =
  path_names :: "nat option"
  next_file :: nat
  lock_of :: "nat \<Rightarrow> nat option"
  text_of :: "nat \<Rightarrow> string"
  phase :: "nat \<Rightarrow> pid_phase"

definition pid_text :: "nat \<Rightarrow> string" where
  "pid_text p = show_int (int p) @ [CHR 0x0A]"

definition to_phase :: "nat \<Rightarrow> pid_phase \<Rightarrow> pid_world \<Rightarrow> pid_world" where
  "to_phase p x w = w\<lparr>phase := (phase w)(p := x)\<rparr>"

text \<open>\<open>open\<close> with \<open>O_CREAT\<close>\<close>

definition pid_open :: "nat \<Rightarrow> pid_world \<Rightarrow> pid_world" where
  "pid_open p w =
     (case path_names w of
        Some i \<Rightarrow> to_phase p (HasOpened i) w
      | None \<Rightarrow> to_phase p (HasOpened (next_file w))
          (w\<lparr>path_names := Some (next_file w), next_file := Suc (next_file w), text_of := (text_of w)(next_file w := [])\<rparr>))"

text \<open>\<open>F_SETLK\<close>\<close>

definition pid_lock :: "nat \<Rightarrow> nat \<Rightarrow> pid_world \<Rightarrow> pid_world" where
  "pid_lock p i w =
     (if lock_of w i \<in> {None, Some p} then to_phase p (HasLocked i) (w\<lparr>lock_of := (lock_of w)(i := Some p)\<rparr>)
      else to_phase p (GaveUp i) w)"

text \<open>\<open>ftruncate\<close> and \<open>write\<close>\<close>

definition pid_write :: "nat \<Rightarrow> nat \<Rightarrow> pid_world \<Rightarrow> pid_world" where
  "pid_write p i w = to_phase p (Serves i) (w\<lparr>text_of := (text_of w)(i := pid_text p)\<rparr>)"

text \<open>A process that ends, or closes the file, loses its locks.\<close>

definition unlocked :: "nat \<Rightarrow> (nat \<Rightarrow> nat option) \<Rightarrow> nat \<Rightarrow> nat option" where
  "unlocked p lk i = (if lk i = Some p then None else lk i)"

text \<open>The guard of \<open>SysVService::run\<close>: first \<open>close\<close>, then \<open>unlink\<close>.\<close>

definition pid_close :: "nat \<Rightarrow> nat \<Rightarrow> pid_world \<Rightarrow> pid_world" where
  "pid_close p i w = to_phase p (HasClosed i) (w\<lparr>lock_of := unlocked p (lock_of w)\<rparr>)"

definition pid_unlink :: "nat \<Rightarrow> pid_world \<Rightarrow> pid_world" where
  "pid_unlink p w = to_phase p Absent (w\<lparr>path_names := None\<rparr>)"

definition pid_die :: "nat \<Rightarrow> pid_world \<Rightarrow> pid_world" where
  "pid_die p w = to_phase p Absent (w\<lparr>lock_of := unlocked p (lock_of w)\<rparr>)"

text \<open>The next call of a process.\<close>

definition pid_step :: "nat \<Rightarrow> pid_world \<Rightarrow> pid_world" where
  "pid_step p w =
     (case phase w p of
        Absent \<Rightarrow> pid_open p w
      | HasOpened i \<Rightarrow> pid_lock p i w
      | HasLocked i \<Rightarrow> pid_write p i w
      | Serves i \<Rightarrow> pid_close p i w
      | HasClosed i \<Rightarrow> pid_unlink p w
      | GaveUp i \<Rightarrow> pid_die p w)"

text \<open>A call on the open file that fails ends \<open>createPidFile\<close>.\<close>

definition pid_fail :: "nat \<Rightarrow> pid_world \<Rightarrow> pid_world" where
  "pid_fail p w =
     (case phase w p of
        HasOpened i \<Rightarrow> to_phase p (GaveUp i) w
      | HasLocked i \<Rightarrow> to_phase p (GaveUp i) w
      | _ \<Rightarrow> w)"

datatype pid_event = Steps nat | Fails nat | Dies nat

fun pid_does :: "pid_event \<Rightarrow> pid_world \<Rightarrow> pid_world" where
  "pid_does (Steps p) = pid_step p"
| "pid_does (Fails p) = pid_fail p"
| "pid_does (Dies p) = pid_die p"

definition pid_run :: "pid_event list \<Rightarrow> pid_world \<Rightarrow> pid_world" where
  "pid_run es w = foldl (\<lambda>w e. pid_does e w) w es"

text \<open>No service, with or without a file left by one that has died.\<close>

definition no_service :: "pid_world \<Rightarrow> bool" where
  "no_service w \<longleftrightarrow> (\<forall>p. phase w p = Absent) \<and> (\<forall>i. lock_of w i = None) \<and>
     (\<forall>i. path_names w = Some i \<longrightarrow> i < next_file w)"

section \<open>The calls of one process are those of \<open>createPidFile\<close>\<close>

definition EAGAIN :: int where "EAGAIN = 11"

text \<open>What a process that opens the file as the descriptor \<open>fd\<close> meets.\<close>

definition pid_env_of :: "nat \<Rightarrow> int \<Rightarrow> pid_world \<Rightarrow> pid_env" where
  "pid_env_of p fd w =
     \<lparr>parent_exists = True, parent_made = True, open_fd = fd, open_errno = 0, getfd_fails = None, setfd_fails = None,
      setlk_fails = (case path_names w of None \<Rightarrow> None | Some i \<Rightarrow> if lock_of w i \<in> {None, Some p} then None else Some EAGAIN),
      truncate_fails = None, written = True\<rparr>"

definition locks_known :: "pid_world \<Rightarrow> bool" where
  "locks_known w \<longleftrightarrow> (\<forall>i \<ge> next_file w. lock_of w i = None)"

lemmas pid_calls = pid_open_def pid_lock_def pid_write_def pid_close_def pid_unlink_def pid_die_def pid_fail_def to_phase_def

lemma createPidFile_steps:
  assumes "phase w p = Absent" "locks_known w" "0 \<le> fd"
  shows "(0 \<le> fst (createPidFile pidfile (pid_env_of p fd w))) \<longleftrightarrow>
    (\<exists>i. phase (pid_step p (pid_step p (pid_step p w))) p = Serves i)"
  using assms by (cases "path_names w")
    (auto simp: pid_step_def pid_calls createPidFile_def pid_env_of_def locks_known_def EAGAIN_def Let_def)

section \<open>One service at a time\<close>

text \<open>What always holds: a file belongs to the process that has locked it, and holds its number while it serves.\<close>

definition pid_owned :: "pid_world \<Rightarrow> bool" where
  "pid_owned w \<longleftrightarrow> (\<forall>p i. phase w p \<in> {HasLocked i, Serves i} \<longrightarrow> lock_of w i = Some p) \<and>
     (\<forall>p i. phase w p = Serves i \<longrightarrow> text_of w i = pid_text p) \<and>
     (\<forall>p i. phase w p \<in> {HasOpened i, HasLocked i, Serves i} \<longrightarrow> i < next_file w) \<and>
     (\<forall>i. path_names w = Some i \<longrightarrow> i < next_file w)"

text \<open>What the unlinking of a file breaks: all that work with a file work with the one of the path.\<close>

definition works_on :: "pid_world \<Rightarrow> nat \<Rightarrow> nat \<Rightarrow> bool" where
  "works_on w p i \<longleftrightarrow> phase w p \<in> {HasOpened i, HasLocked i, Serves i}"

definition pid_same :: "pid_world \<Rightarrow> bool" where
  "pid_same w \<longleftrightarrow> (\<forall>p i. works_on w p i \<longrightarrow> path_names w = Some i)"

text \<open>A process unlinks the file only while no other one works with a file.\<close>

definition unlinks_alone :: "pid_event \<Rightarrow> pid_world \<Rightarrow> bool" where
  "unlinks_alone e w \<longleftrightarrow> (\<forall>p i. e = Steps p \<longrightarrow> phase w p = HasClosed i \<longrightarrow> (\<forall>q j. q \<noteq> p \<longrightarrow> \<not> works_on w q j))"

fun orderly :: "pid_event list \<Rightarrow> pid_world \<Rightarrow> bool" where
  "orderly [] w \<longleftrightarrow> True"
| "orderly (e # es) w \<longleftrightarrow> unlinks_alone e w \<and> orderly es (pid_does e w)"

lemma pid_owned_does: "pid_owned w \<Longrightarrow> pid_owned (pid_does e w)"
  by (cases e)
    (auto simp: pid_owned_def pid_step_def pid_calls unlocked_def less_Suc_eq split: pid_phase.splits option.splits if_splits,
      (metis option.inject)+)

lemma works_on_does:
  "works_on (pid_does e w) p i \<Longrightarrow> works_on w p i \<or> path_names (pid_does e w) = Some i"
  by (cases e) (auto simp: works_on_def pid_step_def pid_calls split: pid_phase.splits option.splits if_splits)

lemma path_names_does:
  assumes "works_on w p i" "path_names w = Some i" "unlinks_alone e w"
  shows "path_names (pid_does e w) = Some i"
proof (cases e)
  case (Steps q)
  have "phase w q \<noteq> HasClosed j" for j
    using assms(1,3) Steps by (cases "p = q") (auto simp: unlinks_alone_def works_on_def)
  then show ?thesis using assms(2) Steps by (auto simp: pid_step_def pid_calls split: pid_phase.splits)
qed (use assms(2) in \<open>auto simp: pid_calls split: pid_phase.splits\<close>)

lemma pid_same_does:
  assumes "pid_same w" "unlinks_alone e w"
  shows "pid_same (pid_does e w)"
  using works_on_does [of e w] path_names_does [OF _ _ assms(2)] assms(1) unfolding pid_same_def by blast

lemma pid_owned_run: "pid_owned w \<Longrightarrow> pid_owned (pid_run es w)"
  by (induction es arbitrary: w) (simp_all add: pid_run_def pid_owned_does)

lemma pid_same_run: "pid_same w \<Longrightarrow> orderly es w \<Longrightarrow> pid_same (pid_run es w)"
  by (induction es arbitrary: w) (simp_all add: pid_run_def pid_same_does)

lemma no_service_inv: "no_service w \<Longrightarrow> pid_owned w \<and> pid_same w"
  by (simp add: no_service_def pid_owned_def pid_same_def works_on_def)

lemma orderly_names:
  assumes "no_service w" "orderly es w" "phase (pid_run es w) p = Serves i"
  shows "path_names (pid_run es w) = Some i"
  using pid_same_run [OF _ assms(2)] no_service_inv [OF assms(1)] assms(3) by (simp add: pid_same_def works_on_def)

text \<open>C26: After any history of processes that start, fail, end and die, a service that runs holds the
  lock of its file, which has its number in it, and two services never share a file; as long as no
  service has unlinked the file while another process had it open, there is one service at most, and the
  path names its file.\<close>

theorem pid_file_exclusive:
  assumes "no_service w0" and "w = pid_run es w0" and "phase w p = Serves i"
  shows "lock_of w i = Some p \<and> text_of w i = pid_text p \<and> (phase w q = Serves i \<longrightarrow> q = p) \<and>
    (orderly es w0 \<longrightarrow> path_names w = Some i \<and> (\<forall>q j. phase w q = Serves j \<longrightarrow> q = p))"
proof -
  have own: "pid_owned w" using no_service_inv [OF assms(1)] assms(2) pid_owned_run by blast
  then have lock: "phase w q = Serves j \<Longrightarrow> lock_of w j = Some q" for q j by (simp add: pid_owned_def)
  have "path_names w = Some i \<and> (\<forall>q j. phase w q = Serves j \<longrightarrow> q = p)" if "orderly es w0"
  proof -
    have name: "path_names w = Some j" if "phase w q = Serves j" for q j
      using orderly_names [OF assms(1) \<open>orderly es w0\<close>] that assms(2) by blast
    from name [OF assms(3)] name lock [OF assms(3)] lock show ?thesis by fastforce
  qed
  moreover have "text_of w i = pid_text p" using own assms(3) by (simp add: pid_owned_def)
  ultimately show ?thesis using lock [OF assms(3)] lock [of q i] by auto
qed

definition no_pid_file :: pid_world where
  "no_pid_file = \<lparr>path_names = None, next_file = 0, lock_of = (\<lambda>_. None), text_of = (\<lambda>_. []), phase = (\<lambda>_. Absent)\<rparr>"

text \<open>A first service, a second that is refused, the end of the first, and a third.\<close>

abbreviation "one_after_another \<equiv>
  [Steps 1, Steps 1, Steps 1, Steps 2, Steps 2, Steps 2, Steps 1, Steps 1, Steps 3, Steps 3, Steps 3]"

lemmas pid_eval = pid_run_def pid_step_def pid_calls unlocked_def no_pid_file_def

theorem pid_file_exclusive_witness:
  "let w = pid_run one_after_another no_pid_file
   in phase w 3 = Serves 1 \<and> lock_of w 1 = Some 3 \<and> text_of w 1 = pid_text 3 \<and> path_names w = Some 1 \<and> {q. \<exists>j. phase w q = Serves j} = {3}"
proof -
  let ?w = "pid_run one_after_another no_pid_file"
  have n: "no_service no_pid_file" by (simp add: no_service_def no_pid_file_def)
  have s: "phase ?w 3 = Serves 1" by (simp add: pid_eval)
  have "orderly one_after_another no_pid_file"
    by (simp add: unlinks_alone_def works_on_def pid_step_def pid_calls unlocked_def no_pid_file_def)
  with pid_file_exclusive [OF n refl s] s show ?thesis by (auto simp: Let_def)
qed

text \<open>C32: The guard closes the file, and with it gives up the lock, before it unlinks it.  A second process
  that has opened the file in time then locks a file that is about to lose its name, and a third one makes a new
  file: two services run at once.\<close>

theorem pid_file_raced:
  "\<exists>es. let w = pid_run es no_pid_file
    in \<not> orderly es no_pid_file \<and> phase w 2 = Serves 0 \<and> phase w 3 = Serves 1 \<and> path_names w = Some 1"
proof -
  let ?es = "[Steps 1, Steps 1, Steps 1, Steps 2, Steps 1, Steps 2, Steps 2, Steps 1, Steps 3, Steps 3, Steps 3]"
  let ?w = "pid_run ?es no_pid_file"
  have raced: "phase ?w 2 = Serves 0 \<and> phase ?w 3 = Serves 1 \<and> path_names ?w = Some 1" by (simp add: pid_eval)
  moreover have "no_service no_pid_file" by (simp add: no_service_def no_pid_file_def)
  ultimately have "\<not> orderly ?es no_pid_file" using orderly_names [of no_pid_file ?es 2 0] by auto
  with raced show ?thesis by (intro exI [of _ ?es]) (simp add: Let_def)
qed

end
