(* ===== verification/TestClock.thy ===== *)
theory TestClock
  imports TimeProvider
begin

text \<open>
  \<open>components/system/include/system/testtimeprovider.hh\<close>, the clock of the test suites: the
  system time, an argument of each operation, shifted by an offset; and \<open>TimeProvider::instance\<close>
  (\<open>time_provider.cc\<close>), which gives the provider in use and replaces it.
\<close>

section \<open>The provider in use\<close>

definition instance_of :: "'p option \<Rightarrow> 'p \<Rightarrow> 'p \<times> 'p" where
  "instance_of newTP tp = (let tp1 = (case newTP of Some p \<Rightarrow> p | None \<Rightarrow> tp) in (tp1, tp1))"

section \<open>The shifted clock\<close>

record test_clock =
  provider :: time_provider
  timeOffset :: int

definition test_now :: "int \<Rightarrow> test_clock \<Rightarrow> int" where
  "test_now time c = time + timeOffset c"

text \<open>The calls of the handlers are part of the result.\<close>

definition setTimeOffset :: "int \<Rightarrow> int \<Rightarrow> test_clock \<Rightarrow> test_clock \<times> (callback \<times> int) list" where
  "setTimeOffset time off c =
     (let oldTime = test_now time c;
          (tp, calls) = onTimeChanged oldTime (provider c)
      in (c\<lparr>provider := tp, timeOffset := off\<rparr>, calls))"

text \<open>The system time is read once for the new offset and once more for the old time.\<close>

definition setTime :: "int \<Rightarrow> int \<Rightarrow> int \<Rightarrow> test_clock \<Rightarrow> test_clock \<times> (callback \<times> int) list" where
  "setTime time time1 t c = setTimeOffset time1 (t - time) c"

text \<open>The fields of the date go to \<open>mktime\<close>, an argument, as \<open>std::tm\<close> counts them.\<close>

definition setTime_parts :: "(int \<Rightarrow> int \<Rightarrow> int \<Rightarrow> int \<Rightarrow> int \<Rightarrow> int \<Rightarrow> int) \<Rightarrow> int \<Rightarrow> int \<Rightarrow>
    int \<Rightarrow> int \<Rightarrow> int \<Rightarrow> int \<Rightarrow> int \<Rightarrow> int \<Rightarrow> test_clock \<Rightarrow> test_clock \<times> (callback \<times> int) list" where
  "setTime_parts mktime time time1 sec mi hour dayOfMonth mon yr c =
     setTime time time1 (mktime sec mi hour dayOfMonth (mon - 1) (yr - 1900)) c"

text \<open>\<open>sleep\<close> does not wait: it moves the clock and wakes the waiting threads, without a call of the
  handlers.\<close>

definition test_sleep :: "int \<Rightarrow> test_clock \<Rightarrow> test_clock" where
  "test_sleep duration c =
     c\<lparr>provider := (provider c)\<lparr>tp_state_of := TP_Wait\<rparr>, timeOffset := timeOffset c + duration\<rparr>"

section \<open>Lemmas\<close>

text \<open>While the system clock stands, the new time is the one set, every handler has been called with
  the time before, and a thread that waits is woken by the change.\<close>

lemma setTime_takes_effect:
  assumes "setTime time time t c = (c1, cs)"
  shows "test_now time c1 = t"
    and "cs = map (\<lambda>cb. (cb, test_now time c)) (handlers (provider c))"
    and "tp_state_of (provider c1) = TP_TimeChange" and "handlers (provider c1) = handlers (provider c)"
  using assms by (auto simp: setTime_def setTimeOffset_def test_now_def onTimeChanged_def Let_def)

text \<open>A wait woken by \<open>sleep\<close> ends once the clock has reached its deadline, and goes on before.\<close>

lemma sleep_wakes:
  "waitFor (test_now time c) d
      (\<lparr>w_set = Some TP_Wait, w_timeout = False, w_now = test_now time (test_sleep duration c)\<rparr> # ws) =
    (if duration \<ge> d then Some (TP_Wait, ws) else waitFor_loop (test_now time c + d) TP_Wait ws)"
  by (simp add: waitFor_def test_sleep_def test_now_def stored_def)

end
